(* ===== verification/Praid_Prelude.thy ===== *)
theory Praid_Prelude
  imports Main "HOL-Library.Word"
begin

text \<open>
  Shared vocabulary of the development: the kernel's integer types, the outcome of a
  handler that may crash, a few constants of \<open>praid.h\<close>, the lemmas that move word
  arithmetic to the natural numbers, and the algebra of exclusive or that the parity
  arguments use.
\<close>

unbundle bit_operations_syntax

named_theorems praid_word "rules that move word operations to the natural numbers"
named_theorems praid_const "the constants of praid.h and of the headers it uses"

section \<open>Integer types\<close>

type_synonym u8 = "8 word"
type_synonym u16 = "16 word"
type_synonym u32 = "32 word"
type_synonym u64 = "64 word"

text \<open>\<open>sector_t\<close> of the kernel: an unsigned 64-bit sector number.\<close>

type_synonym sector = u64

text \<open>Byte-addressed contents: a page, a block device, a mapped memory region.\<close>

type_synonym bytes = "nat \<Rightarrow> u8"

section \<open>Outcomes\<close>

text \<open>
  A handler either returns, or stops the kernel (a \<open>BUG_ON\<close>, a null or error pointer
  that is dereferenced, a division by zero).
\<close>

datatype fault = BugOn | BadPointer | DivideError

datatype 'a outcome = Crash fault | Ret 'a

fun bind_outcome :: "'a outcome \<Rightarrow> ('a \<Rightarrow> 'b outcome) \<Rightarrow> 'b outcome" where
  "bind_outcome (Crash e) f = Crash e"
| "bind_outcome (Ret x) f = f x"

lemma bind_outcome_Ret_iff:
  "bind_outcome m f = Ret y \<longleftrightarrow> (\<exists>x. m = Ret x \<and> f x = Ret y)"
  by (cases m) auto

lemma bind_outcome_case: "bind_outcome m f = (case m of Crash e \<Rightarrow> Crash e | Ret x \<Rightarrow> f x)"
  by (cases m) simp_all

text \<open>The same for a computation that in addition may not return (\<open>None\<close>).\<close>

fun bind_run :: "'a outcome option \<Rightarrow> ('a \<Rightarrow> 'b outcome option) \<Rightarrow> 'b outcome option" where
  "bind_run None f = None"
| "bind_run (Some (Crash e)) f = Some (Crash e)"
| "bind_run (Some (Ret x)) f = f x"

lemma bind_run_case:
  "bind_run m f = (case m of None \<Rightarrow> None | Some (Crash e) \<Rightarrow> Some (Crash e) | Some (Ret x) \<Rightarrow> f x)"
  by (cases m rule: option.exhaust; cases "the m") simp_all

lemma bind_run_unit: "bind_run m (\<lambda>x. Some (Ret x)) = m"
  by (simp add: bind_run_case split: option.split outcome.split)


text \<open>The error numbers the module returns, as the kernel's \<open>errno\<close> names them.\<close>

datatype errno = EPERM | EIO | ENOMEM | EBUSY | EINVAL | EOTHER int

lemma concat_map_one: "(\<And>x. x \<in> set xs \<Longrightarrow> f x = [g x]) \<Longrightarrow> concat (map f xs) = map g xs"
  by (induction xs) simp_all

section \<open>Constants of praid.h\<close>

definition KERNEL_SECTOR_SIZE :: nat where [praid_const]: "KERNEL_SECTOR_SIZE = 512"
definition HARDSECT_SIZE :: nat where [praid_const]: "HARDSECT_SIZE = 512"
definition KERNEL_SECTOR_SHIFT :: nat where [praid_const]: "KERNEL_SECTOR_SHIFT = 9"
definition CHUNK_SHIFT :: nat where [praid_const]: "CHUNK_SHIFT = 12"
definition CHUNK_SIZE :: nat where [praid_const]: "CHUNK_SIZE = 2 ^ CHUNK_SHIFT"
definition SECTORS_IN_CHUNK :: u64 where [praid_const]: "SECTORS_IN_CHUNK = 8"
definition SECTORS_IN_CHUNK_SHIFT :: nat where [praid_const]: "SECTORS_IN_CHUNK_SHIFT = 3"

definition MB :: "u64 \<Rightarrow> u64" where [praid_const]: "MB m = push_bit 20 m"

definition BAR_CHUNK_OFFSET :: u64 where [praid_const]: "BAR_CHUNK_OFFSET = MB 1"

text \<open>The page size of the architecture (a kernel constant).\<close>

definition PAGE_SIZE :: nat where [praid_const]: "PAGE_SIZE = 4096"

section \<open>Word arithmetic on the natural numbers\<close>

lemma unat_drop_bit_div [praid_word]: "unat (drop_bit n w) = unat w div 2 ^ n"
  unfolding unat_drop_bit_eq by (rule drop_bit_eq_div)

lemma unat_push_bit_mod [praid_word]:
  "unat (push_bit n (w :: 'a::len word)) = (unat w * 2 ^ n) mod 2 ^ LENGTH('a)"
  unfolding unsigned_push_bit_eq by (simp add: push_bit_eq_mult take_bit_eq_mod)

lemma unat_push_bit_small:
  "unat (w :: 'a::len word) * 2 ^ n < 2 ^ LENGTH('a) \<Longrightarrow> unat (push_bit n w) = unat w * 2 ^ n"
  by (simp add: unat_push_bit_mod)

lemma unat_and_mask [praid_word]: "unat (w AND mask n) = unat w mod 2 ^ n"
  unfolding take_bit_eq_mask [symmetric] unsigned_take_bit_eq by (rule take_bit_eq_mod)

lemma unat_ucast_up:
  assumes "LENGTH('a::len) \<le> LENGTH('b::len)"
  shows "unat (ucast (w :: 'a word) :: 'b word) = unat w"
proof -
  have "unat w < 2 ^ LENGTH('a)" by (rule unsigned_less)
  also have "(2 :: nat) ^ LENGTH('a) \<le> 2 ^ LENGTH('b)"
    using assms by (rule power_increasing) simp
  finally have "unat w < 2 ^ LENGTH('b)" .
  then show ?thesis
    by (simp only: unsigned_ucast_eq take_bit_eq_mod mod_less)
qed

lemma unat_ucast_32_64 [praid_word, simp]: "unat (ucast (w :: u32) :: u64) = unat w"
  by (rule unat_ucast_up) simp

lemma unat_ucast_64_32_small:
  "unat (w :: u64) < 2 ^ 32 \<Longrightarrow> unat (ucast w :: u32) = unat w"
  by (simp only: unsigned_ucast_eq take_bit_eq_mod mod_less len_num0 len_bit0 len_num1)
     (simp add: take_bit_eq_mod)

lemma unat_less: "unat (w :: 'a::len word) < 2 ^ LENGTH('a)"
  by (rule unsigned_less)

lemma unat_add_small:
  "unat (a :: 'a::len word) + unat b < 2 ^ LENGTH('a) \<Longrightarrow> unat (a + b) = unat a + unat b"
  by (simp add: unat_word_ariths)

lemma unat_inc:
  "unat (a :: 'a::len word) + 1 < 2 ^ LENGTH('a) \<Longrightarrow> unat (a + 1) = unat a + 1"
  using unat_add_small [of a 1] by simp

lemma ucast_32_64_eq_0 [simp]: "(ucast (w :: u32) :: u64) = 0 \<longleftrightarrow> w = 0"
  by (metis unat_ucast_32_64 unat_eq_zero)

section \<open>Exclusive or\<close>

lemma xor_cancel_left [simp]: "(x :: 'a::len word) XOR (x XOR y) = y"
  by (simp add: xor.assoc [symmetric])

lemma xor_cancel_right [simp]: "((x :: 'a::len word) XOR y) XOR y = x"
  by (simp add: xor.assoc)

lemma xor_cancel_mid: "(a :: 'a::len word) XOR b XOR c XOR b = a XOR c"
  by (simp add: xor.commute xor.left_commute)

lemma xor_eq_iff: "(x :: 'a::len word) XOR y = z \<longleftrightarrow> x = z XOR y"
  by (auto simp: xor.assoc)

text \<open>The exclusive or of a family of bytes below a bound, and of the images of a list.\<close>

fun xor_upto :: "nat \<Rightarrow> (nat \<Rightarrow> u8) \<Rightarrow> u8" where
  "xor_upto 0 f = 0"
| "xor_upto (Suc n) f = xor_upto n f XOR f n"

fun xor_list :: "('a \<Rightarrow> u8) \<Rightarrow> 'a list \<Rightarrow> u8" where
  "xor_list f [] = 0"
| "xor_list f (x # xs) = f x XOR xor_list f xs"

lemma xor_upto_cong: "(\<And>i. i < n \<Longrightarrow> f i = g i) \<Longrightarrow> xor_upto n f = xor_upto n g"
  by (induction n) auto

lemma xor_upto_zero: "(\<And>i. i < n \<Longrightarrow> f i = 0) \<Longrightarrow> xor_upto n f = 0"
  by (induction n) auto

lemma xor_upto_update:
  "d < n \<Longrightarrow> xor_upto n (f(d := v)) = xor_upto n f XOR (f d XOR v)"
proof (induction n)
  case 0
  then show ?case by simp
next
  case (Suc n)
  show ?case
  proof (cases "d = n")
    case True
    have "xor_upto n (f(d := v)) = xor_upto n f"
      by (rule xor_upto_cong) (simp add: True)
    then show ?thesis by (simp add: True xor.assoc del: fun_upd_apply) simp
  next
    case False
    with Suc show ?thesis by (simp add: xor.assoc xor.commute xor.left_commute)
  qed
qed

lemma xor_list_append [simp]: "xor_list f (xs @ ys) = xor_list f xs XOR xor_list f ys"
  by (induction xs) (simp_all add: xor.assoc)

lemma xor_list_cong: "(\<And>x. x \<in> set xs \<Longrightarrow> f x = g x) \<Longrightarrow> xor_list f xs = xor_list g xs"
  by (induction xs) auto

lemma xor_list_zero: "(\<And>x. x \<in> set xs \<Longrightarrow> f x = 0) \<Longrightarrow> xor_list f xs = 0"
  by (induction xs) auto

lemma xor_list_map [simp]: "xor_list f (map g xs) = xor_list (\<lambda>x. f (g x)) xs"
  by (induction xs) auto

end
