(* ===== verification/Praid_Layout.thy ===== *)
theory Praid_Layout
  imports Praid_Prelude
begin

text \<open>
  The stripe arithmetic of \<open>block.h\<close>: which data disk a sector of the array lives on and
  which sector of that disk it is. The macros work on \<open>sector_t\<close>, so the definitions are
  on 64-bit words; the disk count is an \<open>unsigned int\<close> that C converts to 64 bits.
\<close>

section \<open>The macros\<close>

definition SECTOR_TO_BYTE :: "u64 \<Rightarrow> u64" where
  "SECTOR_TO_BYTE sec = push_bit KERNEL_SECTOR_SHIFT sec"

definition chunk_num :: "sector \<Rightarrow> u64" where
  "chunk_num sector_num = drop_bit SECTORS_IN_CHUNK_SHIFT sector_num"

definition stripe_num :: "sector \<Rightarrow> u32 \<Rightarrow> u64" where
  "stripe_num sector_num cnt_dev = chunk_num sector_num div ucast cnt_dev"

definition device_num :: "u64 \<Rightarrow> u32 \<Rightarrow> u64" where
  "device_num chunk cnt_dev = chunk mod ucast cnt_dev"

definition chunk_sta_sector :: "sector \<Rightarrow> sector" where
  "chunk_sta_sector sector_num = push_bit SECTORS_IN_CHUNK_SHIFT (chunk_num sector_num)"

definition chunk_end_sector :: "sector \<Rightarrow> sector" where
  "chunk_end_sector sector_num = chunk_sta_sector sector_num + SECTORS_IN_CHUNK - 1"

definition sector_whole_to_i :: "sector \<Rightarrow> u32 \<Rightarrow> sector" where
  "sector_whole_to_i sector_sta cnt_dev =
     (sector_sta AND 0x7) + push_bit SECTORS_IN_CHUNK_SHIFT (chunk_num sector_sta div ucast cnt_dev)"

definition i_chunk_sta_sector :: "sector \<Rightarrow> u32 \<Rightarrow> sector" where
  "i_chunk_sta_sector sector_num cnt_dev = sector_whole_to_i (chunk_sta_sector sector_num) cnt_dev"

definition i_chunk_end_sector :: "sector \<Rightarrow> u32 \<Rightarrow> sector" where
  "i_chunk_end_sector sector_num cnt_dev = sector_whole_to_i (chunk_end_sector sector_num) cnt_dev"

section \<open>Their values on the natural numbers\<close>

lemma unat_chunk_num: "unat (chunk_num s) = unat s div 8"
  by (simp add: chunk_num_def praid_const unat_drop_bit_div del: drop_bit_numeral_minus_bit1)

lemma unat_sector_lt: "unat (s :: sector) < 2 ^ 64"
  using unsigned_less [of s] by simp

lemma unat_and_7: "unat ((s :: sector) AND 7) = unat s mod 8"
  using unat_and_mask [of s 3] by (simp add: mask_numeral)

lemma unat_device_num: "unat (device_num c n) = unat c mod unat n"
  by (simp add: device_num_def unat_mod)

lemma unat_stripe_num: "unat (stripe_num s n) = unat s div 8 div unat n"
  by (simp add: stripe_num_def unat_div unat_chunk_num)

lemma unat_chunk_sta_sector: "unat (chunk_sta_sector s) = unat s div 8 * 8"
proof -
  have "unat s div 8 * 8 \<le> unat s" by simp
  with unat_sector_lt [of s] have "unat (chunk_num s) * 2 ^ 3 < 2 ^ LENGTH(64)"
    by (simp add: unat_chunk_num)
  then show ?thesis
    by (simp only: chunk_sta_sector_def SECTORS_IN_CHUNK_SHIFT_def unat_push_bit_small)
       (simp add: unat_chunk_num)
qed

lemma unat_chunk_end_sector: "unat (chunk_end_sector s) = unat s div 8 * 8 + 7"
proof -
  have eq: "chunk_end_sector s = chunk_sta_sector s + 7"
    by (simp add: chunk_end_sector_def SECTORS_IN_CHUNK_def)
  have "unat s div 8 < 2 ^ 61"
    using unat_sector_lt [of s] by (simp add: less_mult_imp_div_less)
  then have "unat s div 8 * 8 + 7 < 2 ^ 64" by simp
  then have "unat (chunk_sta_sector s) + unat (7 :: sector) < 2 ^ LENGTH(64)"
    by (simp add: unat_chunk_sta_sector)
  from unat_add_small [OF this] show ?thesis
    by (simp add: eq unat_chunk_sta_sector)
qed

lemma unat_sector_whole_to_i:
  "unat (sector_whole_to_i s n) = unat s mod 8 + 8 * (unat s div 8 div unat n)"
proof -
  let ?q = "chunk_num s div ucast n"
  have q: "unat ?q = unat s div 8 div unat n"
    by (simp add: unat_div unat_chunk_num)
  have "unat s div 8 div unat n \<le> unat s div 8" by (rule div_le_dividend)
  then have le: "unat s mod 8 + 8 * (unat s div 8 div unat n) \<le> unat s"
    using mod_div_mult_eq [of "unat s" 8] by linarith
  with unat_sector_lt [of s] have small: "unat ?q * 2 ^ 3 < 2 ^ LENGTH(64)"
    by (simp add: q)
  have p: "unat (push_bit SECTORS_IN_CHUNK_SHIFT ?q) = 8 * (unat s div 8 div unat n)"
    by (simp only: SECTORS_IN_CHUNK_SHIFT_def unat_push_bit_small [OF small] q) simp
  have "unat (s AND 7) + unat (push_bit SECTORS_IN_CHUNK_SHIFT ?q) < 2 ^ LENGTH(64)"
    using le unat_sector_lt [of s] by (simp only: p unat_and_7) simp
  from unat_add_small [OF this] show ?thesis
    by (simp only: sector_whole_to_i_def p unat_and_7)
qed

lemmas unat_layout =
  unat_chunk_num unat_device_num unat_stripe_num unat_chunk_sta_sector
  unat_chunk_end_sector unat_sector_whole_to_i

section \<open>The abstract layout\<close>

text \<open>
  The inverse of the layout, over the naturals: sector \<open>i\<close> of disk \<open>d\<close> in an array of
  \<open>n\<close> data disks is this sector of the whole array.
\<close>

definition whole_sector :: "nat \<Rightarrow> nat \<Rightarrow> nat \<Rightarrow> nat" where
  "whole_sector n d i = (i div 8 * n + d) * 8 + i mod 8"

lemma whole_sector_split:
  "whole_sector n (s div 8 mod n) (s mod 8 + 8 * (s div 8 div n)) = s"
proof -
  have "(s mod 8 + 8 * (s div 8 div n)) div 8 = s div 8 div n"
    and "(s mod 8 + 8 * (s div 8 div n)) mod 8 = s mod 8"
    by simp_all
  moreover have "s div 8 div n * n + s div 8 mod n = s div 8" by simp
  ultimately show ?thesis by (simp only: whole_sector_def) simp
qed

lemma row_of: "(x * 8 + i mod 8) div 8 = x" and col_of: "(x * 8 + i mod 8) mod 8 = i mod 8"
  for x i :: nat
  by simp_all

lemma whole_sector_dev: "d < n \<Longrightarrow> whole_sector n d i div 8 mod n = d"
  unfolding whole_sector_def row_of by simp

lemma whole_sector_isec:
  "d < n \<Longrightarrow> whole_sector n d i mod 8 + 8 * (whole_sector n d i div 8 div n) = i"
proof -
  assume d: "d < n"
  have "whole_sector n d i div 8 = i div 8 * n + d" and "whole_sector n d i mod 8 = i mod 8"
    unfolding whole_sector_def row_of col_of by (rule refl)+
  moreover have "(i div 8 * n + d) div n = i div 8" using d by simp
  ultimately show ?thesis by simp
qed

text \<open>
  A layout of the array, as the block layer uses it: a disk index in range, a disk sector,
  no two array sectors on the same place, and the sectors of one chunk side by side.
\<close>

locale stripe_layout =
  fixes dev :: "sector \<Rightarrow> u32 \<Rightarrow> u64"
    and isec :: "sector \<Rightarrow> u32 \<Rightarrow> sector"
    and chunk_last :: "sector \<Rightarrow> sector"
  assumes dev_less: "n \<noteq> 0 \<Longrightarrow> unat (dev s n) < unat n"
    and place_inj: "dev s n = dev t n \<Longrightarrow> isec s n = isec t n \<Longrightarrow> s = t"
    and last_ge: "unat s \<le> unat (chunk_last s)"
    and same_chunk: "unat s + k \<le> unat (chunk_last s) \<Longrightarrow>
      dev (s + word_of_nat k) n = dev s n \<and>
      unat (isec (s + word_of_nat k) n) = unat (isec s n) + k"
begin

text \<open>Two sectors of the array share a place only if they are the same sector.\<close>

lemma place_eq_iff: "dev s n = dev t n \<and> isec s n = isec t n \<longleftrightarrow> s = t"
  using place_inj by blast

text \<open>A store through the layout is read back through it, and changes nothing else.\<close>

lemma store_lookup:
  "(A ((dev s n, isec s n) := v)) (dev t n, isec t n) =
     (if s = t then v else A (dev t n, isec t n))"
  using place_inj by auto

text \<open>The last sector reached inside the chunk is still on the disk sector counted from the start.\<close>

lemma run_in_chunk:
  "unat s + k \<le> unat (chunk_last s) \<Longrightarrow>
     isec (s + word_of_nat k) n = isec s n + word_of_nat k"
proof -
  assume "unat s + k \<le> unat (chunk_last s)"
  then have "unat (isec (s + word_of_nat k) n) = unat (isec s n) + k"
    using same_chunk by blast
  then have "(word_of_nat (unat (isec (s + word_of_nat k) n)) :: sector) =
      word_of_nat (unat (isec s n) + k)" by simp
  then show ?thesis by simp
qed

end

section \<open>The macros are a layout\<close>

lemma sector_word_eqI: "unat s = unat t \<Longrightarrow> s = t" for s t :: sector
  by (rule word_unat_eq_iff [THEN iffD2])

lemma layout_inj:
  "device_num (chunk_num s) n = device_num (chunk_num t) n \<Longrightarrow>
     sector_whole_to_i s n = sector_whole_to_i t n \<Longrightarrow> s = t"
proof -
  assume "device_num (chunk_num s) n = device_num (chunk_num t) n"
    and "sector_whole_to_i s n = sector_whole_to_i t n"
  then have "unat s div 8 mod unat n = unat t div 8 mod unat n"
    and "unat s mod 8 + 8 * (unat s div 8 div unat n) = unat t mod 8 + 8 * (unat t div 8 div unat n)"
    by (metis unat_device_num unat_chunk_num, metis unat_sector_whole_to_i)
  then have "unat s = unat t" by (metis whole_sector_split)
  then show ?thesis by (rule sector_word_eqI)
qed

lemma unat_plus_in_chunk:
  assumes "unat s + k \<le> unat s div 8 * 8 + 7"
  shows "unat (s + word_of_nat k :: sector) = unat s + k"
    and "(unat s + k) div 8 = unat s div 8"
    and "(unat s + k) mod 8 = unat s mod 8 + k"
proof -
  have "unat s div 8 < 2 ^ 61"
    using unat_sector_lt [of s] by (simp add: less_mult_imp_div_less)
  with assms have small: "unat s + k < 2 ^ 64" by simp
  then have "unat (word_of_nat k :: sector) = k" by (simp add: unat_of_nat)
  with small show "unat (s + word_of_nat k) = unat s + k"
    using unat_add_small [of s "word_of_nat k"] by simp
  show d: "(unat s + k) div 8 = unat s div 8" using assms by arith
  show "(unat s + k) mod 8 = unat s mod 8 + k"
    using d mod_div_mult_eq [of "unat s + k" 8] mod_div_mult_eq [of "unat s" 8] by linarith
qed

interpretation raid4: stripe_layout
  "\<lambda>s n. device_num (chunk_num s) n" sector_whole_to_i chunk_end_sector
proof
  show "n \<noteq> 0 \<Longrightarrow> unat (device_num (chunk_num s) n) < unat n" for n s
    by (simp add: unat_device_num unat_gt_0)
  show "device_num (chunk_num s) n = device_num (chunk_num t) n \<Longrightarrow>
      sector_whole_to_i s n = sector_whole_to_i t n \<Longrightarrow> s = t" for s t n
    by (rule layout_inj)
  show "unat s \<le> unat (chunk_end_sector s)" for s
    unfolding unat_chunk_end_sector by arith
  show "device_num (chunk_num (s + word_of_nat k)) n = device_num (chunk_num s) n \<and>
      unat (sector_whole_to_i (s + word_of_nat k) n) = unat (sector_whole_to_i s n) + k"
    if le: "unat s + k \<le> unat (chunk_end_sector s)" for s k n
  proof -
    note arith = unat_plus_in_chunk [OF le [unfolded unat_chunk_end_sector]]
    have "chunk_num (s + word_of_nat k) = chunk_num s"
      by (rule sector_word_eqI) (simp only: unat_chunk_num arith)
    moreover have "unat (sector_whole_to_i (s + word_of_nat k) n) = unat (sector_whole_to_i s n) + k"
      by (simp only: unat_sector_whole_to_i arith)
    ultimately show ?thesis by simp
  qed
qed

section \<open>Properties\<close>

text \<open>
  C4: With at least one data disk, the disk index the block layer computes for a sector is a
  disk of the array, and disk and disk sector together determine the sector: the abstract
  inverse of the layout gives it back.
\<close>

theorem layout_roundtrip:
  assumes "n \<noteq> 0"
  shows "unat (device_num (chunk_num s) n) < unat n \<and>
    whole_sector (unat n) (unat (device_num (chunk_num s) n)) (unat (sector_whole_to_i s n)) =
      unat s"
  using raid4.dev_less [OF assms, of s]
  by (simp_all add: unat_device_num unat_chunk_num unat_sector_whole_to_i whole_sector_split)

theorem layout_roundtrip_witness:
  "unat (device_num (chunk_num 1000) 3) < unat (3 :: u32) \<and>
   whole_sector (unat (3 :: u32)) (unat (device_num (chunk_num 1000) 3))
     (unat (sector_whole_to_i 1000 3)) = 1000"
  using layout_roundtrip [of 3 1000] by simp

text \<open>
  Every sector of every data disk is used: sector \<open>i\<close> of disk \<open>d\<close> is the place of the
  array sector the abstract inverse names, provided that number fits \<open>sector_t\<close>.
\<close>

theorem layout_onto:
  assumes "d < unat n" and "whole_sector (unat n) d i < 2 ^ 64"
  shows "unat (device_num (chunk_num (word_of_nat (whole_sector (unat n) d i))) n) = d \<and>
    unat (sector_whole_to_i (word_of_nat (whole_sector (unat n) d i)) n) = i"
proof -
  have w: "unat (word_of_nat (whole_sector (unat n) d i) :: sector) = whole_sector (unat n) d i"
    using assms(2) by (simp add: unat_of_nat)
  show ?thesis
    unfolding unat_device_num unat_chunk_num unat_sector_whole_to_i w
    using assms(1) by (simp add: whole_sector_dev whole_sector_isec)
qed

theorem layout_onto_witness:
  "unat (device_num (chunk_num (word_of_nat (whole_sector 3 2 77))) 3) = 2 \<and>
   unat (sector_whole_to_i (word_of_nat (whole_sector 3 2 77)) 3) = 77"
  using layout_onto [of 2 3 77] by (simp add: whole_sector_def)

lemma row_eq_iff: "a mod 8 + 8 * x = b mod 8 + 8 * y \<longleftrightarrow> x = y \<and> a mod 8 = b mod 8"
  for a b x y :: nat
proof
  assume eq: "a mod 8 + 8 * x = b mod 8 + 8 * y"
  then have "(a mod 8 + 8 * x) mod 8 = (b mod 8 + 8 * y) mod 8" by (rule arg_cong)
  then have "a mod 8 = b mod 8" by simp
  with eq show "x = y \<and> a mod 8 = b mod 8" by simp
qed simp

text \<open>
  Two sectors of the array lie on the same sector of their disks exactly when they are in
  the same stripe and at the same place in their chunks, so the parity of disk sector \<open>i\<close>
  covers one sector of every chunk of one stripe.
\<close>

theorem same_disk_sector_iff_same_stripe:
  "sector_whole_to_i s n = sector_whole_to_i t n \<longleftrightarrow>
     stripe_num s n = stripe_num t n \<and> s AND 7 = t AND 7"
proof -
  have "sector_whole_to_i s n = sector_whole_to_i t n \<longleftrightarrow>
      unat s mod 8 + 8 * (unat s div 8 div unat n) = unat t mod 8 + 8 * (unat t div 8 div unat n)"
    by (simp add: word_unat_eq_iff unat_sector_whole_to_i)
  also have "\<dots> \<longleftrightarrow> unat s div 8 div unat n = unat t div 8 div unat n \<and> unat s mod 8 = unat t mod 8"
    by (rule row_eq_iff)
  finally show ?thesis
    by (simp add: word_unat_eq_iff unat_stripe_num unat_and_7)
qed

lemma row_less: "8 dvd S \<Longrightarrow> s < n * S \<Longrightarrow> s mod 8 + 8 * (s div 8 div n) < S" for S s n :: nat
proof -
  assume "8 dvd S" and s: "s < n * S"
  then obtain k where k: "S = 8 * k" by blast
  from s have "s div 8 < k * n" by (simp add: k less_mult_imp_div_less mult.commute mult.left_commute)
  then have "s div 8 div n < k" by (rule less_mult_imp_div_less)
  then have "8 * (s div 8 div n) + 8 \<le> 8 * k" by simp
  moreover have "s mod 8 < 8" by simp
  ultimately show ?thesis unfolding k by linarith
qed

lemma row_overrun:
  assumes "2 \<le> n" and "\<not> 8 dvd (S :: nat)"
  shows "\<exists>s < n * S. S \<le> s mod 8 + 8 * (s div 8 div n)"
proof -
  let ?k = "S div 8" and ?r = "S mod 8"
  define m where "m = n * ?r"
  define j where "j = min 7 (m - 1)"
  have r: "1 \<le> ?r" "?r \<le> 7" using assms(2) by (auto simp: dvd_eq_mod_eq_0)
  have "2 * ?r \<le> m" unfolding m_def using assms(1) by (rule mult_le_mono1)
  then have j: "?r \<le> j" "j \<le> 7" "j < m" using r by (auto simp: j_def)
  let ?s = "n * ?k * 8 + j"
  have S: "S = ?k * 8 + ?r" by simp
  have "n * S = n * ?k * 8 + m"
    by (subst S) (simp only: distrib_left mult.assoc m_def)
  then have "?s < n * S" using j(3) by linarith
  moreover have "?s mod 8 = j" "?s div 8 = n * ?k" using j(2) by simp_all
  moreover have "n * ?k div n = ?k" using assms(1) by simp
  moreover have "S \<le> j + 8 * ?k" using j(1) S by linarith
  ultimately show ?thesis by metis
qed

text \<open>
  C31: Every sector below the capacity \<open>n * S\<close> of the array falls inside its data disk of
  \<open>S\<close> sectors if and only if \<open>S\<close> is a multiple of the chunk's eight sectors (for arrays of
  two disks or more). A disk size that is not a multiple of 4 KiB therefore sends requests
  inside the advertised capacity past the end of a disk.
\<close>

theorem disk_bound_iff:
  assumes "2 \<le> unat n" and "unat n * S \<le> 2 ^ 64"
  shows "(\<forall>s. unat s < unat n * S \<longrightarrow> unat (sector_whole_to_i s n) < S) \<longleftrightarrow> 8 dvd S"
proof
  assume "8 dvd S"
  then show "\<forall>s. unat s < unat n * S \<longrightarrow> unat (sector_whole_to_i s n) < S"
    by (simp add: unat_sector_whole_to_i row_less)
next
  assume inside: "\<forall>s. unat s < unat n * S \<longrightarrow> unat (sector_whole_to_i s n) < S"
  show "8 dvd S"
  proof (rule ccontr)
    assume "\<not> 8 dvd S"
    with assms(1) obtain s where s: "s < unat n * S" "S \<le> s mod 8 + 8 * (s div 8 div unat n)"
      using row_overrun by blast
    then have "unat (word_of_nat s :: sector) = s"
      using assms(2) by (simp add: unat_of_nat)
    with inside s show False
      by (metis unat_sector_whole_to_i linorder_not_less)
  qed
qed

theorem disk_bound_iff_witness:
  "\<not> (\<forall>s. unat s < unat (3 :: u32) * 1048577 \<longrightarrow> unat (sector_whole_to_i s 3) < 1048577)"
  using disk_bound_iff [of 3 1048577] by simp

end
