(* ===== verification/Praid_Kernel.thy ===== *)
theory Praid_Kernel
  imports Praid_Prelude
begin

text \<open>
  The part of the Linux kernel the module talks to. The data the module reads and writes
  (bios, segments, iterators, pages) are records with the fields the source uses. The kernel
  functions are not part of the repository: they are the fields of the record \<open>kernel\<close>,
  a parameter of every definition that calls them, and what the module relies on is stated
  as laws of the locales below, after the kernel's documentation (biovecs.rst, the comments
  of bio.c and mm/page_alloc.c). \<open>reference_kernel\<close> is a concrete instance of all of them.
\<close>

section \<open>Bios\<close>

record bio_vec =
  bv_page :: nat
  bv_len :: u32
  bv_offset :: u32

record bvec_iter =
  bi_sector :: sector
  bi_size :: u32
  bi_idx :: u32
  bi_bvec_done :: u32

datatype req_op = REQ_OP_READ | REQ_OP_WRITE

text \<open>Completion callbacks: none, the submitter's, the kernel's chain callback, the driver's.\<close>

datatype end_io = EndNull | EndCaller nat | EndChain | EndReadBio

text \<open>
  A bio, with the type of what its private pointer refers to as a parameter: for a bio of
  the upper layers that is an opaque address, for the read bio of the driver it is the
  write bio to submit afterwards. Block devices and bios are named by their addresses.
\<close>

record 'p bio =
  bi_addr :: nat
  bi_bdev :: nat
  bi_opf :: req_op
  bi_iter :: bvec_iter
  bi_vcnt :: u16
  bi_max_vecs :: u16
  bi_io_vec :: "bio_vec list"
  bi_private :: "'p option"
  bi_end_io :: end_io

type_synonym host_bio = "nat bio"
type_synonym verify_bio = "host_bio bio"

section \<open>Pages\<close>

text \<open>The allocated pages: an association list from page addresses to their bytes.\<close>

type_synonym heap = "(nat \<times> bytes) list"

definition heap_free :: "nat \<Rightarrow> heap \<Rightarrow> heap" where
  "heap_free p h = filter (\<lambda>(q, _). q \<noteq> p) h"

definition heap_write :: "nat \<Rightarrow> bytes \<Rightarrow> heap \<Rightarrow> heap" where
  "heap_write p c h = map (\<lambda>(q, d). (q, if q = p then c else d)) h"

lemma map_of_heap_free: "map_of (heap_free p h) = (map_of h)(p := None)"
  by (induction h) (auto simp: heap_free_def fun_eq_iff)

lemma map_of_heap_write:
  "map_of (heap_write p c h) = (map_of h)(p := (case map_of h p of None \<Rightarrow> None | Some _ \<Rightarrow> Some c))"
  by (induction h) (auto simp: heap_write_def fun_eq_iff split: option.splits)

lemma map_of_heap_write_Some: "map_of h p = Some d \<Longrightarrow> map_of (heap_write p c h) = (map_of h)(p \<mapsto> c)"
  by (simp add: map_of_heap_write)

text \<open>\<open>memcpy\<close> of \<open>n\<close> bytes.\<close>

definition copy_bytes :: "bytes \<Rightarrow> nat \<Rightarrow> bytes \<Rightarrow> nat \<Rightarrow> nat \<Rightarrow> bytes" where
  "copy_bytes dst dof src sof n =
     (\<lambda>a. if dof \<le> a \<and> a < dof + n then src (sof + (a - dof)) else dst a)"

lemma copy_bytes_in: "k < n \<Longrightarrow> copy_bytes dst dof src sof n (dof + k) = src (sof + k)"
  by (simp add: copy_bytes_def)

lemma copy_bytes_out: "a < dof \<or> dof + n \<le> a \<Longrightarrow> copy_bytes dst dof src sof n a = dst a"
  by (auto simp: copy_bytes_def)

lemma copy_bytes_same: "copy_bytes dst f src f n a = (if f \<le> a \<and> a < f + n then src a else dst a)"
  by (simp add: copy_bytes_def)

section \<open>The kernel functions\<close>

text \<open>
  Functions whose answer can change from one call to the next take the number of kernel
  calls made so far as their first argument.
  \<^item> \<open>k_bio_alloc n\<close>: \<open>bio_alloc(GFP_KERNEL, n)\<close>, \<open>None\<close> for a null pointer;
  \<^item> \<open>k_bio_add_page b p len off\<close>: the number of bytes added and the bio afterwards;
  \<^item> \<open>k_iovec\<close>, \<open>k_advance\<close>: \<open>bio_iter_iovec\<close> and \<open>bio_advance_iter_single\<close>;
  \<^item> \<open>k_end_sector\<close>: \<open>bio_end_sector\<close>;
  \<^item> \<open>k_split b n\<close>: \<open>bio_split\<close>, the new bio of the first \<open>n\<close> sectors and what is left of \<open>b\<close>;
  \<^item> \<open>k_alloc_page\<close>: a page and its initial bytes, or nothing;
  \<^item> \<open>k_kmalloc\<close>, \<open>k_kmap\<close>, \<open>k_queue_work\<close>: whether the call succeeds;
  \<^item> \<open>k_interrupted\<close>: whether \<open>down_interruptible\<close> is broken off by a signal.
\<close>

record kernel =
  k_bio_alloc :: "u16 \<Rightarrow> verify_bio option"
  k_bio_add_page :: "verify_bio \<Rightarrow> nat \<Rightarrow> u32 \<Rightarrow> u32 \<Rightarrow> u32 \<times> verify_bio"
  k_iovec :: "bio_vec list \<Rightarrow> bvec_iter \<Rightarrow> bio_vec"
  k_advance :: "bio_vec list \<Rightarrow> bvec_iter \<Rightarrow> u32 \<Rightarrow> bvec_iter"
  k_end_sector :: "bvec_iter \<Rightarrow> sector"
  k_split :: "host_bio \<Rightarrow> sector \<Rightarrow> (host_bio \<times> host_bio) option"
  k_alloc_page :: "nat \<Rightarrow> heap \<Rightarrow> (nat \<times> bytes) option"
  k_kmalloc :: "nat \<Rightarrow> bool"
  k_kmap :: "nat \<Rightarrow> nat \<Rightarrow> bool"
  k_queue_work :: "nat \<Rightarrow> bool"
  k_interrupted :: "nat \<Rightarrow> bool"

section \<open>Segments and payload of a bio\<close>

text \<open>
  The segment at an iterator, and the iterator moved on inside or to the end of that
  segment, for segments that lie in one page.
\<close>

definition seg_at :: "bio_vec list \<Rightarrow> bvec_iter \<Rightarrow> bio_vec" where
  "seg_at v it = (let b = v ! unat (bi_idx it) in
     \<lparr>bv_page = bv_page b, bv_len = min (bi_size it) (bv_len b - bi_bvec_done it),
      bv_offset = bv_offset b + bi_bvec_done it\<rparr>)"

definition iter_step :: "bio_vec list \<Rightarrow> bvec_iter \<Rightarrow> u32 \<Rightarrow> bvec_iter" where
  "iter_step v it n =
     (let full = (bi_bvec_done it + n = bv_len (v ! unat (bi_idx it))) in
      \<lparr>bi_sector = bi_sector it + ucast (drop_bit 9 n),
       bi_size = bi_size it - n,
       bi_idx = (if full then bi_idx it + 1 else bi_idx it),
       bi_bvec_done = (if full then 0 else bi_bvec_done it + n)\<rparr>)"

definition in_page :: "bio_vec \<Rightarrow> bool" where
  "in_page b \<longleftrightarrow> unat (bv_offset b) + unat (bv_len b) \<le> PAGE_SIZE \<and> bv_len b \<noteq> 0"

text \<open>An iterator that still points into the vector (or has nothing left).\<close>

definition iter_ok :: "bio_vec list \<Rightarrow> bvec_iter \<Rightarrow> bool" where
  "iter_ok v it \<longleftrightarrow> bi_size it = 0 \<or>
     (unat (bi_idx it) < length v \<and> bi_bvec_done it < bv_len (v ! unat (bi_idx it)))"

definition vec_ok :: "bio_vec list \<Rightarrow> bool" where
  "vec_ok v \<longleftrightarrow> length v < 2 ^ 16 \<and> (\<forall>b \<in> set v. in_page b)"

definition vec_bytes :: "bio_vec list \<Rightarrow> nat" where
  "vec_bytes v = sum_list (map (\<lambda>b. unat (bv_len b)) v)"

text \<open>A bio over the whole of its vector, as a submitter builds it.\<close>

definition whole_bio :: "('p, 'm) bio_scheme \<Rightarrow> bool" where
  "whole_bio b \<longleftrightarrow> vec_ok (bi_io_vec b) \<and> bi_idx (bi_iter b) = 0 \<and> bi_bvec_done (bi_iter b) = 0 \<and>
     unat (bi_size (bi_iter b)) = vec_bytes (bi_io_vec b) \<and>
     unat (bi_vcnt b) = length (bi_io_vec b)"

text \<open>The bytes a bio transfers, in order, each named by its page and its offset there.\<close>

definition seg_cells :: "bio_vec \<Rightarrow> (nat \<times> nat) list" where
  "seg_cells b = map (\<lambda>i. (bv_page b, unat (bv_offset b) + i)) [0..<unat (bv_len b)]"

definition vec_cells :: "bio_vec list \<Rightarrow> (nat \<times> nat) list" where
  "vec_cells v = concat (map seg_cells v)"

definition iter_pos :: "bio_vec list \<Rightarrow> bvec_iter \<Rightarrow> nat" where
  "iter_pos v it = vec_bytes (take (unat (bi_idx it)) v) + unat (bi_bvec_done it)"

definition bio_cells :: "('p, 'm) bio_scheme \<Rightarrow> (nat \<times> nat) list" where
  "bio_cells b = take (unat (bi_size (bi_iter b)))
     (drop (iter_pos (bi_io_vec b) (bi_iter b)) (vec_cells (bi_io_vec b)))"

lemma length_vec_cells: "length (vec_cells v) = vec_bytes v"
  by (induction v) (simp_all add: vec_cells_def vec_bytes_def seg_cells_def)

lemma whole_bio_cells: "whole_bio b \<Longrightarrow> bio_cells b = vec_cells (bi_io_vec b)"
  by (simp add: whole_bio_def bio_cells_def iter_pos_def vec_bytes_def length_vec_cells [unfolded vec_bytes_def])

text \<open>A bio whose iterator is inside its vector and which does not run past it.\<close>

definition bio_ok :: "('p, 'm) bio_scheme \<Rightarrow> bool" where
  "bio_ok b \<longleftrightarrow> vec_ok (bi_io_vec b) \<and> iter_ok (bi_io_vec b) (bi_iter b) \<and>
     iter_pos (bi_io_vec b) (bi_iter b) + unat (bi_size (bi_iter b)) \<le> vec_bytes (bi_io_vec b)"

definition bio_sectors :: "('p, 'm) bio_scheme \<Rightarrow> nat" where
  "bio_sectors b = unat (bi_size (bi_iter b)) div 512"

lemma vec_bytes_simps [simp]:
  "vec_bytes [] = 0" "vec_bytes (b # v) = unat (bv_len b) + vec_bytes v"
  "vec_bytes (v @ w) = vec_bytes v + vec_bytes w"
  by (simp_all add: vec_bytes_def)

lemma vec_cells_simps [simp]:
  "vec_cells [] = []" "vec_cells (b # v) = seg_cells b @ vec_cells v"
  by (simp_all add: vec_cells_def)

lemma length_seg_cells [simp]: "length (seg_cells b) = unat (bv_len b)"
  by (simp add: seg_cells_def)

lemma vec_bytes_take_drop: "vec_bytes (take n v) + vec_bytes (drop n v) = vec_bytes v"
  by (metis append_take_drop_id vec_bytes_simps(3))

lemma whole_bio_ok: "whole_bio b \<Longrightarrow> bio_ok b"
  by (cases "bi_io_vec b") (auto simp: whole_bio_def bio_ok_def iter_pos_def iter_ok_def vec_ok_def
      in_page_def word_less_nat_alt unat_eq_zero [symmetric])

section \<open>What the module relies on\<close>

text \<open>Iterating over the segments of a bio.\<close>

locale bio_iterator =
  fixes K :: kernel
  assumes iovec_law: "unat (bi_idx it) < length v \<Longrightarrow> in_page (v ! unat (bi_idx it)) \<Longrightarrow>
      bi_bvec_done it < bv_len (v ! unat (bi_idx it)) \<Longrightarrow> k_iovec K v it = seg_at v it"
    and advance_law: "unat (bi_idx it) < length v \<Longrightarrow> in_page (v ! unat (bi_idx it)) \<Longrightarrow>
      bi_bvec_done it < bv_len (v ! unat (bi_idx it)) \<Longrightarrow> n \<le> bv_len (seg_at v it) \<Longrightarrow>
      k_advance K v it n = iter_step v it n"
    and end_sector_law: "k_end_sector K it = bi_sector it + ucast (drop_bit 9 (bi_size it))"

text \<open>A fresh page is none of the allocated ones.\<close>

locale page_allocator =
  fixes K :: kernel
  assumes alloc_fresh: "k_alloc_page K t h = Some (p, c) \<Longrightarrow> p \<notin> fst ` set h"

text \<open>
  A page continues the last vector of a bio if its bytes follow that vector's bytes in
  physical memory: pages are named by their frame numbers.
\<close>

definition mergeable :: "('p, 'm) bio_scheme \<Rightarrow> nat \<Rightarrow> u32 \<Rightarrow> bool" where
  "mergeable b p off \<longleftrightarrow> bi_io_vec b \<noteq> [] \<and> (let l = last (bi_io_vec b) in
     bv_page l * PAGE_SIZE + unat (bv_offset l) + unat (bv_len l) = p * PAGE_SIZE + unat off)"

definition extend_last :: "bio_vec list \<Rightarrow> u32 \<Rightarrow> bio_vec list" where
  "extend_last v n = butlast v @ [(last v)\<lparr>bv_len := bv_len (last v) + n\<rparr>]"

text \<open>
  A new bio is empty and has room for at least the vectors asked for, and for none if none
  were asked for; the allocation itself does not fail, since it comes from a reserve (for
  the sizes the kernel supports). Adding a page makes the last vector longer if the page
  continues it, uses a new vector otherwise, and fails when there is none left; the first
  two as long as the size of the bio still fits its 32 bits.
\<close>

locale bio_builder =
  fixes K :: kernel
  assumes bio_alloc_law: "unat n \<le> 256 \<Longrightarrow> \<exists>b. k_bio_alloc K n = Some b"
    and bio_alloc_empty: "k_bio_alloc K n = Some b \<Longrightarrow> bi_io_vec b = [] \<and> bi_vcnt b = 0 \<and>
      n \<le> bi_max_vecs b \<and> (n = 0 \<longrightarrow> bi_max_vecs b = 0) \<and>
      bi_size (bi_iter b) = 0 \<and> bi_idx (bi_iter b) = 0 \<and> bi_bvec_done (bi_iter b) = 0"
    and add_page_merge: "mergeable b p off \<Longrightarrow> bi_vcnt b \<noteq> 0 \<Longrightarrow>
      unat (bi_size (bi_iter b)) + unat len < 2 ^ 32 \<Longrightarrow> k_bio_add_page K b p len off =
      (len, b\<lparr>bi_io_vec := extend_last (bi_io_vec b) len,
              bi_iter := (bi_iter b)\<lparr>bi_size := bi_size (bi_iter b) + len\<rparr>\<rparr>)"
    and add_page_room: "\<not> mergeable b p off \<Longrightarrow> bi_vcnt b < bi_max_vecs b \<Longrightarrow>
      unat (bi_size (bi_iter b)) + unat len < 2 ^ 32 \<Longrightarrow>
      k_bio_add_page K b p len off =
      (len, b\<lparr>bi_vcnt := bi_vcnt b + 1,
              bi_io_vec := bi_io_vec b @ [\<lparr>bv_page = p, bv_len = len, bv_offset = off\<rparr>],
              bi_iter := (bi_iter b)\<lparr>bi_size := bi_size (bi_iter b) + len\<rparr>\<rparr>)"
    and add_page_full: "\<not> mergeable b p off \<Longrightarrow> \<not> bi_vcnt b < bi_max_vecs b \<Longrightarrow>
      k_bio_add_page K b p len off = (0, b)"

text \<open>
  Two vectors that follow each other meet at a seam if the first ends at the end of its page
  and the second starts at the start of its own: only there can two pages be merged.
\<close>

definition seam :: "bio_vec \<Rightarrow> bio_vec \<Rightarrow> bool" where
  "seam a b \<longleftrightarrow> unat (bv_offset a) + unat (bv_len a) = PAGE_SIZE \<and> bv_offset b = 0"

fun seam_free :: "bio_vec list \<Rightarrow> bool" where
  "seam_free (a # b # v) \<longleftrightarrow> \<not> seam a b \<and> seam_free (b # v)"
| "seam_free v \<longleftrightarrow> True"

lemma seam_free_Cons: "seam_free (a # v) \<longleftrightarrow> (v \<noteq> [] \<longrightarrow> \<not> seam a (hd v)) \<and> seam_free v"
  by (cases v) simp_all

text \<open>A kernel that never hands out the page right after a page in use.\<close>

definition pages_apart :: "kernel \<Rightarrow> bool" where
  "pages_apart K \<longleftrightarrow>
     (\<forall>t h p c q. k_alloc_page K t h = Some (p, c) \<longrightarrow> q \<in> fst ` set h \<longrightarrow> p \<noteq> Suc q)"

lemma not_mergeable:
  assumes "bi_io_vec b = [] \<or> (in_page (last (bi_io_vec b)) \<and> p \<noteq> bv_page (last (bi_io_vec b)) \<and>
      (p \<noteq> Suc (bv_page (last (bi_io_vec b))) \<or>
       \<not> seam (last (bi_io_vec b)) \<lparr>bv_page = p, bv_len = len, bv_offset = off\<rparr>))" and "unat off < PAGE_SIZE"
  shows "\<not> mergeable b p off"
proof
  assume m: "mergeable b p off"
  let ?l = "last (bi_io_vec b)"
  have eq: "bv_page ?l * 4096 + unat (bv_offset ?l) + unat (bv_len ?l) = p * 4096 + unat off"
    using m by (simp add: mergeable_def Let_def PAGE_SIZE_def)
  have "unat (bv_offset ?l) + unat (bv_len ?l) \<le> 4096" "0 < unat (bv_len ?l)"
    "p \<noteq> bv_page ?l"
    "p \<noteq> Suc (bv_page ?l) \<or> unat (bv_offset ?l) + unat (bv_len ?l) \<noteq> 4096 \<or> unat off \<noteq> 0"
    using assms(1) m by (auto simp: mergeable_def in_page_def seam_def PAGE_SIZE_def unat_gt_0 unat_eq_zero)
  moreover have "unat off < 4096" using assms(2) by (simp add: PAGE_SIZE_def)
  ultimately show False using eq by arith
qed

text \<open>
  Splitting: the new bio is the first \<open>n\<close> sectors of the old one, the old one keeps the
  rest, and both share the vector. What the new bio has in its count of vectors is left
  open.
\<close>

locale bio_splitter =
  fixes K :: kernel
  assumes split_law: "k_split K b n = Some (c, r) \<Longrightarrow> bio_ok b \<Longrightarrow> 0 < unat n \<Longrightarrow>
      unat n * 512 < unat (bi_size (bi_iter b)) \<Longrightarrow>
      bio_ok c \<and> bi_opf c = bi_opf b \<and> bi_io_vec c = bi_io_vec b \<and>
      bi_sector (bi_iter c) = bi_sector (bi_iter b) \<and>
      unat (bi_size (bi_iter c)) = unat n * 512 \<and>
      bio_cells c = take (unat n * 512) (bio_cells b) \<and>
      bio_ok r \<and> bi_opf r = bi_opf b \<and> bi_io_vec r = bi_io_vec b \<and> bi_addr r = bi_addr b \<and>
      bi_private r = bi_private b \<and> bi_end_io r = bi_end_io b \<and> bi_vcnt r = bi_vcnt b \<and>
      bi_sector (bi_iter r) = bi_sector (bi_iter b) + n \<and>
      unat (bi_size (bi_iter r)) = unat (bi_size (bi_iter b)) - unat n * 512 \<and>
      bio_cells r = drop (unat n * 512) (bio_cells b)"

locale kernel_contract = bio_iterator + page_allocator + bio_builder + bio_splitter

section \<open>Iterating over segments\<close>

text \<open>
  \<open>bio_for_each_segment\<close>: the segments from an iterator on. The loop of the kernel's macro
  runs until the iterator has no bytes left; \<open>None\<close> means that it never gets there.
\<close>

partial_function (option) bio_segments ::
  "kernel \<Rightarrow> bio_vec list \<Rightarrow> bvec_iter \<Rightarrow> bio_vec list option" where
  "bio_segments K v it =
     (if bi_size it = 0 then Some []
      else Option.bind (bio_segments K v (k_advance K v it (bv_len (k_iovec K v it))))
             (\<lambda>bs. Some (k_iovec K v it # bs)))"

lemma bio_segments_done [simp]: "bi_size it = 0 \<Longrightarrow> bio_segments K v it = Some []"
  by (simp add: bio_segments.simps)

lemma take_append_take:
  "n \<le> m \<Longrightarrow> take n (drop p xs) @ take (m - n) (drop (p + n) xs) = take m (drop p xs)"
  by (metis add.commute drop_drop le_add_diff_inverse take_add)

text \<open>One step of the iterator, on the byte positions of the vector.\<close>

lemma iter_step_facts:
  assumes v: "vec_ok v" and i: "unat (bi_idx it) < length v"
    and d: "bi_bvec_done it < bv_len (v ! unat (bi_idx it))" and nz: "bi_size it \<noteq> 0"
  defines "n \<equiv> bv_len (seg_at v it)"
  shows "0 < unat n \<and> unat n \<le> unat (bi_size it)"
    and "in_page (seg_at v it)"
    and "unat (bi_size (iter_step v it n)) = unat (bi_size it) - unat n"
    and "iter_pos v (iter_step v it n) = iter_pos v it + unat n"
    and "seg_cells (seg_at v it) = take (unat n) (drop (iter_pos v it) (vec_cells v))"
proof -
  let ?i = "unat (bi_idx it)" and ?b = "v ! unat (bi_idx it)"
  have b: "in_page ?b" using v i by (simp add: vec_ok_def)
  have len: "unat (bv_len ?b - bi_bvec_done it) = unat (bv_len ?b) - unat (bi_bvec_done it)"
    using d by (simp add: unat_sub word_less_nat_alt word_le_nat_alt)
  have n: "unat n = min (unat (bi_size it)) (unat (bv_len ?b) - unat (bi_bvec_done it))"
    by (simp add: n_def seg_at_def Let_def min_def word_le_nat_alt len)
  have dl: "unat (bi_bvec_done it) < unat (bv_len ?b)" using d by (simp add: word_less_nat_alt)
  have "0 < unat (bi_size it)" using nz by (simp add: unat_gt_0)
  with dl n show pos: "0 < unat n \<and> unat n \<le> unat (bi_size it)" by simp
  have off: "unat (bv_offset ?b + bi_bvec_done it) = unat (bv_offset ?b) + unat (bi_bvec_done it)"
    using b dl by (intro unat_add_small) (simp add: in_page_def PAGE_SIZE_def)
  show "in_page (seg_at v it)"
    using b dl pos n off unfolding n_def
    by (auto simp: in_page_def seg_at_def Let_def unat_eq_zero [symmetric])
  show "unat (bi_size (iter_step v it n)) = unat (bi_size it) - unat n"
    using pos by (simp add: iter_step_def Let_def unat_sub word_le_nat_alt)
  have dn: "unat (bi_bvec_done it + n) = unat (bi_bvec_done it) + unat n"
  proof (rule unat_add_small)
    have "unat (bi_bvec_done it) + unat n \<le> unat (bv_len ?b)" using n dl by simp
    then show "unat (bi_bvec_done it) + unat n < 2 ^ LENGTH(32)"
      using unat_less [of "bv_len ?b"] by linarith
  qed
  have "?i < 2 ^ 16" using i v by (simp add: vec_ok_def)
  then have idx: "unat (bi_idx it + 1) = Suc ?i" using unat_inc [of "bi_idx it"] by simp
  show "iter_pos v (iter_step v it n) = iter_pos v it + unat n"
  proof (cases "bi_bvec_done it + n = bv_len ?b")
    case True
    then have "unat (bv_len ?b) = unat (bi_bvec_done it) + unat n" using dn by metis
    with True i show ?thesis
      by (simp add: iter_pos_def iter_step_def Let_def idx take_Suc_conv_app_nth)
  next
    case False
    then show ?thesis by (simp add: iter_pos_def iter_step_def Let_def dn)
  qed
  have "vec_cells v = vec_cells (take ?i v) @ seg_cells ?b @ vec_cells (drop (Suc ?i) v)"
    using i by (metis append_take_drop_id Cons_nth_drop_Suc vec_cells_def concat_append
        map_append vec_cells_simps(2))
  then have "drop (iter_pos v it) (vec_cells v) =
      drop (unat (bi_bvec_done it)) (seg_cells ?b) @ vec_cells (drop (Suc ?i) v)"
    using dl by (simp add: iter_pos_def length_vec_cells)
  moreover have "seg_cells (seg_at v it) = take (unat n) (drop (unat (bi_bvec_done it)) (seg_cells ?b))"
    using n off by (intro nth_equalityI) (auto simp: seg_cells_def n_def seg_at_def Let_def)
  ultimately show "seg_cells (seg_at v it) = take (unat n) (drop (iter_pos v it) (vec_cells v))"
    using n by simp
qed

lemma iter_step_ok:
  assumes v: "vec_ok v" and ok: "iter_ok v it"
    and le: "iter_pos v it + unat (bi_size it) \<le> vec_bytes v" and nz: "bi_size it \<noteq> 0"
  shows "iter_ok v (iter_step v it (bv_len (seg_at v it)))"
proof -
  let ?i = "unat (bi_idx it)" and ?b = "v ! unat (bi_idx it)"
  let ?n = "bv_len (seg_at v it)"
  have i: "?i < length v" "bi_bvec_done it < bv_len ?b"
    using ok nz by (auto simp: iter_ok_def)
  note step = iter_step_facts [OF v i nz]
  show ?thesis
  proof (cases "bi_bvec_done it + ?n = bv_len ?b \<and> bi_size (iter_step v it ?n) \<noteq> 0")
    case True
    have "?i < 2 ^ 16" using i v by (simp add: vec_ok_def)
    then have idx: "unat (bi_idx it + 1) = Suc ?i" using unat_inc [of "bi_idx it"] by simp
    have "0 < unat (bi_size (iter_step v it ?n))" using True by (simp add: unat_gt_0)
    then have "iter_pos v (iter_step v it ?n) < vec_bytes v"
      using le step(1,3,4) by linarith
    then have "vec_bytes (take (Suc ?i) v) < vec_bytes v"
      using True by (simp add: iter_pos_def iter_step_def Let_def idx)
    then have "Suc ?i < length v" by (metis linorder_not_less order_less_irrefl take_all)
    with v True show ?thesis
      by (simp add: iter_ok_def iter_step_def Let_def idx vec_ok_def in_page_def word_neq_0_conv)
  next
    case False
    moreover have "bi_size (iter_step v it ?n) = 0" if "bi_bvec_done it + ?n \<noteq> bv_len ?b"
    proof -
      have "?n = bi_size it"
        using that by (auto simp: seg_at_def Let_def min_def split: if_splits)
      then show ?thesis by (simp add: iter_step_def Let_def)
    qed
    ultimately show ?thesis by (auto simp: iter_ok_def)
  qed
qed

text \<open>Iterators at the start of an entry, over all the rest of the vector.\<close>

definition suffix_iter :: "bio_vec list \<Rightarrow> bvec_iter \<Rightarrow> bool" where
  "suffix_iter v it \<longleftrightarrow> unat (bi_idx it) \<le> length v \<and> bi_bvec_done it = 0 \<and>
     unat (bi_size it) = vec_bytes (drop (unat (bi_idx it)) v)"

lemma suffix_iter_step:
  assumes "vec_ok v" and "suffix_iter v it" and i: "unat (bi_idx it) < length v"
  defines "b \<equiv> v ! unat (bi_idx it)"
  shows "seg_at v it = b" and "bi_size it \<noteq> 0" and "iter_ok v it"
    and "suffix_iter v (iter_step v it (bv_len b))"
    and "unat (bi_idx (iter_step v it (bv_len b))) = Suc (unat (bi_idx it))"
proof -
  let ?i = "unat (bi_idx it)"
  have done0: "bi_bvec_done it = 0" using assms(2) by (simp add: suffix_iter_def)
  have b: "bv_len b \<noteq> 0" using assms(1) i by (simp add: vec_ok_def in_page_def b_def)
  have "drop ?i v = b # drop (Suc ?i) v" unfolding b_def using i by (rule Cons_nth_drop_Suc [symmetric])
  with assms(2) have size: "unat (bi_size it) = unat (bv_len b) + vec_bytes (drop (Suc ?i) v)"
    by (simp add: suffix_iter_def)
  then have le: "bv_len b \<le> bi_size it" by (simp add: word_le_nat_alt)
  show "seg_at v it = b"
    using le done0 by (cases b) (auto simp: seg_at_def Let_def min_def b_def [symmetric])
  show "bi_size it \<noteq> 0" using size b by (auto simp: unat_eq_zero)
  show "iter_ok v it" using i b done0 by (simp add: iter_ok_def b_def word_neq_0_conv)
  have "?i < 2 ^ 16" using i assms(1) by (simp add: vec_ok_def)
  then show idx: "unat (bi_idx (iter_step v it (bv_len b))) = Suc ?i"
    using unat_inc [of "bi_idx it"] by (simp add: iter_step_def Let_def done0 b_def)
  have "unat (bi_size (iter_step v it (bv_len b))) = vec_bytes (drop (Suc ?i) v)"
    using size le by (simp add: iter_step_def Let_def unat_sub)
  then show "suffix_iter v (iter_step v it (bv_len b))"
    using i idx by (simp add: suffix_iter_def) (simp add: iter_step_def Let_def done0 b_def)
qed

context bio_iterator
begin

lemma bio_segments_step:
  assumes "vec_ok v" and "bi_size it \<noteq> 0" and "iter_ok v it"
  shows "bio_segments K v it =
    map_option ((#) (seg_at v it)) (bio_segments K v (iter_step v it (bv_len (seg_at v it))))"
proof -
  let ?i = "unat (bi_idx it)"
  from assms have i: "?i < length v" "bi_bvec_done it < bv_len (v ! ?i)"
    by (auto simp: iter_ok_def)
  with assms(1) have "in_page (v ! ?i)" by (simp add: vec_ok_def)
  with i have "k_iovec K v it = seg_at v it"
    and "k_advance K v it (bv_len (seg_at v it)) = iter_step v it (bv_len (seg_at v it))"
    by (simp_all add: iovec_law advance_law)
  with assms(2) show ?thesis
    by (subst bio_segments.simps) (simp add: map_option_case split: option.splits)
qed

text \<open>
  The loop ends for every iterator inside its vector, and visits each byte of the bio once,
  in order, in segments that lie in one page.
\<close>

lemma bio_segments_cells:
  "vec_ok v \<Longrightarrow> iter_ok v it \<Longrightarrow> iter_pos v it + unat (bi_size it) \<le> vec_bytes v \<Longrightarrow>
     \<exists>bs. bio_segments K v it = Some bs \<and>
       vec_cells bs = take (unat (bi_size it)) (drop (iter_pos v it) (vec_cells v)) \<and>
       (\<forall>b \<in> set bs. in_page b)"
proof (induction "unat (bi_size it)" arbitrary: it rule: less_induct)
  case less
  show ?case
  proof (cases "bi_size it = 0")
    case False
    let ?i = "unat (bi_idx it)" and ?b = "v ! unat (bi_idx it)" and ?s = "seg_at v it"
    let ?it = "iter_step v it (bv_len ?s)"
    have i: "?i < length v" "bi_bvec_done it < bv_len ?b"
      using less.prems(2) False by (auto simp: iter_ok_def)
    note step = iter_step_facts [OF less.prems(1) i False]
    have "unat (bi_size ?it) < unat (bi_size it)" using step(1,3) by linarith
    moreover have "iter_pos v ?it + unat (bi_size ?it) \<le> vec_bytes v"
      using less.prems(3) step(1,3,4) by linarith
    ultimately obtain bs where bs: "bio_segments K v ?it = Some bs"
      "vec_cells bs = take (unat (bi_size ?it)) (drop (iter_pos v ?it) (vec_cells v))"
      "\<forall>b \<in> set bs. in_page b"
      using less.hyps [OF _ less.prems(1) iter_step_ok [OF less.prems(1,2,3) False]] by blast
    have "vec_cells (?s # bs) = take (unat (bi_size it)) (drop (iter_pos v it) (vec_cells v))"
      using step(1,3,4) by (simp add: bs(2) step(5) take_append_take)
    then show ?thesis
      using bio_segments_step [OF less.prems(1) False less.prems(2)] bs(1,3) step(2) by simp
  qed simp
qed

text \<open>Over a bio that covers its vector, the segments are the vector's entries.\<close>

lemma suffix_iter_kernel:
  assumes "vec_ok v" and "suffix_iter v it" and "unat (bi_idx it) < length v"
  shows "k_iovec K v it = v ! unat (bi_idx it)"
    and "k_advance K v it (bv_len (v ! unat (bi_idx it))) =
      iter_step v it (bv_len (v ! unat (bi_idx it)))"
proof -
  note facts = suffix_iter_step [OF assms]
  have "in_page (v ! unat (bi_idx it))" "bi_bvec_done it < bv_len (v ! unat (bi_idx it))"
    using assms(1,3) facts(2,3) by (auto simp: vec_ok_def iter_ok_def)
  with assms(3) facts(1) show "k_iovec K v it = v ! unat (bi_idx it)"
    and "k_advance K v it (bv_len (v ! unat (bi_idx it))) =
      iter_step v it (bv_len (v ! unat (bi_idx it)))"
    by (simp_all add: iovec_law advance_law)
qed

lemma bio_segments_suffix:
  "vec_ok v \<Longrightarrow> suffix_iter v it \<Longrightarrow> bio_segments K v it = Some (drop (unat (bi_idx it)) v)"
proof (induction "length v - unat (bi_idx it)" arbitrary: it)
  case 0
  then show ?case by (simp add: suffix_iter_def unat_eq_zero)
next
  case (Suc k)
  let ?i = "unat (bi_idx it)"
  have i: "?i < length v" using Suc.hyps(2) by simp
  note facts = suffix_iter_step [OF Suc.prems i]
  have "bio_segments K v (iter_step v it (bv_len (v ! ?i))) = Some (drop (Suc ?i) v)"
    using Suc.hyps(1) [of "iter_step v it (bv_len (v ! ?i))"] Suc.hyps(2) Suc.prems(1) facts by simp
  with i show ?case
    using bio_segments_step [OF Suc.prems(1) facts(2,3)] by (simp add: facts(1) Cons_nth_drop_Suc)
qed

lemma bio_segments_whole: "whole_bio b \<Longrightarrow> bio_segments K (bi_io_vec b) (bi_iter b) = Some (bi_io_vec b)"
  using bio_segments_suffix [of "bi_io_vec b" "bi_iter b"] by (simp add: whole_bio_def suffix_iter_def)

end

section \<open>A reference kernel\<close>

text \<open>
  A concrete kernel with the documented behaviour: pages are numbered upwards, nothing
  fails. It shows that the laws can hold together, and the witnesses run on it.
\<close>

fun advance_pos :: "bio_vec list \<Rightarrow> nat \<Rightarrow> nat \<Rightarrow> nat \<times> nat" where
  "advance_pos [] d n = (0, d + n)"
| "advance_pos (b # bs) d n =
     (if d + n < unat (bv_len b) then (0, d + n)
      else (case advance_pos bs 0 (d + n - unat (bv_len b)) of (i, e) \<Rightarrow> (Suc i, e)))"

lemma advance_pos_spec:
  "d + n < vec_bytes bs \<Longrightarrow> advance_pos bs d n = (i, e) \<Longrightarrow>
     i < length bs \<and> e < unat (bv_len (bs ! i)) \<and> vec_bytes (take i bs) + e = d + n"
proof (induction bs arbitrary: d n i)
  case Nil
  then show ?case by simp
next
  case (Cons b bs)
  show ?case
  proof (cases "d + n < unat (bv_len b)")
    case True
    with Cons.prems show ?thesis by auto
  next
    case False
    then obtain j where j: "advance_pos bs 0 (d + n - unat (bv_len b)) = (j, e)" "i = Suc j"
      using Cons.prems(2) by (auto split: prod.splits)
    have "0 + (d + n - unat (bv_len b)) < vec_bytes bs" using Cons.prems(1) False by simp
    from Cons.IH [OF this j(1)]
    have "j < length bs \<and> e < unat (bv_len (bs ! j))"
      and "vec_bytes (take j bs) + e = d + n - unat (bv_len b)" by simp_all
    with False show ?thesis unfolding j(2) by simp
  qed
qed

definition ref_iter_advance :: "bio_vec list \<Rightarrow> bvec_iter \<Rightarrow> sector \<Rightarrow> bvec_iter" where
  "ref_iter_advance v it n =
     (case advance_pos (drop (unat (bi_idx it)) v) (unat (bi_bvec_done it)) (unat n * 512) of
        (i, d) \<Rightarrow> \<lparr>bi_sector = bi_sector it + n, bi_size = bi_size it - ucast n * 512,
                   bi_idx = bi_idx it + word_of_nat i, bi_bvec_done = word_of_nat d\<rparr>)"

definition ref_bio_split :: "host_bio \<Rightarrow> sector \<Rightarrow> (host_bio \<times> host_bio) option" where
  "ref_bio_split b n = Some
     (b\<lparr>bi_addr := bi_addr b + 1, bi_iter := (bi_iter b)\<lparr>bi_size := ucast n * 512\<rparr>, bi_vcnt := 0,
        bi_max_vecs := 0, bi_private := None, bi_end_io := EndNull\<rparr>,
      b\<lparr>bi_iter := ref_iter_advance (bi_io_vec b) (bi_iter b) n\<rparr>)"

definition ref_bio_add_page :: "verify_bio \<Rightarrow> nat \<Rightarrow> u32 \<Rightarrow> u32 \<Rightarrow> u32 \<times> verify_bio" where
  "ref_bio_add_page b p len off =
     (if 2 ^ 32 \<le> unat (bi_size (bi_iter b)) + unat len then (0, b)
      else if mergeable b p off \<and> bi_vcnt b \<noteq> 0 then
        (len, b\<lparr>bi_io_vec := extend_last (bi_io_vec b) len,
              bi_iter := (bi_iter b)\<lparr>bi_size := bi_size (bi_iter b) + len\<rparr>\<rparr>)
      else if bi_vcnt b < bi_max_vecs b
      then (len, b\<lparr>bi_vcnt := bi_vcnt b + 1,
              bi_io_vec := bi_io_vec b @ [\<lparr>bv_page = p, bv_len = len, bv_offset = off\<rparr>],
              bi_iter := (bi_iter b)\<lparr>bi_size := bi_size (bi_iter b) + len\<rparr>\<rparr>)
      else (0, b))"

definition empty_verify_bio :: "u16 \<Rightarrow> verify_bio" where
  "empty_verify_bio n = \<lparr>bi_addr = 0, bi_bdev = 0, bi_opf = REQ_OP_READ,
     bi_iter = \<lparr>bi_sector = 0, bi_size = 0, bi_idx = 0, bi_bvec_done = 0\<rparr>,
     bi_vcnt = 0, bi_max_vecs = n, bi_io_vec = [], bi_private = None, bi_end_io = EndNull\<rparr>"

definition reference_kernel :: kernel where
  "reference_kernel = \<lparr>
     k_bio_alloc = (\<lambda>n. Some (empty_verify_bio n)),
     k_bio_add_page = ref_bio_add_page,
     k_iovec = seg_at, k_advance = iter_step,
     k_end_sector = (\<lambda>it. bi_sector it + ucast (drop_bit 9 (bi_size it))),
     k_split = ref_bio_split,
     k_alloc_page = (\<lambda>t h. Some (fold max (map fst h) 0 + 2, \<lambda>_. 0)),
     k_kmalloc = (\<lambda>_. True), k_kmap = (\<lambda>_ _. True), k_queue_work = (\<lambda>_. True),
     k_interrupted = (\<lambda>_. False)\<rparr>"

lemma fold_max_ge: "x \<in> set xs \<Longrightarrow> x \<le> fold max xs (m :: nat)"
  by (metis Max_ge List.finite_set Max.set_eq_fold finite_insert insert_iff list.simps(15))

lemma unat_ucast_sectors:
  "unat (n :: sector) * 512 < 2 ^ 32 \<Longrightarrow> unat (ucast n * 512 :: u32) = unat n * 512"
  by (simp add: unat_word_ariths unat_ucast_64_32_small)

lemma ref_split_ok:
  assumes ok: "bio_ok b" and n: "0 < unat n" "unat n * 512 < unat (bi_size (bi_iter b))"
    and cr: "ref_bio_split b n = Some (c, r)"
  shows "bio_ok c" and "bio_cells c = take (unat n * 512) (bio_cells b)"
    and "bio_ok r" and "bio_cells r = drop (unat n * 512) (bio_cells b)"
    and "unat (bi_size (bi_iter c)) = unat n * 512"
    and "unat (bi_size (bi_iter r)) = unat (bi_size (bi_iter b)) - unat n * 512"
proof -
  let ?v = "bi_io_vec b" and ?it = "bi_iter b"
  let ?i = "unat (bi_idx ?it)"
  have "unat (bi_size ?it) < 2 ^ 32" using unat_less [of "bi_size ?it"] by simp
  with n have cast: "unat (ucast n * 512 :: u32) = unat n * 512"
    by (intro unat_ucast_sectors) simp
  from ok n have i: "?i < length ?v" "bi_bvec_done ?it < bv_len (?v ! ?i)"
    and v: "vec_ok ?v" and le: "iter_pos ?v ?it + unat (bi_size ?it) \<le> vec_bytes ?v"
    by (auto simp: bio_ok_def iter_ok_def)
  obtain j d where jd: "advance_pos (drop ?i ?v) (unat (bi_bvec_done ?it)) (unat n * 512) = (j, d)"
    by force
  have "unat (bi_bvec_done ?it) + unat n * 512 < vec_bytes (drop ?i ?v)"
    using le n vec_bytes_take_drop [of ?i ?v] by (simp add: iter_pos_def)
  from advance_pos_spec [OF this jd] i(1)
  have j: "?i + j < length ?v" "d < unat (bv_len (?v ! (?i + j)))"
    and pos: "vec_bytes (take j (drop ?i ?v)) + d = unat (bi_bvec_done ?it) + unat n * 512"
    by auto
  have "d < 2 ^ 32" using j(2) unat_less [of "bv_len (?v ! (?i + j))"] by simp
  then have ud: "unat (word_of_nat d :: u32) = d" by (simp add: unat_of_nat)
  have "?i + j < 2 ^ 16" using j(1) v by (simp add: vec_ok_def)
  then have uj: "unat (bi_idx ?it + word_of_nat j) = ?i + j"
    using unat_add_small [of "bi_idx ?it" "word_of_nat j"] by (simp add: unat_of_nat)
  have "vec_bytes (take (?i + j) ?v) + d = iter_pos ?v ?it + unat n * 512"
    using pos by (simp add: iter_pos_def take_add)
  then have rpos: "iter_pos ?v (bi_iter r) = iter_pos ?v ?it + unat n * 512"
    using cr jd by (auto simp: ref_bio_split_def ref_iter_advance_def iter_pos_def ud uj)
  have sizes: "unat (bi_size ?it - ucast n * 512) = unat (bi_size ?it) - unat n * 512"
    using n cast by (simp add: unat_sub word_le_nat_alt)
  have c: "bi_io_vec c = ?v" "bi_iter c = ?it\<lparr>bi_size := ucast n * 512\<rparr>"
    and r: "bi_io_vec r = ?v" "unat (bi_idx (bi_iter r)) = ?i + j"
      "bi_bvec_done (bi_iter r) = word_of_nat d" "bi_size (bi_iter r) = bi_size ?it - ucast n * 512"
    using cr jd uj by (auto simp: ref_bio_split_def ref_iter_advance_def)
  show cs: "unat (bi_size (bi_iter c)) = unat n * 512" by (simp add: c cast)
  show rs: "unat (bi_size (bi_iter r)) = unat (bi_size ?it) - unat n * 512" by (simp add: r sizes)
  have cpos: "iter_pos ?v (bi_iter c) = iter_pos ?v ?it" by (simp add: c iter_pos_def)
  have "iter_ok ?v (bi_iter c)" using i by (simp add: c iter_ok_def)
  then show "bio_ok c" using v le n(2) cs by (simp add: bio_ok_def c(1) cpos)
  have "iter_ok ?v (bi_iter r)"
    using j by (simp add: iter_ok_def r word_less_nat_alt ud)
  then show "bio_ok r" using v le n(2) rs by (simp add: bio_ok_def r(1) rpos)
  show "bio_cells c = take (unat n * 512) (bio_cells b)"
    using n(2) by (simp add: bio_cells_def c(1) cpos cs)
  show "bio_cells r = drop (unat n * 512) (bio_cells b)"
    by (simp add: bio_cells_def r(1) rpos rs drop_take add.commute)
qed

interpretation ref: kernel_contract reference_kernel
proof
  show "k_iovec reference_kernel v it = seg_at v it" for v it
    by (simp add: reference_kernel_def)
  show "k_advance reference_kernel v it n = iter_step v it n" for v it n
    by (simp add: reference_kernel_def)
  show "k_end_sector reference_kernel it = bi_sector it + ucast (drop_bit 9 (bi_size it))" for it
    by (simp add: reference_kernel_def)
  show "p \<notin> fst ` set h" if "k_alloc_page reference_kernel t h = Some (p, c)" for t h p c
  proof
    assume "p \<in> fst ` set h"
    then have "p \<le> fold max (map fst h) 0" by (intro fold_max_ge) simp
    with that show False by (simp add: reference_kernel_def)
  qed
  show "\<exists>b. k_bio_alloc reference_kernel n = Some b" for n
    by (simp add: reference_kernel_def)
  show "bi_io_vec b = [] \<and> bi_vcnt b = 0 \<and> n \<le> bi_max_vecs b \<and> (n = 0 \<longrightarrow> bi_max_vecs b = 0) \<and>
      bi_size (bi_iter b) = 0 \<and> bi_idx (bi_iter b) = 0 \<and> bi_bvec_done (bi_iter b) = 0"
    if "k_bio_alloc reference_kernel n = Some b" for n b
    using that by (auto simp: reference_kernel_def empty_verify_bio_def)
  show "k_bio_add_page reference_kernel b p len off =
      (len, b\<lparr>bi_io_vec := extend_last (bi_io_vec b) len,
              bi_iter := (bi_iter b)\<lparr>bi_size := bi_size (bi_iter b) + len\<rparr>\<rparr>)"
    if "mergeable b p off" and "bi_vcnt b \<noteq> 0" and "unat (bi_size (bi_iter b)) + unat len < 2 ^ 32"
    for b p len off
    using that by (simp add: reference_kernel_def ref_bio_add_page_def)
  show "k_bio_add_page reference_kernel b p len off =
      (len, b\<lparr>bi_vcnt := bi_vcnt b + 1,
              bi_io_vec := bi_io_vec b @ [\<lparr>bv_page = p, bv_len = len, bv_offset = off\<rparr>],
              bi_iter := (bi_iter b)\<lparr>bi_size := bi_size (bi_iter b) + len\<rparr>\<rparr>)"
    if "\<not> mergeable b p off" and "bi_vcnt b < bi_max_vecs b"
      and "unat (bi_size (bi_iter b)) + unat len < 2 ^ 32" for b p len off
    using that by (simp add: reference_kernel_def ref_bio_add_page_def)
  show "k_bio_add_page reference_kernel b p len off = (0, b)"
    if "\<not> mergeable b p off" and "\<not> bi_vcnt b < bi_max_vecs b" for b p len off
    using that by (simp add: reference_kernel_def ref_bio_add_page_def)
  show "bio_ok c \<and> bi_opf c = bi_opf b \<and> bi_io_vec c = bi_io_vec b \<and>
      bi_sector (bi_iter c) = bi_sector (bi_iter b) \<and>
      unat (bi_size (bi_iter c)) = unat n * 512 \<and>
      bio_cells c = take (unat n * 512) (bio_cells b) \<and>
      bio_ok r \<and> bi_opf r = bi_opf b \<and> bi_io_vec r = bi_io_vec b \<and> bi_addr r = bi_addr b \<and>
      bi_private r = bi_private b \<and> bi_end_io r = bi_end_io b \<and> bi_vcnt r = bi_vcnt b \<and>
      bi_sector (bi_iter r) = bi_sector (bi_iter b) + n \<and>
      unat (bi_size (bi_iter r)) = unat (bi_size (bi_iter b)) - unat n * 512 \<and>
      bio_cells r = drop (unat n * 512) (bio_cells b)"
    if "k_split reference_kernel b n = Some (c, r)" and "bio_ok b" and "0 < unat n"
      and "unat n * 512 < unat (bi_size (bi_iter b))" for b n c r
  proof -
    from that(1) have s: "ref_bio_split b n = Some (c, r)" by (simp add: reference_kernel_def)
    from s have c: "bi_opf c = bi_opf b" "bi_io_vec c = bi_io_vec b"
      "bi_sector (bi_iter c) = bi_sector (bi_iter b)" by (auto simp: ref_bio_split_def)
    from s have r: "r = b\<lparr>bi_iter := ref_iter_advance (bi_io_vec b) (bi_iter b) n\<rparr>"
      by (simp add: ref_bio_split_def)
    have sec: "bi_sector (bi_iter r) = bi_sector (bi_iter b) + n"
      by (simp add: r ref_iter_advance_def split: prod.splits)
    have "bi_opf r = bi_opf b" "bi_io_vec r = bi_io_vec b" "bi_addr r = bi_addr b"
      "bi_private r = bi_private b" "bi_end_io r = bi_end_io b" "bi_vcnt r = bi_vcnt b"
      by (simp_all add: r)
    with c sec ref_split_ok [OF that(2-4) s] show ?thesis by (intro conjI)
  qed
qed

text \<open>The laws only speak of the bio, iterator and page functions.\<close>

lemma kernel_contract_cong:
  assumes "k_bio_alloc K = k_bio_alloc reference_kernel"
    and "k_bio_add_page K = k_bio_add_page reference_kernel"
    and "k_iovec K = k_iovec reference_kernel" and "k_advance K = k_advance reference_kernel"
    and "k_end_sector K = k_end_sector reference_kernel" and "k_split K = k_split reference_kernel"
    and "k_alloc_page K = k_alloc_page reference_kernel"
  shows "kernel_contract K"
  using ref.kernel_contract_axioms
  unfolding kernel_contract_def bio_iterator_def page_allocator_def bio_builder_def bio_splitter_def
    assms .

end
