(* ===== verification/Praid_Bar.thy ===== *)
theory Praid_Bar
  imports Praid_Kernel
begin

text \<open>
  The memory that the driver and the virtual device share (\<open>pciev.h\<close>): the register block at
  the start of the BAR and, one megabyte further, the calculation area of three chunks (old
  data, new data, parity). Both sides see the same bytes, so one record \<open>mmio\<close> stands for
  it and is passed to whichever side runs.
\<close>

section \<open>The registers\<close>

record pciev_bar =
  dev_cnt :: u32
  io_offset :: u64
  io_size :: u64
  io_sector_sta :: u64
  io_num :: u32
  io_done :: u32

record mmio =
  mm_bar :: pciev_bar
  mm_chunks :: bytes

text \<open>The unprocessed requests of the register block: the half-open range behind \<open>io_done\<close>.\<close>

definition bar_pending :: "pciev_bar \<Rightarrow> bool" where
  "bar_pending b \<longleftrightarrow> \<not> io_num b \<le> io_done b"

definition PTR_BAR_TO_CHUNK_O :: "nat \<Rightarrow> nat" where
  "PTR_BAR_TO_CHUNK_O addr = addr"

definition PTR_BAR_TO_CHUNK_N :: "nat \<Rightarrow> nat" where
  "PTR_BAR_TO_CHUNK_N addr = addr + CHUNK_SIZE"

definition PTR_BAR_TO_CHUNK_V :: "nat \<Rightarrow> nat" where
  "PTR_BAR_TO_CHUNK_V addr = addr + CHUNK_SIZE * 2"

lemmas chunk_ptr_defs =
  PTR_BAR_TO_CHUNK_O_def PTR_BAR_TO_CHUNK_N_def PTR_BAR_TO_CHUNK_V_def

lemma CHUNK_SIZE_eq [simp]: "CHUNK_SIZE = 4096"
  by (simp add: praid_const)

lemma PAGE_SIZE_eq [simp]: "PAGE_SIZE = 4096"
  by (simp add: praid_const)

section \<open>Eight bytes at a time\<close>

text \<open>\<open>U64_DATA\<close> as a value and as a place: little-endian access to eight bytes.\<close>

definition U64_DATA :: "bytes \<Rightarrow> nat \<Rightarrow> u64" where
  "U64_DATA m a = foldr (\<lambda>i w. push_bit (8 * i) (ucast (m (a + i))) OR w) [0..<8] 0"

definition U64_store :: "bytes \<Rightarrow> nat \<Rightarrow> u64 \<Rightarrow> bytes" where
  "U64_store m a v = (\<lambda>b. if a \<le> b \<and> b < a + 8 then ucast (drop_bit (8 * (b - a)) v) else m b)"

lemma bit_foldr_bytes:
  "k < 64 \<Longrightarrow> bit (foldr (\<lambda>i w. push_bit (8 * i) (ucast (f i :: u8)) OR w) xs (0 :: u64)) k \<longleftrightarrow>
     (\<exists>i \<in> set xs. 8 * i \<le> k \<and> bit (f i) (k - 8 * i))"
  by (induction xs) (auto simp: bit_simps bit_or_iff bit_push_bit_iff bit_ucast_iff)

lemma bit_U64_DATA:
  assumes "k < 64"
  shows "bit (U64_DATA m a) k \<longleftrightarrow> bit (m (a + k div 8)) (k mod 8)"
proof -
  have "(\<exists>i \<in> {0..<8}. 8 * i \<le> k \<and> bit (m (a + i)) (k - 8 * i)) \<longleftrightarrow>
      bit (m (a + k div 8)) (k mod 8)" (is "?L \<longleftrightarrow> ?R")
  proof
    assume ?L
    then obtain i where i: "8 * i \<le> k" "bit (m (a + i)) (k - 8 * i)" by blast
    then have "k - 8 * i < 8" using bit_imp_le_length [of "m (a + i)" "k - 8 * i"] by simp
    moreover obtain j where j: "k = 8 * i + j" using i(1) le_Suc_ex by blast
    ultimately have "k div 8 = i" "k mod 8 = j" by simp_all
    with i(2) j show ?R by simp
  next
    assume ?R
    moreover have "k div 8 < 8" using assms by simp
    moreover have "k - 8 * (k div 8) = k mod 8" by (simp add: minus_mult_div_eq_mod)
    moreover have "8 * (k div 8) \<le> k" by simp
    ultimately show ?L by (intro bexI [of _ "k div 8"]) simp_all
  qed
  then show ?thesis using assms by (simp add: U64_DATA_def bit_foldr_bytes)
qed

lemma byte_of_U64_DATA:
  "i < 8 \<Longrightarrow> (ucast (drop_bit (8 * i) (U64_DATA m a)) :: u8) = m (a + i)"
  by (rule bit_word_eqI) (simp add: bit_ucast_iff bit_drop_bit_eq bit_U64_DATA)

lemma ucast_drop_xor:
  "(ucast (drop_bit n (x XOR y :: u64)) :: u8) = ucast (drop_bit n x) XOR ucast (drop_bit n y)"
  by (rule bit_word_eqI) (auto simp: bit_simps)

lemma U64_store_xor:
  "U64_store m a (U64_DATA x p XOR U64_DATA y q XOR U64_DATA z r) =
     (\<lambda>b. if a \<le> b \<and> b < a + 8
          then x (p + (b - a)) XOR y (q + (b - a)) XOR z (r + (b - a)) else m b)"
proof
  fix b
  show "U64_store m a (U64_DATA x p XOR U64_DATA y q XOR U64_DATA z r) b =
      (if a \<le> b \<and> b < a + 8
       then x (p + (b - a)) XOR y (q + (b - a)) XOR z (r + (b - a)) else m b)"
  proof (cases "a \<le> b \<and> b < a + 8")
    case True
    then have "b - a < 8" by arith
    from True show ?thesis
      unfolding U64_store_def ucast_drop_xor byte_of_U64_DATA [OF \<open>b - a < 8\<close>] by simp
  next
    case False
    then show ?thesis unfolding U64_store_def by auto
  qed
qed

end
