(* ===== verification/Praid_Device.thy ===== *)
theory Praid_Device
  imports Praid_Bar
begin

text \<open>
  The virtual PCIe device at run time (\<open>pci.c\<close>, lines 14 to 194, and the dispatcher of
  \<open>device.c\<close>): checking the registers, reading the old parity, the exclusive or over the
  calculation area, writing the new parity, the interrupt. The parity disk is its contents;
  the block layer calls are a parameter.
\<close>

section \<open>State\<close>

datatype irq = MsiIrq nat | IntxIrq

text \<open>
  The fields of \<open>struct pciev_dev\<close> used at run time, and the interrupts raised and not yet
  delivered. \<open>d_sts_is\<close> is the interrupt-status bit of the configuration space.
\<close>

record pciev_dev =
  d_old_bar :: pciev_bar
  d_msix_enabled :: bool
  d_sts_is :: bool
  d_irqs :: "irq list"

text \<open>
  The interrupt layer, not part of the repository: the interrupt number behind an MSI-X
  index (0 for none), and whether the interrupt chip can retrigger.
\<close>

record irq_layer =
  il_virq :: "nat \<Rightarrow> nat"
  il_retrigger :: bool

section \<open>Interrupts\<close>

definition signal_irq_raw :: "irq_layer \<Rightarrow> irq \<Rightarrow> pciev_dev \<Rightarrow> pciev_dev outcome" where
  "signal_irq_raw L i d =
     (if \<not> il_retrigger L then Crash BugOn else Ret (d\<lparr>d_irqs := d_irqs d @ [i]\<rparr>))"

definition process_msi_irq :: "irq_layer \<Rightarrow> nat \<Rightarrow> pciev_dev \<Rightarrow> pciev_dev outcome" where
  "process_msi_irq L msi_index d =
     (let virq = il_virq L msi_index in
      if virq = 0 then Crash BugOn else signal_irq_raw L (MsiIrq virq) d)"

text \<open>
  The function for kernels before 5.17, which looks for the index in the list of the device's
  MSI descriptors. Behind the loop \<open>msi_desc\<close> points to the head of the list and is never
  null, so that its \<open>BUG_ON\<close> does nothing.
\<close>

record msi_desc =
  msi_entry_nr :: nat
  msi_desc_irq :: nat

fun process_msi_irq_before_5_17 ::
  "irq_layer \<Rightarrow> msi_desc list \<Rightarrow> nat \<Rightarrow> pciev_dev \<Rightarrow> pciev_dev outcome" where
  "process_msi_irq_before_5_17 L [] msi_index d = Ret d"
| "process_msi_irq_before_5_17 L (e # es) msi_index d =
     (if msi_entry_nr e = msi_index then signal_irq_raw L (MsiIrq (msi_desc_irq e)) d
      else process_msi_irq_before_5_17 L es msi_index d)"

definition pciev_signal_irq :: "irq_layer \<Rightarrow> nat \<Rightarrow> pciev_dev \<Rightarrow> pciev_dev outcome" where
  "pciev_signal_irq L msi_index d =
     (if d_msix_enabled d then process_msi_irq L msi_index d
      else signal_irq_raw L IntxIrq (d\<lparr>d_sts_is := True\<rparr>))"

section \<open>The read-only register\<close>

definition pciev_proc_bars :: "pciev_dev \<Rightarrow> mmio \<Rightarrow> mmio" where
  "pciev_proc_bars d mm =
     (if dev_cnt (d_old_bar d) \<noteq> dev_cnt (mm_bar mm)
      then mm\<lparr>mm_bar := (mm_bar mm)\<lparr>dev_cnt := dev_cnt (d_old_bar d)\<rparr>\<rparr>
      else mm)"

section \<open>Reading and writing the parity disk\<close>

text \<open>
  The answers of the kernel during one call of \<open>pciev_submit_bio\<close>: whether the bio and the
  page (with its initial bytes) can be allocated and mapped, what \<open>bio_add_page\<close> returns for
  a size and an offset, and \<open>submit_bio_wait\<close>, which takes the operation, the sector, the
  page's bytes with offset and size, and the disk, and returns its status, the page and the
  disk afterwards.
\<close>

record blk_call =
  bc_bio :: bool
  bc_page :: "bytes option"
  bc_kmap :: bool
  bc_add_page :: "u64 \<Rightarrow> u64 \<Rightarrow> u64"
  bc_wait :: "req_op \<Rightarrow> sector \<Rightarrow> nat \<Rightarrow> nat \<Rightarrow> bytes \<Rightarrow> bytes \<Rightarrow> int \<times> bytes \<times> bytes"

definition pciev_submit_bio ::
  "blk_call \<Rightarrow> nat \<Rightarrow> u64 \<Rightarrow> u64 \<Rightarrow> sector \<Rightarrow> req_op \<Rightarrow> bytes \<Rightarrow> bytes \<Rightarrow>
     errno option \<times> bytes \<times> bytes" where
  "pciev_submit_bio E buffer offset nbytes sector_num rw m disk =
     (if \<not> bc_bio E then (Some EINVAL, m, disk)
      else case bc_page E of
        None \<Rightarrow> (Some EINVAL, m, disk)
      | Some page_data \<Rightarrow>
          if \<not> bc_kmap E then (Some EINVAL, m, disk)
          else
            let page_data = (if rw = REQ_OP_WRITE
                  then copy_bytes page_data (unat offset) m (buffer + unat offset) (unat nbytes)
                  else page_data)
            in if bc_add_page E nbytes offset \<noteq> nbytes then (Some EIO, m, disk)
               else case bc_wait E rw sector_num (unat offset) (unat nbytes) page_data disk of
                 (status, page_data, disk) \<Rightarrow>
                   if status < 0 then (Some EIO, m, disk)
                   else if rw = REQ_OP_READ
                     then (None, copy_bytes m (buffer + unat offset) page_data (unat offset) (unat nbytes), disk)
                     else (None, m, disk))"

text \<open>
  What a completed transfer does, by the contract of a block device: a read fills the page
  range with the disk's bytes from the sector on and leaves the disk alone; a write puts the
  page range there and changes nothing else; a failed read changes no disk.
\<close>

locale block_io =
  fixes E :: blk_call
  assumes wait_read: "bc_wait E REQ_OP_READ sec off n pg d = (status, pg', d') \<Longrightarrow>
      d' = d \<and> (0 \<le> status \<longrightarrow> pg' = copy_bytes pg off d (unat sec * 512) n)"
    and wait_write: "bc_wait E REQ_OP_WRITE sec off n pg d = (status, pg', d') \<Longrightarrow>
      0 \<le> status \<Longrightarrow> d' = copy_bytes d (unat sec * 512) pg off n"

text \<open>A call during which nothing fails.\<close>

definition blk_call_succeeds :: "blk_call \<Rightarrow> bool" where
  "blk_call_succeeds E \<longleftrightarrow> bc_bio E \<and> bc_page E \<noteq> None \<and> bc_kmap E \<and>
     (\<forall>n off. bc_add_page E n off = n) \<and>
     (\<forall>rw sec off n pg d. 0 \<le> fst (bc_wait E rw sec off n pg d))"

definition ref_blk_call :: blk_call where
  "ref_blk_call = \<lparr>bc_bio = True, bc_page = Some (\<lambda>_. 0), bc_kmap = True,
     bc_add_page = (\<lambda>n off. n),
     bc_wait = (\<lambda>rw sec off n pg d.
       if rw = REQ_OP_READ then (0, copy_bytes pg off d (unat sec * 512) n, d)
       else (0, pg, copy_bytes d (unat sec * 512) pg off n))\<rparr>"

text \<open>The same call when the disk answers every request with an error.\<close>

definition failing_blk_call :: blk_call where
  "failing_blk_call = ref_blk_call\<lparr>bc_wait := (\<lambda>rw sec off n pg d. (- 5, pg, d))\<rparr>"

interpretation ref_io: block_io ref_blk_call
  by unfold_locales (auto simp: ref_blk_call_def split: if_splits)

lemma ref_blk_call_succeeds: "blk_call_succeeds ref_blk_call"
  by (simp add: blk_call_succeeds_def ref_blk_call_def)

context block_io
begin

lemma submit_read:
  assumes "blk_call_succeeds E"
  shows "pciev_submit_bio E buf off n sec REQ_OP_READ m d =
    (None, copy_bytes m (buf + unat off) d (unat sec * 512) (unat n), d)"
proof -
  obtain pg where pg: "bc_page E = Some pg" using assms by (auto simp: blk_call_succeeds_def)
  obtain status pg' d' where w: "bc_wait E REQ_OP_READ sec (unat off) (unat n) pg d = (status, pg', d')"
    by (cases "bc_wait E REQ_OP_READ sec (unat off) (unat n) pg d") auto
  have "0 \<le> status" using assms w by (metis blk_call_succeeds_def fst_conv)
  with wait_read [OF w] have "d' = d" "pg' = copy_bytes pg (unat off) d (unat sec * 512) (unat n)"
    by simp_all
  with assms pg w \<open>0 \<le> status\<close> show ?thesis
    by (auto simp: pciev_submit_bio_def blk_call_succeeds_def copy_bytes_def fun_eq_iff)
qed

lemma submit_write:
  assumes "blk_call_succeeds E"
  shows "pciev_submit_bio E buf off n sec REQ_OP_WRITE m d =
    (None, m, copy_bytes d (unat sec * 512) m (buf + unat off) (unat n))"
proof -
  obtain pg where pg: "bc_page E = Some pg" using assms by (auto simp: blk_call_succeeds_def)
  let ?pg = "copy_bytes pg (unat off) m (buf + unat off) (unat n)"
  obtain status pg' d' where w: "bc_wait E REQ_OP_WRITE sec (unat off) (unat n) ?pg d = (status, pg', d')"
    by (cases "bc_wait E REQ_OP_WRITE sec (unat off) (unat n) ?pg d") auto
  have "0 \<le> status" using assms w by (metis blk_call_succeeds_def fst_conv)
  with wait_write [OF w] have "d' = copy_bytes d (unat sec * 512) ?pg (unat off) (unat n)" by simp
  with assms pg w \<open>0 \<le> status\<close> show ?thesis
    by (auto simp: pciev_submit_bio_def blk_call_succeeds_def copy_bytes_def fun_eq_iff)
qed

text \<open>A read that fails, wherever, leaves memory and disk as they were.\<close>

lemma failed_read:
  "pciev_submit_bio E buf off n sec REQ_OP_READ m d = (Some e, m', d') \<Longrightarrow> m' = m \<and> d' = d"
  using wait_read by (auto simp: pciev_submit_bio_def split: option.splits if_splits prod.splits)

end

lemma failed_write:
  "pciev_submit_bio E buf off n sec REQ_OP_WRITE m d = (Some e, m', d') \<Longrightarrow> m' = m"
  by (auto simp: pciev_submit_bio_def split: option.splits if_splits prod.splits)

section \<open>The parity computation\<close>

text \<open>
  The loop over the calculation area: eight bytes of parity at a time, combined with the old
  data below and the new data one chunk up. The counters are 64-bit words, so the model keeps
  the question whether the loop ends: \<open>None\<close> is a loop that never does.
\<close>

partial_function (option) xor_loop :: "u64 \<Rightarrow> u64 \<Rightarrow> u64 \<Rightarrow> bytes \<Rightarrow> bytes option" where
  "xor_loop toffset tsize offset m =
     (if offset < tsize then
        xor_loop toffset tsize (offset + 8)
          (U64_store m (PAGE_SIZE * 2 + unat (toffset + offset))
             (U64_DATA m (PAGE_SIZE * 2 + unat (toffset + offset)) XOR
              U64_DATA m (unat (toffset + offset)) XOR
              U64_DATA m (unat (toffset + offset + word_of_nat CHUNK_SIZE))))
      else Some m)"

text \<open>The same on the bytes of one range of the area.\<close>

definition xor_region :: "nat \<Rightarrow> nat \<Rightarrow> bytes \<Rightarrow> bytes" where
  "xor_region p n m =
     (\<lambda>a. if 8192 + p \<le> a \<and> a < 8192 + p + n then m a XOR m (a - 8192) XOR m (a - 4096) else m a)"

lemma xor_region_0 [simp]: "xor_region p 0 m = m"
  by (simp add: xor_region_def fun_eq_iff)

lemma xor_region_step:
  assumes "p + 8 + n \<le> 4096"
  shows "xor_region (p + 8) n (U64_store m (8192 + p)
       (U64_DATA m (8192 + p) XOR U64_DATA m p XOR U64_DATA m (p + 4096))) =
     xor_region p (8 + n) m"
proof
  fix a
  consider "a < 8192 + p" | "8192 + p \<le> a \<and> a < 8192 + p + 8" | "8192 + p + 8 \<le> a" by linarith
  then show "xor_region (p + 8) n (U64_store m (8192 + p)
       (U64_DATA m (8192 + p) XOR U64_DATA m p XOR U64_DATA m (p + 4096))) a =
     xor_region p (8 + n) m a"
  proof cases
    case 2
    then obtain i where "a = 8192 + p + i" using le_Suc_ex by blast
    with 2 show ?thesis by (simp add: U64_store_xor xor_region_def add_ac)
  next
    case 3
    then obtain j where "a = 8192 + p + 8 + j" using le_Suc_ex by blast
    with assms show ?thesis by (auto simp: U64_store_xor xor_region_def)
  qed (simp add: U64_store_xor xor_region_def)
qed

lemma xor_loop_from:
  "unat tsize = unat offset + 8 * n \<Longrightarrow> unat toffset + unat tsize \<le> 4096 \<Longrightarrow>
     xor_loop toffset tsize offset m = Some (xor_region (unat toffset + unat offset) (8 * n) m)"
proof (induction n arbitrary: offset m)
  case 0
  then have "\<not> offset < tsize" by (simp add: word_less_nat_alt)
  with 0 show ?case by (subst xor_loop.simps) simp
next
  case (Suc n)
  let ?p = "unat toffset + unat offset"
  have lt: "offset < tsize" using Suc.prems(1) by (simp add: word_less_nat_alt)
  have o8: "unat (offset + 8) = unat offset + 8"
    using Suc.prems unat_add_small [of offset 8] by simp
  have p: "unat (toffset + offset) = ?p"
    using Suc.prems by (intro unat_add_small) simp
  have p4: "unat (toffset + offset + word_of_nat CHUNK_SIZE) = ?p + 4096"
    using Suc.prems p unat_add_small [of "toffset + offset" 4096] by simp
  have IH: "xor_loop toffset tsize (offset + 8) m' = Some (xor_region (?p + 8) (8 * n) m')" for m'
    using Suc.IH [of "offset + 8" m'] Suc.prems by (simp add: o8 add.assoc)
  have "?p + 8 + 8 * n \<le> 4096" using Suc.prems by simp
  from xor_region_step [OF this, of m] show ?case
    by (subst xor_loop.simps) (simp only: lt if_True IH p p4 PAGE_SIZE_eq, simp add: algebra_simps)
qed

lemma xor_loop_range:
  assumes "unat toffset + unat tsize \<le> 4096" and "8 dvd unat tsize"
  shows "xor_loop toffset tsize 0 m = Some (xor_region (unat toffset) (unat tsize) m)"
proof -
  from assms(2) obtain n where n: "unat tsize = 8 * n" by blast
  then show ?thesis using xor_loop_from [of tsize 0 n toffset m] assms(1) by simp
qed

text \<open>
  C28: The parity loop ends for every request inside the chunk whose size is a multiple of
  eight bytes, and computes, byte by byte, old parity xor old data xor new data over exactly
  the requested range of the parity chunk.
\<close>

theorem xor_loop_correct:
  assumes "unat toffset + unat tsize \<le> 4096" and "8 dvd unat tsize"
  shows "xor_loop toffset tsize 0 m = Some (xor_region (unat toffset) (unat tsize) m)"
  using assms by (rule xor_loop_range)

theorem xor_loop_correct_witness:
  "xor_loop 512 512 0 (\<lambda>a. of_nat a) = Some (xor_region 512 512 (\<lambda>a. of_nat a))"
  using xor_loop_correct [of 512 512 "\<lambda>a. of_nat a"] by simp

section \<open>One request\<close>

type_synonym dev_state = "pciev_dev \<times> mmio \<times> bytes"

definition pciev_dispatcher_clac_xor_single ::
  "irq_layer \<Rightarrow> blk_call \<Rightarrow> blk_call \<Rightarrow> dev_state \<Rightarrow> dev_state outcome option" where
  "pciev_dispatcher_clac_xor_single L Er Ew = (\<lambda>(d, mm, disk).
     if io_num (mm_bar mm) \<le> io_done (mm_bar mm) then Some (Ret (d, mm, disk))
     else
       let mm = mm\<lparr>mm_bar := (mm_bar mm)\<lparr>io_done := io_done (mm_bar mm) + 1\<rparr>\<rparr>;
           toffset = io_offset (mm_bar mm);
           tsize = io_size (mm_bar mm)
       in case pciev_submit_bio Er (PAGE_SIZE * 2) toffset tsize (io_sector_sta (mm_bar mm))
                 REQ_OP_READ (mm_chunks mm) disk of
            (Some e, m, disk) \<Rightarrow> Some (Ret (d, mm\<lparr>mm_chunks := m\<rparr>, disk))
          | (None, m, disk) \<Rightarrow>
              Option.bind (xor_loop toffset tsize 0 m) (\<lambda>m.
                case pciev_submit_bio Ew (PAGE_SIZE * 2) toffset tsize (io_sector_sta (mm_bar mm))
                       REQ_OP_WRITE m disk of
                  (Some e, m, disk) \<Rightarrow> Some (Ret (d, mm\<lparr>mm_chunks := m\<rparr>, disk))
                | (None, m, disk) \<Rightarrow>
                    Some (bind_outcome (pciev_signal_irq L 0 d)
                            (\<lambda>d. Ret (d, mm\<lparr>mm_chunks := m\<rparr>, disk)))))"

text \<open>What a request asks for, from the registers and the calculation area.\<close>

definition request_ok :: "mmio \<Rightarrow> bool" where
  "request_ok mm \<longleftrightarrow> unat (io_offset (mm_bar mm)) + unat (io_size (mm_bar mm)) \<le> 4096 \<and>
     8 dvd unat (io_size (mm_bar mm))"

definition xor_into :: "bytes \<Rightarrow> nat \<Rightarrow> bytes \<Rightarrow> nat \<Rightarrow> nat \<Rightarrow> bytes" where
  "xor_into disk s delta off n =
     (\<lambda>a. if s \<le> a \<and> a < s + n then disk a XOR delta (off + (a - s)) else disk a)"

definition request_delta :: "mmio \<Rightarrow> bytes" where
  "request_delta mm = (\<lambda>i. mm_chunks mm i XOR mm_chunks mm (4096 + i))"

definition parity_updated :: "mmio \<Rightarrow> bytes \<Rightarrow> bytes" where
  "parity_updated mm disk = xor_into disk (unat (io_sector_sta (mm_bar mm)) * 512)
     (request_delta mm) (unat (io_offset (mm_bar mm))) (unat (io_size (mm_bar mm)))"

text \<open>An interrupt layer in order, and what raising the completion interrupt does then.\<close>

definition irq_layer_ok :: "irq_layer \<Rightarrow> bool" where
  "irq_layer_ok L \<longleftrightarrow> il_virq L 0 \<noteq> 0 \<and> il_retrigger L"

definition irq_raised :: "irq_layer \<Rightarrow> pciev_dev \<Rightarrow> pciev_dev" where
  "irq_raised L d = (if d_msix_enabled d then d\<lparr>d_irqs := d_irqs d @ [MsiIrq (il_virq L 0)]\<rparr>
     else d\<lparr>d_sts_is := True, d_irqs := d_irqs d @ [IntxIrq]\<rparr>)"

lemma pciev_signal_irq_ok: "irq_layer_ok L \<Longrightarrow> pciev_signal_irq L 0 d = Ret (irq_raised L d)"
  by (simp add: irq_layer_ok_def pciev_signal_irq_def process_msi_irq_def signal_irq_raw_def
      irq_raised_def Let_def)

definition io_taken :: "mmio \<Rightarrow> mmio" where
  "io_taken mm = mm\<lparr>mm_bar := (mm_bar mm)\<lparr>io_done := io_done (mm_bar mm) + 1\<rparr>\<rparr>"

text \<open>The calculation area after the old parity has been read into it.\<close>

definition parity_loaded :: "mmio \<Rightarrow> bytes \<Rightarrow> bytes" where
  "parity_loaded mm disk = copy_bytes (mm_chunks mm) (8192 + unat (io_offset (mm_bar mm))) disk
     (unat (io_sector_sta (mm_bar mm)) * 512) (unat (io_size (mm_bar mm)))"

definition chunks_summed :: "mmio \<Rightarrow> bytes \<Rightarrow> bytes" where
  "chunks_summed mm disk = xor_region (unat (io_offset (mm_bar mm))) (unat (io_size (mm_bar mm)))
     (parity_loaded mm disk)"

lemma stored_parity:
  assumes "request_ok mm"
  shows "copy_bytes disk (unat (io_sector_sta (mm_bar mm)) * 512) (chunks_summed mm disk)
      (8192 + unat (io_offset (mm_bar mm))) (unat (io_size (mm_bar mm))) = parity_updated mm disk"
proof
  fix a
  let ?s = "unat (io_sector_sta (mm_bar mm)) * 512" and ?o = "unat (io_offset (mm_bar mm))"
    and ?n = "unat (io_size (mm_bar mm))"
  show "copy_bytes disk ?s (chunks_summed mm disk) (8192 + ?o) ?n a = parity_updated mm disk a"
  proof (cases "?s \<le> a \<and> a < ?s + ?n")
    case True
    then obtain k where k: "a = ?s + k" "k < ?n" using le_Suc_ex by auto
    have "?o + k < 4096" using assms k(2) by (simp add: request_ok_def)
    with k show ?thesis
      by (simp add: copy_bytes_in parity_updated_def xor_into_def request_delta_def
          chunks_summed_def parity_loaded_def xor_region_def copy_bytes_def)
  next
    case False
    then show ?thesis by (auto simp: copy_bytes_def parity_updated_def xor_into_def)
  qed
qed

lemma clac_xor_single_steps:
  assumes "block_io Er" and "block_io Ew" and "blk_call_succeeds Er" and "blk_call_succeeds Ew"
    and "irq_layer_ok L" and "bar_pending (mm_bar mm)" and "request_ok mm"
  shows "pciev_dispatcher_clac_xor_single L Er Ew (d, mm, disk) =
    Some (Ret (irq_raised L d, (io_taken mm)\<lparr>mm_chunks := chunks_summed mm disk\<rparr>,
      parity_updated mm disk))"
proof -
  have r: "pciev_submit_bio Er 8192 (io_offset (mm_bar mm)) (io_size (mm_bar mm))
      (io_sector_sta (mm_bar mm)) REQ_OP_READ (mm_chunks mm) disk = (None, parity_loaded mm disk, disk)"
    using block_io.submit_read [OF assms(1,3)] by (simp add: parity_loaded_def)
  have x: "xor_loop (io_offset (mm_bar mm)) (io_size (mm_bar mm)) 0 (parity_loaded mm disk) =
      Some (chunks_summed mm disk)"
    unfolding chunks_summed_def using assms(7) by (intro xor_loop_range) (simp_all add: request_ok_def)
  have w: "pciev_submit_bio Ew 8192 (io_offset (mm_bar mm)) (io_size (mm_bar mm))
      (io_sector_sta (mm_bar mm)) REQ_OP_WRITE (chunks_summed mm disk) disk =
      (None, chunks_summed mm disk, parity_updated mm disk)"
    using block_io.submit_write [OF assms(2,4)] by (simp add: stored_parity [OF assms(7)])
  show ?thesis
    using assms(6) by (simp add: pciev_dispatcher_clac_xor_single_def bar_pending_def Let_def
        r x w pciev_signal_irq_ok [OF assms(5)] io_taken_def)
qed

text \<open>
  When a request is outstanding and nothing fails, one pass of the dispatcher updates the
  parity disk by exactly the requested range (old parity xor old data xor new data), counts
  the request as done, leaves the other registers alone and raises one interrupt.
\<close>

theorem clac_xor_single_ok:
  assumes "block_io Er" and "block_io Ew" and "blk_call_succeeds Er" and "blk_call_succeeds Ew"
    and "irq_layer_ok L" and "bar_pending (mm_bar mm)" and "request_ok mm"
  shows "pciev_dispatcher_clac_xor_single L Er Ew (d, mm, disk) =
    Some (Ret (irq_raised L d, (io_taken mm)\<lparr>mm_chunks := chunks_summed mm disk\<rparr>,
      parity_updated mm disk))"
  using assms by (rule clac_xor_single_steps)

theorem clac_xor_single_ok_witness:
  "let mm = \<lparr>mm_bar = \<lparr>dev_cnt = 3, io_offset = 0, io_size = 512, io_sector_sta = 7,
               io_num = 1, io_done = 0\<rparr>, mm_chunks = (\<lambda>a. of_nat (a div 4096))\<rparr>;
       d = \<lparr>d_old_bar = mm_bar mm, d_msix_enabled = True, d_sts_is = False, d_irqs = []\<rparr>;
       L = \<lparr>il_virq = (\<lambda>i. 40 + i), il_retrigger = True\<rparr>
   in pciev_dispatcher_clac_xor_single L ref_blk_call ref_blk_call (d, mm, \<lambda>_. 6) =
      Some (Ret (irq_raised L d, (io_taken mm)\<lparr>mm_chunks := chunks_summed mm (\<lambda>_. 6)\<rparr>,
        parity_updated mm (\<lambda>_. 6))) \<and>
      parity_updated mm (\<lambda>_. 6) 3584 = 7 \<and> parity_updated mm (\<lambda>_. 6) 4096 = 6"
  unfolding Let_def
  by (subst clac_xor_single_ok [OF ref_io.block_io_axioms ref_io.block_io_axioms
        ref_blk_call_succeeds ref_blk_call_succeeds])
     (simp_all add: irq_layer_ok_def bar_pending_def request_ok_def parity_updated_def
        xor_into_def request_delta_def)

text \<open>
  With no request outstanding (\<open>io_num\<close> not above \<open>io_done\<close>) a pass of the dispatcher
  changes nothing, whatever the disk and the interrupt layer would do.
\<close>

theorem clac_xor_single_idle:
  assumes "\<not> bar_pending (mm_bar mm)"
  shows "pciev_dispatcher_clac_xor_single L Er Ew (d, mm, disk) = Some (Ret (d, mm, disk))"
  using assms by (simp add: pciev_dispatcher_clac_xor_single_def bar_pending_def)

theorem clac_xor_single_idle_witness:
  "let mm = \<lparr>mm_bar = \<lparr>dev_cnt = 3, io_offset = 0, io_size = 512, io_sector_sta = 7,
               io_num = 4, io_done = 4\<rparr>, mm_chunks = (\<lambda>_. 0)\<rparr>;
       d = \<lparr>d_old_bar = mm_bar mm, d_msix_enabled = True, d_sts_is = False, d_irqs = []\<rparr>;
       L = \<lparr>il_virq = (\<lambda>i. 0), il_retrigger = False\<rparr>
   in pciev_dispatcher_clac_xor_single L failing_blk_call failing_blk_call (d, mm, \<lambda>_. 6) =
      Some (Ret (d, mm, \<lambda>_. 6))"
  unfolding Let_def by (rule clac_xor_single_idle) (simp add: bar_pending_def)

text \<open>
  When reading the old parity fails, the request is counted as done but neither the
  parity disk nor the calculation area changes and no interrupt is raised: whoever waits for
  the completion of the request waits for ever.
\<close>

theorem clac_xor_single_read_error:
  assumes "block_io Er" and "bar_pending (mm_bar mm)"
    and "fst (pciev_submit_bio Er (PAGE_SIZE * 2) (io_offset (mm_bar mm)) (io_size (mm_bar mm))
           (io_sector_sta (mm_bar mm)) REQ_OP_READ (mm_chunks mm) disk) = Some e"
  shows "pciev_dispatcher_clac_xor_single L Er Ew (d, mm, disk) = Some (Ret (d, io_taken mm, disk))"
proof -
  obtain m' d' where r: "pciev_submit_bio Er 8192 (io_offset (mm_bar mm)) (io_size (mm_bar mm))
      (io_sector_sta (mm_bar mm)) REQ_OP_READ (mm_chunks mm) disk = (Some e, m', d')"
    using assms(3) by (cases "pciev_submit_bio Er 8192 (io_offset (mm_bar mm)) (io_size (mm_bar mm))
      (io_sector_sta (mm_bar mm)) REQ_OP_READ (mm_chunks mm) disk") auto
  from block_io.failed_read [OF assms(1) r] have "m' = mm_chunks mm" "d' = disk" by simp_all
  with r assms(2) show ?thesis
    by (simp add: pciev_dispatcher_clac_xor_single_def bar_pending_def Let_def io_taken_def)
qed

interpretation failing_io: block_io failing_blk_call
  by unfold_locales (auto simp: failing_blk_call_def ref_blk_call_def)

theorem clac_xor_single_read_error_witness:
  "let mm = \<lparr>mm_bar = \<lparr>dev_cnt = 3, io_offset = 0, io_size = 512, io_sector_sta = 7,
               io_num = 1, io_done = 0\<rparr>, mm_chunks = (\<lambda>_. 0)\<rparr>;
       d = \<lparr>d_old_bar = mm_bar mm, d_msix_enabled = True, d_sts_is = False, d_irqs = []\<rparr>;
       L = \<lparr>il_virq = (\<lambda>i. 40 + i), il_retrigger = True\<rparr>
   in pciev_dispatcher_clac_xor_single L failing_blk_call ref_blk_call (d, mm, \<lambda>_. 6) =
      Some (Ret (d, io_taken mm, \<lambda>_. 6))"
  unfolding Let_def
  by (rule clac_xor_single_read_error [OF failing_io.block_io_axioms])
     (simp_all add: bar_pending_def pciev_submit_bio_def failing_blk_call_def ref_blk_call_def)

text \<open>
  The request counters are 32 bits wide and compared as they are: a request posted when
  \<open>io_num\<close> is at its maximum wraps the counter to zero, and once all earlier requests are
  done the dispatcher never sees it.
\<close>

theorem io_num_wrap_lost:
  assumes "io_num (mm_bar mm) = - 1" and "io_done (mm_bar mm) = - 1"
  shows "pciev_dispatcher_clac_xor_single L Er Ew
      (d, mm\<lparr>mm_bar := (mm_bar mm)\<lparr>io_num := io_num (mm_bar mm) + 1\<rparr>\<rparr>, disk) =
    Some (Ret (d, mm\<lparr>mm_bar := (mm_bar mm)\<lparr>io_num := 0\<rparr>\<rparr>, disk))"
  using assms by (simp add: pciev_dispatcher_clac_xor_single_def)

theorem io_num_wrap_lost_witness:
  "let b = \<lparr>dev_cnt = 3, io_offset = 0, io_size = 512, io_sector_sta = 7,
             io_num = - 1, io_done = - 1\<rparr>;
       mm = \<lparr>mm_bar = b, mm_chunks = (\<lambda>_. 0)\<rparr>;
       d = \<lparr>d_old_bar = b, d_msix_enabled = True, d_sts_is = False, d_irqs = []\<rparr>;
       L = \<lparr>il_virq = (\<lambda>i. 40 + i), il_retrigger = True\<rparr>
   in pciev_dispatcher_clac_xor_single L ref_blk_call ref_blk_call
        (d, mm\<lparr>mm_bar := b\<lparr>io_num := io_num b + 1\<rparr>\<rparr>, \<lambda>_. 6) =
      Some (Ret (d, mm\<lparr>mm_bar := b\<lparr>io_num := 0\<rparr>\<rparr>, \<lambda>_. 6))"
  using io_num_wrap_lost [of "\<lparr>mm_bar = \<lparr>dev_cnt = 3, io_offset = 0, io_size = 512,
      io_sector_sta = 7, io_num = - 1, io_done = - 1\<rparr>, mm_chunks = (\<lambda>_. 0)\<rparr>"]
  unfolding Let_def by simp

section \<open>The dispatcher\<close>

text \<open>
  The dispatcher thread: one pass per entry of the list (the kernel's answers for the read
  and the write of that pass) until it is told to stop.
\<close>

fun pciev_dispatcher :: "irq_layer \<Rightarrow> (blk_call \<times> blk_call) list \<Rightarrow> dev_state \<Rightarrow> dev_state outcome option" where
  "pciev_dispatcher L [] s = Some (Ret s)"
| "pciev_dispatcher L ((Er, Ew) # Es) (d, mm, disk) =
     bind_run (pciev_dispatcher_clac_xor_single L Er Ew (d, pciev_proc_bars d mm, disk))
       (pciev_dispatcher L Es)"

text \<open>
  The number of data disks in the registers is read-only for the host: polling the
  registers puts the device's own value back, changes no other register and no data, and a
  second poll changes nothing more.
\<close>

theorem pciev_proc_bars_restores:
  "mm_bar (pciev_proc_bars d mm) = (mm_bar mm)\<lparr>dev_cnt := dev_cnt (d_old_bar d)\<rparr> \<and>
   mm_chunks (pciev_proc_bars d mm) = mm_chunks mm \<and>
   pciev_proc_bars d (pciev_proc_bars d mm) = pciev_proc_bars d mm"
  by (simp add: pciev_proc_bars_def)

lemma proc_bars_fields [simp]:
  "io_num (mm_bar (pciev_proc_bars d mm)) = io_num (mm_bar mm)"
  "io_done (mm_bar (pciev_proc_bars d mm)) = io_done (mm_bar mm)"
  "io_offset (mm_bar (pciev_proc_bars d mm)) = io_offset (mm_bar mm)"
  "io_size (mm_bar (pciev_proc_bars d mm)) = io_size (mm_bar mm)"
  "io_sector_sta (mm_bar (pciev_proc_bars d mm)) = io_sector_sta (mm_bar mm)"
  "mm_chunks (pciev_proc_bars d mm) = mm_chunks mm"
  "dev_cnt (mm_bar (pciev_proc_bars d mm)) = dev_cnt (d_old_bar d)"
  "pciev_proc_bars d (pciev_proc_bars d mm) = pciev_proc_bars d mm"
  by (simp_all add: pciev_proc_bars_def)

lemma dispatcher_idle:
  "\<not> bar_pending (mm_bar mm) \<Longrightarrow> pciev_proc_bars d mm = mm \<Longrightarrow>
     pciev_dispatcher L Es (d, mm, disk) = Some (Ret (d, mm, disk))"
  by (induction Es)
     (auto simp: pciev_dispatcher_clac_xor_single_def bar_pending_def)

lemma proc_bars_irq_raised: "pciev_proc_bars (irq_raised L d) mm = pciev_proc_bars d mm"
  by (simp add: pciev_proc_bars_def irq_raised_def)

lemma request_ok_proc_bars [simp]: "request_ok (pciev_proc_bars d mm) = request_ok mm"
  by (simp add: request_ok_def)

lemma parity_updated_proc_bars [simp]: "parity_updated (pciev_proc_bars d mm) = parity_updated mm"
  by (simp add: parity_updated_def request_delta_def fun_eq_iff)

text \<open>
  C8: A posted request is processed exactly once: however many passes the dispatcher makes
  (at least one), it updates the parity once and raises one interrupt, and the counters agree
  afterwards.
\<close>

theorem dispatcher_exactly_once:
  assumes "block_io Er" and "block_io Ew" and "blk_call_succeeds Er" and "blk_call_succeeds Ew"
    and "irq_layer_ok L" and "request_ok mm"
    and "unat (io_num (mm_bar mm)) = unat (io_done (mm_bar mm)) + 1"
  shows "\<exists>mm'. pciev_dispatcher L ((Er, Ew) # Es) (d, mm, disk) =
      Some (Ret (irq_raised L d, mm', parity_updated mm disk)) \<and>
    io_num (mm_bar mm') = io_num (mm_bar mm) \<and> io_done (mm_bar mm') = io_num (mm_bar mm)"
proof -
  let ?mm = "pciev_proc_bars d mm"
  let ?mm' = "(io_taken ?mm)\<lparr>mm_chunks := chunks_summed ?mm disk\<rparr>"
  have pend: "bar_pending (mm_bar ?mm)"
    using assms(7) by (simp add: bar_pending_def word_le_nat_alt)
  have "unat (io_done (mm_bar mm) + 1) = unat (io_done (mm_bar mm)) + 1"
    using assms(7) unat_less [of "io_num (mm_bar mm)"] by (intro unat_inc) simp
  then have caught: "io_done (mm_bar mm) + 1 = io_num (mm_bar mm)"
    using assms(7) by (simp add: word_unat_eq_iff)
  have "\<not> bar_pending (mm_bar ?mm')" by (simp add: bar_pending_def io_taken_def caught)
  moreover have "pciev_proc_bars (irq_raised L d) ?mm' = ?mm'"
    by (simp add: proc_bars_irq_raised) (simp add: pciev_proc_bars_def io_taken_def)
  ultimately have "pciev_dispatcher L Es (irq_raised L d, ?mm', parity_updated mm disk) =
      Some (Ret (irq_raised L d, ?mm', parity_updated mm disk))" by (rule dispatcher_idle)
  moreover have "pciev_dispatcher_clac_xor_single L Er Ew (d, ?mm, disk) =
      Some (Ret (irq_raised L d, ?mm', parity_updated mm disk))"
  proof -
    have "request_ok ?mm" using assms(6) by simp
    note single = clac_xor_single_steps [OF assms(1-5) pend this, of d disk]
    then show ?thesis by simp
  qed
  ultimately have "pciev_dispatcher L ((Er, Ew) # Es) (d, mm, disk) =
      Some (Ret (irq_raised L d, ?mm', parity_updated mm disk))" by simp
  then show ?thesis by (rule exI [where x = ?mm', OF conjI]) (simp add: io_taken_def caught)
qed

theorem dispatcher_exactly_once_witness:
  "let b = \<lparr>dev_cnt = 3, io_offset = 0, io_size = 512, io_sector_sta = 7, io_num = 5, io_done = 4\<rparr>;
       mm = \<lparr>mm_bar = b, mm_chunks = (\<lambda>_. 0)\<rparr>;
       d = \<lparr>d_old_bar = b, d_msix_enabled = True, d_sts_is = False, d_irqs = []\<rparr>;
       L = \<lparr>il_virq = (\<lambda>i. 40 + i), il_retrigger = True\<rparr>
   in \<exists>mm'. pciev_dispatcher L [(ref_blk_call, ref_blk_call), (ref_blk_call, ref_blk_call), (failing_blk_call, ref_blk_call)] (d, mm, \<lambda>_. 6) =
        Some (Ret (irq_raised L d, mm', parity_updated mm (\<lambda>_. 6))) \<and>
      io_num (mm_bar mm') = 5 \<and> io_done (mm_bar mm') = 5"
  using dispatcher_exactly_once [OF ref_io.block_io_axioms ref_io.block_io_axioms
      ref_blk_call_succeeds ref_blk_call_succeeds,
      of "\<lparr>il_virq = (\<lambda>i. 40 + i), il_retrigger = True\<rparr>"
        "\<lparr>mm_bar = \<lparr>dev_cnt = 3, io_offset = 0, io_size = 512, io_sector_sta = 7, io_num = 5,
            io_done = 4\<rparr>, mm_chunks = (\<lambda>_. 0)\<rparr>"
        "[(ref_blk_call, ref_blk_call), (failing_blk_call, ref_blk_call)]"]
  by (simp add: irq_layer_ok_def request_ok_def Let_def del: pciev_dispatcher.simps)

section \<open>The same pass as separate steps\<close>

text \<open>
  Where the dispatcher thread can be between two of its accesses to the shared memory and to
  the disk. The steps below are the statements of \<open>pciev_dispatcher_clac_xor_single\<close> one by
  one; other threads run in between.
\<close>

datatype dev_pc = DevIdle | DevTaken | DevFetched u64 u64 | DevLoaded u64 u64
  | DevSummed u64 u64 | DevStored

fun dev_step :: "irq_layer \<Rightarrow> blk_call \<Rightarrow> dev_pc \<times> dev_state \<Rightarrow> (dev_pc \<times> dev_state) outcome option" where
  "dev_step L E (DevIdle, d, mm, disk) =
     (if io_num (mm_bar mm) \<le> io_done (mm_bar mm) then Some (Ret (DevIdle, d, mm, disk))
      else Some (Ret (DevTaken, d, mm\<lparr>mm_bar := (mm_bar mm)\<lparr>io_done := io_done (mm_bar mm) + 1\<rparr>\<rparr>, disk)))"
| "dev_step L E (DevTaken, d, mm, disk) =
     Some (Ret (DevFetched (io_offset (mm_bar mm)) (io_size (mm_bar mm)), d, mm, disk))"
| "dev_step L E (DevFetched toffset tsize, d, mm, disk) =
     (case pciev_submit_bio E (PAGE_SIZE * 2) toffset tsize (io_sector_sta (mm_bar mm))
             REQ_OP_READ (mm_chunks mm) disk of
        (Some e, m, disk) \<Rightarrow> Some (Ret (DevIdle, d, mm\<lparr>mm_chunks := m\<rparr>, disk))
      | (None, m, disk) \<Rightarrow> Some (Ret (DevLoaded toffset tsize, d, mm\<lparr>mm_chunks := m\<rparr>, disk)))"
| "dev_step L E (DevLoaded toffset tsize, d, mm, disk) =
     Option.bind (xor_loop toffset tsize 0 (mm_chunks mm))
       (\<lambda>m. Some (Ret (DevSummed toffset tsize, d, mm\<lparr>mm_chunks := m\<rparr>, disk)))"
| "dev_step L E (DevSummed toffset tsize, d, mm, disk) =
     (case pciev_submit_bio E (PAGE_SIZE * 2) toffset tsize (io_sector_sta (mm_bar mm))
             REQ_OP_WRITE (mm_chunks mm) disk of
        (Some e, m, disk) \<Rightarrow> Some (Ret (DevIdle, d, mm\<lparr>mm_chunks := m\<rparr>, disk))
      | (None, m, disk) \<Rightarrow> Some (Ret (DevStored, d, mm\<lparr>mm_chunks := m\<rparr>, disk)))"
| "dev_step L E (DevStored, d, mm, disk) =
     Some (bind_outcome (pciev_signal_irq L 0 d) (\<lambda>d. Ret (DevIdle, d, mm, disk)))"

text \<open>Steps until the thread is back at its loop.\<close>

fun dev_finish :: "irq_layer \<Rightarrow> blk_call list \<Rightarrow> dev_pc \<times> dev_state \<Rightarrow> (dev_pc \<times> dev_state) outcome option" where
  "dev_finish L [] c = Some (Ret c)"
| "dev_finish L (E # Es) c =
     (if fst c = DevIdle then Some (Ret c) else bind_run (dev_step L E c) (dev_finish L Es))"

definition dev_pass :: "irq_layer \<Rightarrow> blk_call \<Rightarrow> blk_call \<Rightarrow> dev_state \<Rightarrow> (dev_pc \<times> dev_state) outcome option" where
  "dev_pass L Er Ew s =
     bind_run (dev_step L Er (DevIdle, s)) (dev_finish L [Er, Er, Er, Ew, Ew])"

text \<open>
  C27: The separate steps, run without interruption, are the pass: the thread ends up back at
  its loop with the result of the whole handler, on every path, failures and crashes included.
\<close>

theorem dev_pass_is_single:
  "dev_pass L Er Ew s =
     bind_run (pciev_dispatcher_clac_xor_single L Er Ew s) (\<lambda>s. Some (Ret (DevIdle, s)))"
proof -
  obtain d mm disk where s: "s = (d, mm, disk)" by (cases s)
  let ?b = "mm_bar mm"
  obtain r m1 d1 where r: "pciev_submit_bio Er 8192 (io_offset ?b) (io_size ?b) (io_sector_sta ?b)
      REQ_OP_READ (mm_chunks mm) disk = (r, m1, d1)"
    by (cases "pciev_submit_bio Er 8192 (io_offset ?b) (io_size ?b) (io_sector_sta ?b)
      REQ_OP_READ (mm_chunks mm) disk") auto
  show ?thesis
  proof (cases "io_num ?b \<le> io_done ?b \<or> r \<noteq> None \<or>
      xor_loop (io_offset ?b) (io_size ?b) 0 m1 = None")
    case True
    then show ?thesis
      by (auto simp: s dev_pass_def pciev_dispatcher_clac_xor_single_def r split: option.splits)
  next
    case False
    then obtain m2 where m2: "xor_loop (io_offset ?b) (io_size ?b) 0 m1 = Some m2" and "r = None"
      by auto
    obtain w m3 d3 where w: "pciev_submit_bio Ew 8192 (io_offset ?b) (io_size ?b)
        (io_sector_sta ?b) REQ_OP_WRITE m2 d1 = (w, m3, d3)"
      by (cases "pciev_submit_bio Ew 8192 (io_offset ?b) (io_size ?b)
        (io_sector_sta ?b) REQ_OP_WRITE m2 d1") auto
    show ?thesis
      using False \<open>r = None\<close> by (cases w; cases "pciev_signal_irq L 0 d")
        (simp_all add: s dev_pass_def pciev_dispatcher_clac_xor_single_def r m2 w)
  qed
qed

section \<open>The two versions of the interrupt function\<close>

text \<open>
  What \<open>msi_get_virq\<close> answers for a list of descriptors: the interrupt of the first with the
  index, 0 if there is none.
\<close>

definition virq_of :: "msi_desc list \<Rightarrow> nat \<Rightarrow> nat" where
  "virq_of es i = (case find (\<lambda>e. msi_entry_nr e = i) es of None \<Rightarrow> 0 | Some e \<Rightarrow> msi_desc_irq e)"

lemma process_msi_irq_found:
  "find (\<lambda>e. msi_entry_nr e = i) es = Some e \<Longrightarrow>
     process_msi_irq_before_5_17 L es i d = signal_irq_raw L (MsiIrq (msi_desc_irq e)) d"
  by (induction es) (auto split: if_splits)

lemma process_msi_irq_missing:
  "find (\<lambda>e. msi_entry_nr e = i) es = None \<Longrightarrow> process_msi_irq_before_5_17 L es i d = Ret d"
  by (induction es) (auto split: if_splits)

text \<open>
  The two versions of \<open>__process_msi_irq\<close> raise the same interrupt when the descriptors have
  the index. When they do not, the newer one stops the kernel, and the older one goes on as
  if the interrupt had been raised: it is lost, and with it the semaphore it would release.
\<close>

theorem msi_versions_agree:
  assumes "\<forall>i. il_virq L i = virq_of es i" and "\<forall>e \<in> set es. msi_desc_irq e \<noteq> 0"
  shows "if \<exists>e \<in> set es. msi_entry_nr e = i
    then process_msi_irq_before_5_17 L es i d = process_msi_irq L i d
    else process_msi_irq L i d = Crash BugOn \<and> process_msi_irq_before_5_17 L es i d = Ret d"
proof (cases "find (\<lambda>e. msi_entry_nr e = i) es")
  case None
  then have "\<not> (\<exists>e \<in> set es. msi_entry_nr e = i)" by (auto simp: find_None_iff)
  moreover have "process_msi_irq L i d = Crash BugOn"
    using assms(1) None by (simp add: process_msi_irq_def virq_of_def)
  ultimately show ?thesis using process_msi_irq_missing [OF None] by simp
next
  case (Some e)
  then have e: "e \<in> set es" "msi_entry_nr e = i" by (auto simp: find_Some_iff)
  then have "il_virq L i = msi_desc_irq e" "msi_desc_irq e \<noteq> 0"
    using assms Some by (simp_all add: virq_of_def)
  then have "process_msi_irq L i d = signal_irq_raw L (MsiIrq (msi_desc_irq e)) d"
    by (simp add: process_msi_irq_def)
  with e show ?thesis using process_msi_irq_found [OF Some] by auto
qed

theorem msi_versions_agree_witness:
  "\<forall>d. process_msi_irq_before_5_17 \<lparr>il_virq = virq_of [\<lparr>msi_entry_nr = 0, msi_desc_irq = 41\<rparr>], il_retrigger = True\<rparr>
       [\<lparr>msi_entry_nr = 0, msi_desc_irq = 41\<rparr>] 1 d = Ret d \<and>
   process_msi_irq \<lparr>il_virq = virq_of [\<lparr>msi_entry_nr = 0, msi_desc_irq = 41\<rparr>], il_retrigger = True\<rparr> 1 d = Crash BugOn"
  using msi_versions_agree [of "\<lparr>il_virq = virq_of [\<lparr>msi_entry_nr = 0, msi_desc_irq = 41\<rparr>], il_retrigger = True\<rparr>"
      "[\<lparr>msi_entry_nr = 0, msi_desc_irq = 41\<rparr>]" 1] by simp

end
