(* ===== verification/Praid_Driver.thy ===== *)
theory Praid_Driver
  imports Praid_Bar
begin

text \<open>
  The PCIe driver at run time (\<open>pciedrv.c\<close>, \<open>pciedrv.h\<close>): building the read bio that
  fetches the old data, its completion handler that queues one verify task per segment and
  then submits the write, the worker that hands a task to the device, and the interrupt
  handler. Start-up and removal are in \<open>Praid_Startup\<close>.
\<close>

section \<open>State\<close>

record verify_work =
  w_page_new :: nat
  w_page_old :: nat
  w_num_sector :: sector
  w_offset :: u64
  w_size :: u64

text \<open>What has been handed to \<open>submit_bio\<close>: a bio of the upper layers or the driver's read bio.\<close>

datatype submission = SubmitHost host_bio | SubmitVerify verify_bio

text \<open>
  The pages, the number of kernel calls so far, the queued work items, the live work
  structures, the semaphore count, and, in order: the submitted bios, the bios put, the
  bios chained (child and parent) and the bios ended with an error.
\<close>

record drv =
  heap :: heap
  ticks :: nat
  workqueue :: "verify_work list"
  work_structs :: nat
  sem :: nat
  submitted :: "submission list"
  bio_puts :: "nat list"
  bio_chains :: "(nat \<times> nat) list"
  io_errors :: "nat list"

definition tick :: "drv \<Rightarrow> drv" where
  "tick st = st\<lparr>ticks := Suc (ticks st)\<rparr>"

definition alloc_page :: "kernel \<Rightarrow> drv \<Rightarrow> nat option \<times> drv" where
  "alloc_page K st = (case k_alloc_page K (ticks st) (heap st) of
       None \<Rightarrow> (None, tick st)
     | Some (p, c) \<Rightarrow> (Some p, (tick st)\<lparr>heap := (p, c) # heap st\<rparr>))"

text \<open>Freeing a page that is not allocated is a fault, and so is touching one.\<close>

definition free_page :: "nat \<Rightarrow> drv \<Rightarrow> drv outcome" where
  "free_page p st = (case map_of (heap st) p of
       None \<Rightarrow> Crash BadPointer
     | Some _ \<Rightarrow> Ret (st\<lparr>heap := heap_free p (heap st)\<rparr>))"

section \<open>Copying pages\<close>

definition copy_page_to_buffer ::
  "kernel \<Rightarrow> nat \<Rightarrow> nat \<Rightarrow> u64 \<Rightarrow> u64 \<Rightarrow> drv \<Rightarrow> bytes \<Rightarrow> (bool \<times> drv \<times> bytes) outcome" where
  "copy_page_to_buffer K page buffer offset nbytes st m =
     (if \<not> k_kmap K (ticks st) page then Ret (False, tick st, m)
      else case map_of (heap st) page of
        None \<Rightarrow> Crash BadPointer
      | Some data \<Rightarrow>
          Ret (True, tick st, copy_bytes m (buffer + unat offset) data (unat offset) (unat nbytes)))"

definition copy_page_to_page :: "kernel \<Rightarrow> nat \<Rightarrow> nat \<Rightarrow> drv \<Rightarrow> drv outcome" where
  "copy_page_to_page K to from st =
     (if \<not> k_kmap K (ticks st) to \<or> \<not> k_kmap K (Suc (ticks st)) from then Crash BadPointer
      else case (map_of (heap st) to, map_of (heap st) from) of
        (Some to_data, Some from_data) \<Rightarrow>
          Ret ((tick (tick st))\<lparr>heap := heap_write to (copy_bytes to_data 0 from_data 0 PAGE_SIZE) (heap st)\<rparr>)
      | _ \<Rightarrow> Crash BadPointer)"

section \<open>The worker\<close>

text \<open>
  Taking the semaphore: \<open>None\<close> while the caller sleeps, otherwise whether it was acquired
  (not when a signal broke off the sleep).
\<close>

definition down_interruptible :: "kernel \<Rightarrow> drv \<Rightarrow> (bool \<times> drv) option" where
  "down_interruptible K st =
     (if 0 < sem st then Some (True, (tick st)\<lparr>sem := sem st - 1\<rparr>)
      else if k_interrupted K (ticks st) then Some (False, tick st)
      else None)"

definition up :: "drv \<Rightarrow> drv" where
  "up st = st\<lparr>sem := Suc (sem st)\<rparr>"

text \<open>The part of the worker behind the semaphore.\<close>

definition verify_work_post :: "kernel \<Rightarrow> verify_work \<Rightarrow> drv \<times> mmio \<Rightarrow> (drv \<times> mmio) outcome" where
  "verify_work_post K w = (\<lambda>(st, mm).
     bind_outcome
       (bind_outcome (copy_page_to_buffer K (w_page_old w) (PTR_BAR_TO_CHUNK_O 0) (w_offset w) (w_size w) st (mm_chunks mm))
          (\<lambda>(ok, st, m). if ok then copy_page_to_buffer K (w_page_new w) (PTR_BAR_TO_CHUNK_N 0) (w_offset w) (w_size w) st m
                         else Ret (False, st, m)))
       (\<lambda>(ok, st, m).
          let st = (if ok then st else up st);
              mm = mm\<lparr>mm_chunks := m,
                      mm_bar := (mm_bar mm)\<lparr>io_offset := w_offset w, io_size := w_size w,
                         io_sector_sta := w_num_sector w, io_num := io_num (mm_bar mm) + 1\<rparr>\<rparr>
          in bind_outcome (free_page (w_page_new w) st)
               (\<lambda>st. bind_outcome (free_page (w_page_old w) st) (\<lambda>st. Ret (st, mm)))))"

definition do_verify_work :: "kernel \<Rightarrow> verify_work \<Rightarrow> drv \<times> mmio \<Rightarrow> (drv \<times> mmio) outcome option" where
  "do_verify_work K w = (\<lambda>(st, mm). case down_interruptible K st of
       None \<Rightarrow> None
     | Some (False, st) \<Rightarrow> Some (Ret (st, mm))
     | Some (True, st) \<Rightarrow> Some (verify_work_post K w (st, mm)))"

section \<open>Queueing a task\<close>

definition add_verify_task ::
  "kernel \<Rightarrow> nat \<Rightarrow> nat \<Rightarrow> sector \<Rightarrow> u64 \<Rightarrow> u64 \<Rightarrow> drv \<Rightarrow> (bool \<times> drv) outcome" where
  "add_verify_task K page_new page_old num_sector offset nbytes st =
     (if \<not> k_kmalloc K (ticks st) then Ret (False, tick st)
      else
        let st = (tick st)\<lparr>work_structs := Suc (work_structs st)\<rparr>;
            kfree = (\<lambda>st. st\<lparr>work_structs := work_structs st - 1\<rparr>)
        in case alloc_page K st of
          (None, st) \<Rightarrow> Ret (False, kfree st)
        | (Some pn, st) \<Rightarrow> (case alloc_page K st of
            (None, st) \<Rightarrow> bind_outcome (free_page pn st) (\<lambda>st. Ret (False, kfree st))
          | (Some po, st) \<Rightarrow>
              bind_outcome (copy_page_to_page K pn page_new st) (\<lambda>st.
              bind_outcome (copy_page_to_page K po page_old st) (\<lambda>st.
                if \<not> k_queue_work K (ticks st)
                then bind_outcome (free_page pn (tick st)) (\<lambda>st.
                     bind_outcome (free_page po st) (\<lambda>st. Ret (False, kfree st)))
                else Ret (True, (tick st)\<lparr>workqueue := workqueue st @
                       [\<lparr>w_page_new = pn, w_page_old = po, w_num_sector = num_sector,
                         w_offset = offset, w_size = nbytes\<rparr>]\<rparr>)))))"

section \<open>Completion of the read\<close>

text \<open>
  The loop of the completion handler, over both bios at once and from the write bio's
  iterator: \<open>None\<close> if it never ends. The result of \<open>add_verify_task\<close> is dropped.
\<close>

partial_function (option) endio_loop ::
  "kernel \<Rightarrow> bio_vec list \<Rightarrow> bio_vec list \<Rightarrow> bvec_iter \<Rightarrow> bvec_iter \<Rightarrow> sector \<Rightarrow> drv \<Rightarrow> drv outcome option"
where
  "endio_loop K v_old v_new iter_old iter_new pos_sector st =
     (if bi_size iter_old \<noteq> 0 \<and> bi_size iter_new \<noteq> 0 then
        (if bv_len (k_iovec K v_old iter_old) \<noteq> bv_len (k_iovec K v_new iter_new) \<or>
            bv_offset (k_iovec K v_old iter_old) \<noteq> bv_offset (k_iovec K v_new iter_new)
         then Some (Crash BugOn)
         else case add_verify_task K (bv_page (k_iovec K v_new iter_new)) (bv_page (k_iovec K v_old iter_old))
                     pos_sector (ucast (bv_offset (k_iovec K v_new iter_new)))
                     (ucast (bv_len (k_iovec K v_new iter_new))) st of
             Crash e \<Rightarrow> Some (Crash e)
           | Ret r \<Rightarrow>
               endio_loop K v_old v_new
                 (k_advance K v_old iter_old (bv_len (k_iovec K v_old iter_old)))
                 (k_advance K v_new iter_new (bv_len (k_iovec K v_new iter_new)))
                 (pos_sector + ucast (drop_bit KERNEL_SECTOR_SHIFT (bv_len (k_iovec K v_new iter_new))))
                 (snd r))
      else Some (Ret st))"

fun free_segments :: "bio_vec list \<Rightarrow> drv \<Rightarrow> drv outcome" where
  "free_segments [] st = Ret st"
| "free_segments (b # bs) st = bind_outcome (free_page (bv_page b) st) (free_segments bs)"

definition bio_put :: "nat \<Rightarrow> drv \<Rightarrow> drv" where
  "bio_put a st = st\<lparr>bio_puts := bio_puts st @ [a]\<rparr>"

definition pciev_read_bio_endio :: "kernel \<Rightarrow> verify_bio \<Rightarrow> drv \<Rightarrow> drv outcome option" where
  "pciev_read_bio_endio K bio_old st = (case bi_private bio_old of
       None \<Rightarrow> Some (Crash BadPointer)
     | Some bio_new \<Rightarrow>
         if bi_vcnt bio_old \<noteq> bi_vcnt bio_new then Some (Ret st)
         else bind_run
           (endio_loop K (bi_io_vec bio_old) (bi_io_vec bio_new) (bi_iter bio_new) (bi_iter bio_new)
              (bi_sector (bi_iter bio_new)) st)
           (\<lambda>st. Option.bind (bio_segments K (bi_io_vec bio_old) (bi_iter bio_old)) (\<lambda>segs.
              bind_run (Some (free_segments segs st)) (\<lambda>st.
                let st = bio_put (bi_addr bio_old) st
                in Some (Ret (st\<lparr>submitted := submitted st @ [SubmitHost bio_new]\<rparr>))))))"

section \<open>Building the read\<close>

text \<open>
  One page of its own for every segment of the write. \<open>None\<close> is the error return; what the
  code puts on its error paths is the write bio it was given.
\<close>

fun add_read_pages ::
  "kernel \<Rightarrow> nat \<Rightarrow> verify_bio \<Rightarrow> bio_vec list \<Rightarrow> drv \<Rightarrow> (verify_bio option \<times> drv) outcome" where
  "add_read_pages K addr n_bio [] st = Ret (Some n_bio, st)"
| "add_read_pages K addr n_bio (b # bs) st =
     (if PAGE_SIZE < unat (bv_len b) then Crash BugOn
      else case alloc_page K st of
        (None, st) \<Rightarrow> Ret (None, bio_put addr st)
      | (Some p, st) \<Rightarrow>
          (case k_bio_add_page K n_bio p (bv_len b) (bv_offset b) of (n, n_bio) \<Rightarrow>
             if n = 0 then bind_outcome (free_page p st) (\<lambda>st. Ret (None, bio_put addr st))
             else add_read_pages K addr n_bio bs st))"

definition pcievdrv_submit_verify ::
  "kernel \<Rightarrow> host_bio \<Rightarrow> drv \<Rightarrow> ((errno + verify_bio) \<times> drv) outcome option" where
  "pcievdrv_submit_verify K bio st = (case k_bio_alloc K (bi_vcnt bio) of
       None \<Rightarrow> Some (Crash BadPointer)
     | Some n_bio \<Rightarrow>
         let n_bio = n_bio\<lparr>bi_bdev := bi_bdev bio,
               bi_iter := (bi_iter n_bio)\<lparr>bi_sector := bi_sector (bi_iter bio)\<rparr>\<rparr>
         in Option.bind (bio_segments K (bi_io_vec bio) (bi_iter bio)) (\<lambda>segs.
              Some (bind_outcome (add_read_pages K (bi_addr bio) n_bio segs st) (\<lambda>(r, st).
                case r of
                  None \<Rightarrow> Ret (Inl EIO, st)
                | Some n_bio \<Rightarrow> Ret (Inr (n_bio\<lparr>bi_private := Some bio, bi_end_io := EndReadBio,
                                              bi_opf := REQ_OP_READ\<rparr>), st)))))"

section \<open>The interrupt\<close>

definition pcievdrv_interrupt :: "drv \<Rightarrow> drv" where
  "pcievdrv_interrupt st = up st"

section \<open>Facts about pages\<close>

definition kmap_total :: "kernel \<Rightarrow> bool" where
  "kmap_total K \<longleftrightarrow> (\<forall>t p. k_kmap K t p)"

text \<open>
  A kernel with memory to spare, that can map every page and queue every work, and no signals.
\<close>

definition kernel_live :: "kernel \<Rightarrow> bool" where
  "kernel_live K \<longleftrightarrow> kmap_total K \<and> (\<forall>t. k_kmalloc K t) \<and> (\<forall>t h. k_alloc_page K t h \<noteq> None) \<and>
     (\<forall>t. k_queue_work K t) \<and> (\<forall>t. \<not> k_interrupted K t)"

lemma kernel_liveD:
  assumes "kernel_live K"
  shows "kmap_total K" "k_kmap K t p" "k_kmalloc K t" "\<exists>p c. k_alloc_page K t h = Some (p, c)"
    "k_queue_work K t" "\<not> k_interrupted K t"
  using assms by (auto simp: kernel_live_def kmap_total_def)

lemma reference_kernel_live: "kernel_live reference_kernel"
  by (simp add: kernel_live_def kmap_total_def reference_kernel_def)

lemma reference_pages_apart: "pages_apart reference_kernel"
proof -
  have "fold max (map fst h) 0 + 2 \<noteq> Suc q" if "q \<in> fst ` set h" for q and h :: heap
    using fold_max_ge [of q "map fst h" 0] that by simp
  then show ?thesis by (simp add: pages_apart_def reference_kernel_def)
qed

text \<open>The bytes of a page, zero where there is none.\<close>

definition page_of :: "heap \<Rightarrow> nat \<Rightarrow> bytes" where
  "page_of h p = (case map_of h p of Some c \<Rightarrow> c | None \<Rightarrow> (\<lambda>_. 0))"

lemma page_of_Some [simp]: "map_of h p = Some c \<Longrightarrow> page_of h p = c"
  by (simp add: page_of_def)

lemma tick_simps [simp]:
  "heap (tick st) = heap st" "ticks (tick st) = Suc (ticks st)" "workqueue (tick st) = workqueue st"
  "work_structs (tick st) = work_structs st" "sem (tick st) = sem st"
  "submitted (tick st) = submitted st" "bio_puts (tick st) = bio_puts st"
  "bio_chains (tick st) = bio_chains st" "io_errors (tick st) = io_errors st"
  by (simp_all add: tick_def)

text \<open>The state apart from its pages, its clock and its queue.\<close>

definition same_io :: "drv \<Rightarrow> drv \<Rightarrow> bool" where
  "same_io st st' \<longleftrightarrow> sem st' = sem st \<and> submitted st' = submitted st \<and> bio_puts st' = bio_puts st \<and>
     bio_chains st' = bio_chains st \<and> io_errors st' = io_errors st"

lemma same_io_refl [simp]: "same_io st st"
  and same_io_trans: "same_io st st' \<Longrightarrow> same_io st' st'' \<Longrightarrow> same_io st st''"
  by (simp_all add: same_io_def)

text \<open>In addition the queue and the work structures are as before: only pages changed.\<close>

definition same_rest :: "drv \<Rightarrow> drv \<Rightarrow> bool" where
  "same_rest st st' \<longleftrightarrow> same_io st st' \<and> workqueue st' = workqueue st \<and>
     work_structs st' = work_structs st"

lemma same_rest_refl [simp]: "same_rest st st"
  and same_rest_tick [simp]: "same_rest st (tick st')  \<longleftrightarrow> same_rest st st'"
  and same_rest_trans: "same_rest st st' \<Longrightarrow> same_rest st' st'' \<Longrightarrow> same_rest st st''"
  by (auto simp: same_rest_def same_io_def)

lemma free_page_ok:
  assumes "map_of (heap st) p = Some c"
  obtains st' where "free_page p st = Ret st'" "map_of (heap st') = (map_of (heap st))(p := None)"
    "same_rest st st'"
proof
  show "free_page p st = Ret (st\<lparr>heap := heap_free p (heap st)\<rparr>)"
    using assms by (simp add: free_page_def)
qed (simp_all add: map_of_heap_free same_rest_def same_io_def)

lemma copy_page_to_page_ok:
  assumes "kmap_total K" and "map_of (heap st) to = Some c" and "map_of (heap st) from = Some d"
  obtains st' where "copy_page_to_page K to from st = Ret st'"
    "map_of (heap st') = (map_of (heap st))(to \<mapsto> copy_bytes c 0 d 0 PAGE_SIZE)" "same_rest st st'"
proof
  show "copy_page_to_page K to from st =
      Ret ((tick (tick st))\<lparr>heap := heap_write to (copy_bytes c 0 d 0 PAGE_SIZE) (heap st)\<rparr>)"
    using assms by (simp add: copy_page_to_page_def kmap_total_def)
qed (use assms in \<open>simp_all add: map_of_heap_write_Some same_rest_def same_io_def\<close>)

lemma alloc_page_cases:
  assumes "page_allocator K"
  obtains (none) st' where "alloc_page K st = (None, st')" "heap st' = heap st" "same_rest st st'"
      "\<not> kernel_live K"
  | (some) p c st' where "alloc_page K st = (Some p, st')" "map_of (heap st) p = None"
      "map_of (heap st') = (map_of (heap st))(p \<mapsto> c)" "same_rest st st'"
      "pages_apart K \<longrightarrow> Suc ` dom (map_of (heap st)) \<inter> {p} = {}"
proof (cases "k_alloc_page K (ticks st) (heap st)")
  case None
  then have "\<not> kernel_live K" using kernel_liveD(4) [of K "ticks st" "heap st"] by auto
  with None none [of "tick st"] show ?thesis by (simp add: alloc_page_def)
next
  case (Some r)
  then obtain p c where pc: "k_alloc_page K (ticks st) (heap st) = Some (p, c)" by (cases r) simp
  from page_allocator.alloc_fresh [OF assms this] have "map_of (heap st) p = None"
    by (simp add: map_of_eq_None_iff)
  moreover have "pages_apart K \<longrightarrow> Suc ` dom (map_of (heap st)) \<inter> {p} = {}"
    unfolding pages_apart_def dom_map_of_conv_image_fst using pc by blast
  ultimately show ?thesis using some [of p "(tick st)\<lparr>heap := (p, c) # heap st\<rparr>" c] pc
    by (simp add: alloc_page_def same_rest_def same_io_def)
qed

text \<open>The pages after the two pages of a task have been filled.\<close>

definition task_pages :: "nat \<Rightarrow> nat \<Rightarrow> bytes \<Rightarrow> bytes \<Rightarrow> (nat \<rightharpoonup> bytes) \<Rightarrow> (nat \<rightharpoonup> bytes) \<Rightarrow> bool" where
  "task_pages a b cn co m m' \<longleftrightarrow> a \<noteq> b \<and> a \<notin> dom m \<and> b \<notin> dom m \<and>
     (\<exists>dn d. m' = m(a \<mapsto> dn, b \<mapsto> d) \<and> (\<forall>i < PAGE_SIZE. dn i = cn i \<and> d i = co i))"

definition task_outcome ::
  "nat \<Rightarrow> nat \<Rightarrow> sector \<Rightarrow> u64 \<Rightarrow> u64 \<Rightarrow> drv \<Rightarrow> bool \<Rightarrow> drv \<Rightarrow> bool" where
  "task_outcome pn po sec off n st r st' \<longleftrightarrow> same_io st st' \<and>
     (if r then \<exists>a b. task_pages a b (page_of (heap st) pn) (page_of (heap st) po)
                     (map_of (heap st)) (map_of (heap st')) \<and>
           workqueue st' = workqueue st @ [\<lparr>w_page_new = a, w_page_old = b, w_num_sector = sec,
              w_offset = off, w_size = n\<rparr>] \<and> work_structs st' = Suc (work_structs st)
      else map_of (heap st') = map_of (heap st) \<and> workqueue st' = workqueue st \<and>
           work_structs st' = work_structs st)"

text \<open>Filling the two pages of a task, and giving them back.\<close>

lemma copy_both:
  assumes "kmap_total K" and "map_of (heap s) = m(a \<mapsto> ca, b \<mapsto> cb)" and "m pn = Some cn" and "m po = Some co"
    and "a \<noteq> b" and "a \<notin> dom m" and "b \<notin> dom m"
  obtains s' s'' dn d where "copy_page_to_page K a pn s = Ret s'" and "copy_page_to_page K b po s' = Ret s''"
    and "map_of (heap s'') = m(a \<mapsto> dn, b \<mapsto> d)" and "\<forall>i < PAGE_SIZE. dn i = cn i \<and> d i = co i"
    and "same_rest s s''"
proof -
  let ?dn = "copy_bytes ca 0 cn 0 PAGE_SIZE" and ?d = "copy_bytes cb 0 co 0 PAGE_SIZE"
  have ne: "pn \<noteq> a" "pn \<noteq> b" "po \<noteq> a" "po \<noteq> b" using assms(3,4,6,7) by auto
  have "map_of (heap s) a = Some ca" "map_of (heap s) pn = Some cn" using assms ne by simp_all
  from copy_page_to_page_ok [OF assms(1) this] obtain s1 where
    s1: "copy_page_to_page K a pn s = Ret s1" "map_of (heap s1) = (map_of (heap s))(a \<mapsto> ?dn)" "same_rest s s1" .
  have "map_of (heap s1) b = Some cb" "map_of (heap s1) po = Some co" using assms ne by (simp_all add: s1)
  from copy_page_to_page_ok [OF assms(1) this] obtain s2 where
    s2: "copy_page_to_page K b po s1 = Ret s2" "map_of (heap s2) = (map_of (heap s1))(b \<mapsto> ?d)" "same_rest s1 s2" .
  have "map_of (heap s2) = m(a \<mapsto> ?dn, b \<mapsto> ?d)" using assms(2,5) by (auto simp: s1 s2 fun_eq_iff)
  then show thesis
    by (rule that [OF s1(1) s2(1) _ _ same_rest_trans [OF s1(3) s2(3)]]) (simp add: copy_bytes_def)
qed

lemma free_both:
  assumes "map_of (heap s) = m(a \<mapsto> dn, b \<mapsto> d)" and "a \<noteq> b" and "a \<notin> dom m" and "b \<notin> dom m"
  obtains s' s'' where "free_page a s = Ret s'" and "free_page b s' = Ret s''" and "map_of (heap s'') = m" and "same_rest s s''"
proof -
  have "map_of (heap s) a = Some dn" using assms by simp
  then obtain s1 where s1: "free_page a s = Ret s1" "map_of (heap s1) = (map_of (heap s))(a := None)" "same_rest s s1"
    by (rule free_page_ok)
  have "map_of (heap s1) b = Some d" using assms by (simp add: s1)
  then obtain s2 where s2: "free_page b s1 = Ret s2" "map_of (heap s2) = (map_of (heap s1))(b := None)" "same_rest s1 s2"
    by (rule free_page_ok)
  have "map_of (heap s2) = m" using assms by (auto simp: s1 s2 fun_eq_iff)
  then show thesis by (rule that [OF s1(1) s2(1) _ same_rest_trans [OF s1(3) s2(3)]])
qed

lemma add_verify_task_outcome:
  assumes K: "page_allocator K" "kmap_total K"
    and cn: "map_of (heap st) pn = Some cn" and co: "map_of (heap st) po = Some co"
  shows "\<exists>r st'. add_verify_task K pn po sec off n st = Ret (r, st') \<and>
      task_outcome pn po sec off n st r st' \<and> (kernel_live K \<longrightarrow> r)"
proof (cases "k_kmalloc K (ticks st)")
  case False
  then show ?thesis by (auto simp: add_verify_task_def task_outcome_def same_io_def dest: kernel_liveD)
next
  case kmalloc: True
  define s where "s = (tick st)\<lparr>work_structs := Suc (work_structs st)\<rparr>"
  have s: "heap s = heap st" "work_structs s = Suc (work_structs st)"
    "workqueue s = workqueue st" "same_io st s" by (simp_all add: s_def same_io_def)
  note add = add_verify_task_def [of K pn po sec off n st, folded s_def] Let_def kmalloc
  from K(1) show ?thesis
  proof (cases rule: alloc_page_cases [where st = s])
    case (none t)
    then show ?thesis using s by (auto simp: add task_outcome_def same_rest_def same_io_def)
  next
    case a: (some a ca s1)
    from K(1) show ?thesis
    proof (cases rule: alloc_page_cases [where st = s1])
      case (none s2)
      have "map_of (heap s2) a = Some ca" using none a by simp
      then obtain s3 where "free_page a s2 = Ret s3"
        "map_of (heap s3) = (map_of (heap s2))(a := None)" "same_rest s2 s3" by (rule free_page_ok)
      then show ?thesis using s a none
        by (auto simp: add task_outcome_def same_rest_def same_io_def fun_upd_idem)
    next
      case b: (some b cb s2)
      have fresh: "a \<notin> dom (map_of (heap st))" "b \<notin> dom (map_of (heap st))" "a \<noteq> b"
        using a b s by (auto split: if_splits)
      have "map_of (heap s2) = (map_of (heap st))(a \<mapsto> ca, b \<mapsto> cb)" using a b s by simp
      from copy_both [OF K(2) this cn co fresh(3,1,2)] obtain s3 s4 dn d where
        c: "copy_page_to_page K a pn s2 = Ret s3" "copy_page_to_page K b po s3 = Ret s4"
          "map_of (heap s4) = (map_of (heap st))(a \<mapsto> dn, b \<mapsto> d)" "\<forall>i < PAGE_SIZE. dn i = cn i \<and> d i = co i"
          "same_rest s2 s4" .
      have rest: "same_rest s s4" by (meson a(4) b(4) c(5) same_rest_trans)
      note steps = add a(1) b(1) c(1,2)
      show ?thesis
      proof (cases "k_queue_work K (ticks s4)")
        case True
        have "task_pages a b cn co (map_of (heap st)) (map_of (heap s4))"
          unfolding c(3) task_pages_def using fresh c(4) by blast
        with True rest s show ?thesis
          by (auto simp: steps task_outcome_def same_rest_def same_io_def cn co)
      next
        case False
        have "map_of (heap (tick s4)) = (map_of (heap st))(a \<mapsto> dn, b \<mapsto> d)" by (simp add: c(3))
        from free_both [OF this fresh(3,1,2)] obtain s5 s6 where
          f: "free_page a (tick s4) = Ret s5" "free_page b s5 = Ret s6" "map_of (heap s6) = map_of (heap st)" "same_rest (tick s4) s6" .
        have "\<not> kernel_live K" using False by (auto dest: kernel_liveD)
        with False f(3,4) rest s show ?thesis
          by (auto simp: steps f(1,2) task_outcome_def same_rest_def same_io_def)
      qed
    qed
  qed
qed

text \<open>
  C12: Queueing a verify task is all or nothing. With mappable pages, \<open>add_verify_task\<close> never
  faults; when it reports success the queue has one more task, over two fresh pages that hold
  the 4096 bytes of the new and of the old page; when it reports failure, at whichever of its
  four allocations and calls, no page, no work structure and no task is left behind.
\<close>

theorem add_verify_task_all_or_nothing:
  assumes "page_allocator K" and "kmap_total K"
    and "map_of (heap st) page_new = Some cn" and "map_of (heap st) page_old = Some co"
  shows "\<exists>r st'. add_verify_task K page_new page_old sec off n st = Ret (r, st') \<and>
      task_outcome page_new page_old sec off n st r st'"
  using add_verify_task_outcome [OF assms, of sec off n] by blast

definition example_drv :: drv where
  "example_drv = \<lparr>heap = [(1, \<lambda>_. 5), (2, \<lambda>_. 9)], ticks = 0, workqueue = [], work_structs = 0,
     sem = 1, submitted = [], bio_puts = [], bio_chains = [], io_errors = []\<rparr>"

theorem add_verify_task_all_or_nothing_witness:
  "\<exists>r st'. add_verify_task (reference_kernel\<lparr>k_queue_work := (\<lambda>_. False)\<rparr>) 1 2 40 0 512 example_drv =
      Ret (r, st') \<and> task_outcome 1 2 40 0 512 example_drv r st'"
proof (rule add_verify_task_all_or_nothing)
  show "page_allocator (reference_kernel\<lparr>k_queue_work := (\<lambda>_. False)\<rparr>)"
    using ref.alloc_fresh by unfold_locales simp
  show "kmap_total (reference_kernel\<lparr>k_queue_work := (\<lambda>_. False)\<rparr>)"
    using reference_kernel_live by (simp add: kernel_live_def kmap_total_def)
qed (simp_all add: example_drv_def)

section \<open>Facts about the completion handler\<close>

definition same_shape :: "bio_vec \<Rightarrow> bio_vec \<Rightarrow> bool" where
  "same_shape a b \<longleftrightarrow> bv_len a = bv_len b \<and> bv_offset a = bv_offset b"

text \<open>The tasks of a completed read, one per pair of segments.\<close>

fun queue_tasks :: "kernel \<Rightarrow> (bio_vec \<times> bio_vec) list \<Rightarrow> sector \<Rightarrow> drv \<Rightarrow> drv outcome" where
  "queue_tasks K [] pos st = Ret st"
| "queue_tasks K ((old, new) # ps) pos st =
     (case add_verify_task K (bv_page new) (bv_page old) pos (ucast (bv_offset new))
             (ucast (bv_len new)) st of
        Crash e \<Rightarrow> Crash e
      | Ret r \<Rightarrow> queue_tasks K ps (pos + ucast (drop_bit KERNEL_SECTOR_SHIFT (bv_len new))) (snd r))"

lemma same_shape_bytes: "list_all2 same_shape v w \<Longrightarrow> vec_bytes v = vec_bytes w"
  by (induction rule: list_all2_induct) (simp_all add: same_shape_def)

lemma suffix_iter_shape:
  assumes "list_all2 same_shape v w" and "suffix_iter w it"
  shows "suffix_iter v it"
proof -
  have "vec_bytes (drop (unat (bi_idx it)) v) = vec_bytes (drop (unat (bi_idx it)) w)"
    by (rule same_shape_bytes) (use assms(1) in simp)
  with assms show ?thesis by (simp add: suffix_iter_def list_all2_lengthD)
qed

context bio_iterator
begin

lemma endio_loop_suffix:
  "vec_ok v \<Longrightarrow> vec_ok w \<Longrightarrow> list_all2 same_shape v w \<Longrightarrow> suffix_iter w it \<Longrightarrow>
     endio_loop K v w it it pos st =
     Some (queue_tasks K (drop (unat (bi_idx it)) (zip v w)) pos st)"
proof (induction "length w - unat (bi_idx it)" arbitrary: it pos st)
  case 0
  then have "length w = unat (bi_idx it)" "bi_size it = 0"
    by (auto simp: suffix_iter_def unat_eq_zero)
  then show ?case by (subst endio_loop.simps) simp
next
  case (Suc k)
  let ?i = "unat (bi_idx it)"
  have iw: "?i < length w" using Suc.hyps(2) by simp
  have iv: "?i < length v" using iw Suc.prems(3) by (simp add: list_all2_lengthD)
  have sh: "bv_len (v ! ?i) = bv_len (w ! ?i)" "bv_offset (v ! ?i) = bv_offset (w ! ?i)"
    using list_all2_nthD [OF Suc.prems(3) iv] by (simp_all add: same_shape_def)
  have sv: "suffix_iter v it" using Suc.prems(3,4) by (rule suffix_iter_shape)
  note kv = suffix_iter_kernel [OF Suc.prems(1) sv iv]
    and kw = suffix_iter_kernel [OF Suc.prems(2,4) iw]
    and fw = suffix_iter_step [OF Suc.prems(2,4) iw]
  let ?it = "iter_step w it (bv_len (w ! ?i))"
  have same: "iter_step v it (bv_len (w ! ?i)) = ?it" by (simp add: iter_step_def sh)
  have IH: "endio_loop K v w ?it ?it pos' st' = Some (queue_tasks K (drop (Suc ?i) (zip v w)) pos' st')"
    for pos' st'
    using Suc.hyps(1) [of ?it] Suc.hyps(2) Suc.prems(1-3) fw(4,5) by simp
  have dr: "drop ?i (zip v w) = (v ! ?i, w ! ?i) # drop (Suc ?i) (zip v w)"
    using iv iw by (simp add: Cons_nth_drop_Suc [symmetric])
  show ?case
    by (subst endio_loop.simps)
       (simp add: fw(2) kv kw sh same IH dr kv(2) [unfolded sh] split: outcome.split)
qed

lemma endio_loop_whole:
  assumes "whole_bio b" and "vec_ok v" and "list_all2 same_shape v (bi_io_vec b)"
  shows "endio_loop K v (bi_io_vec b) (bi_iter b) (bi_iter b) pos st =
    Some (queue_tasks K (zip v (bi_io_vec b)) pos st)"
  using endio_loop_suffix [of v "bi_io_vec b" "bi_iter b"] assms
  by (simp add: whole_bio_def suffix_iter_def)

end

text \<open>
  The queued tasks over a list of segment pairs: their sectors follow each other, and the
  pages they own hold, in the heap after, what the segments' pages held before.
\<close>

fun works_for :: "heap \<Rightarrow> heap \<Rightarrow> sector \<Rightarrow> (bio_vec \<times> bio_vec) list \<Rightarrow> verify_work list \<Rightarrow> bool" where
  "works_for h h' pos [] ws \<longleftrightarrow> ws = []"
| "works_for h h' pos (p # ps) [] \<longleftrightarrow> False"
| "works_for h h' pos ((old, new) # ps) (w # ws) \<longleftrightarrow>
     w_num_sector w = pos \<and> w_offset w = ucast (bv_offset new) \<and> w_size w = ucast (bv_len new) \<and>
     (\<forall>i < PAGE_SIZE. page_of h' (w_page_new w) i = page_of h (bv_page new) i \<and>
        page_of h' (w_page_old w) i = page_of h (bv_page old) i) \<and>
     works_for h h' (pos + ucast (drop_bit KERNEL_SECTOR_SHIFT (bv_len new))) ps ws"

definition work_pages :: "verify_work list \<Rightarrow> nat list" where
  "work_pages ws = concat (map (\<lambda>w. [w_page_new w, w_page_old w]) ws)"

lemma work_pages_simps [simp]:
  "work_pages [] = []" "work_pages (w # ws) = w_page_new w # w_page_old w # work_pages ws"
  "work_pages (ws @ vs) = work_pages ws @ work_pages vs"
  by (simp_all add: work_pages_def)

lemma page_of_map_le:
  "map_of h \<subseteq>\<^sub>m map_of h' \<Longrightarrow> p \<in> dom (map_of h) \<Longrightarrow> page_of h' p = page_of h p"
  by (auto simp: page_of_def map_le_def)

lemma works_for_mono:
  "works_for h h' pos ps ws \<Longrightarrow> map_of g \<subseteq>\<^sub>m map_of h \<Longrightarrow> map_of h' \<subseteq>\<^sub>m map_of g' \<Longrightarrow>
     set (work_pages ws) \<subseteq> dom (map_of h') \<Longrightarrow>
     (\<forall>(old, new) \<in> set ps. bv_page old \<in> dom (map_of g) \<and> bv_page new \<in> dom (map_of g)) \<Longrightarrow>
     works_for g g' pos ps ws"
  by (induction h h' pos ps ws rule: works_for.induct) (auto simp: page_of_map_le)

lemma queue_tasks_live:
  assumes K: "page_allocator K" "kernel_live K"
  shows "\<forall>(old, new) \<in> set ps. bv_page old \<in> dom (map_of (heap st)) \<and>
      bv_page new \<in> dom (map_of (heap st)) \<Longrightarrow>
    \<exists>st' ws. queue_tasks K ps pos st = Ret st' \<and> same_io st st' \<and>
      workqueue st' = workqueue st @ ws \<and> work_structs st' = work_structs st + length ws \<and>
      works_for (heap st) (heap st') pos ps ws \<and> map_of (heap st) \<subseteq>\<^sub>m map_of (heap st') \<and>
      dom (map_of (heap st')) = dom (map_of (heap st)) \<union> set (work_pages ws) \<and>
      distinct (work_pages ws) \<and> set (work_pages ws) \<inter> dom (map_of (heap st)) = {}"
proof (induction ps arbitrary: pos st)
  case Nil
  then show ?case by (auto intro!: exI [of _ "[]"])
next
  case (Cons p ps)
  obtain old new where p: "p = (old, new)" by (cases p)
  obtain cn co where c: "map_of (heap st) (bv_page new) = Some cn" "map_of (heap st) (bv_page old) = Some co"
    using Cons.prems by (auto simp: p)
  obtain st1 where st1: "add_verify_task K (bv_page new) (bv_page old) pos (ucast (bv_offset new))
      (ucast (bv_len new)) st = Ret (True, st1)"
    and out: "task_outcome (bv_page new) (bv_page old) pos (ucast (bv_offset new))
      (ucast (bv_len new)) st True st1"
    using add_verify_task_outcome [OF K(1) kernel_liveD(1) [OF K(2)] c] K(2) by fastforce
  from out obtain a b where ab: "task_pages a b cn co (map_of (heap st)) (map_of (heap st1))"
    and wq: "workqueue st1 = workqueue st @ [\<lparr>w_page_new = a, w_page_old = b, w_num_sector = pos,
        w_offset = ucast (bv_offset new), w_size = ucast (bv_len new)\<rparr>]"
    and ws1: "work_structs st1 = Suc (work_structs st)" and io1: "same_io st st1"
    using c by (auto simp: task_outcome_def)
  from ab obtain dn d where h1: "map_of (heap st1) = (map_of (heap st))(a \<mapsto> dn, b \<mapsto> d)"
    and dd: "\<forall>i < PAGE_SIZE. dn i = cn i \<and> d i = co i"
    and fresh: "a \<noteq> b" "a \<notin> dom (map_of (heap st))" "b \<notin> dom (map_of (heap st))"
    by (auto simp: task_pages_def)
  have le1: "map_of (heap st) \<subseteq>\<^sub>m map_of (heap st1)"
    using fresh by (auto simp: h1 map_le_def)
  have dom1: "dom (map_of (heap st1)) = insert b (insert a (dom (map_of (heap st))))"
    by (simp add: h1)
  have "\<forall>(old, new) \<in> set ps. bv_page old \<in> dom (map_of (heap st1)) \<and> bv_page new \<in> dom (map_of (heap st1))"
    using Cons.prems by (auto simp: dom1)
  from Cons.IH [OF this, of "pos + ucast (drop_bit KERNEL_SECTOR_SHIFT (bv_len new))"]
  obtain st' ws where IH: "queue_tasks K ps (pos + ucast (drop_bit KERNEL_SECTOR_SHIFT (bv_len new))) st1 = Ret st'"
    "same_io st1 st'" "workqueue st' = workqueue st1 @ ws"
    "work_structs st' = work_structs st1 + length ws"
    "works_for (heap st1) (heap st') (pos + ucast (drop_bit KERNEL_SECTOR_SHIFT (bv_len new))) ps ws"
    "map_of (heap st1) \<subseteq>\<^sub>m map_of (heap st')"
    "dom (map_of (heap st')) = dom (map_of (heap st1)) \<union> set (work_pages ws)"
    "distinct (work_pages ws)" "set (work_pages ws) \<inter> dom (map_of (heap st1)) = {}" by blast
  let ?w = "\<lparr>w_page_new = a, w_page_old = b, w_num_sector = pos,
        w_offset = ucast (bv_offset new), w_size = ucast (bv_len new)\<rparr>"
  have "works_for (heap st) (heap st') (pos + ucast (drop_bit KERNEL_SECTOR_SHIFT (bv_len new))) ps ws"
    using IH(5) le1 by (rule works_for_mono) (use Cons.prems IH(7) in \<open>auto simp: p\<close>)
  moreover have "page_of (heap st') a = dn" "page_of (heap st') b = d"
    using IH(6) fresh by (auto simp: page_of_map_le dom1) (simp_all add: page_of_def h1)
  ultimately have "works_for (heap st) (heap st') pos (p # ps) (?w # ws)"
    using dd c by (simp add: p)
  moreover have "queue_tasks K (p # ps) pos st = Ret st'" by (simp add: p st1 IH(1))
  moreover have "map_of (heap st) \<subseteq>\<^sub>m map_of (heap st')" using le1 IH(6) by (rule map_le_trans)
  moreover have "same_io st st'" using io1 IH(2) by (rule same_io_trans)
  ultimately show ?case
    using fresh IH(3,4,7-9) wq ws1 dom1
    by (intro exI [of _ st'] exI [of _ "?w # ws"]) (auto simp: dom_def)
qed

text \<open>
  A read bio that has completed, for a given write bio: the same vector shape, the write bio
  as its private data, and an iterator the driver below has run to its end.
\<close>

definition completed_read :: "verify_bio \<Rightarrow> host_bio \<Rightarrow> bool" where
  "completed_read r b \<longleftrightarrow> bi_private r = Some b \<and> vec_ok (bi_io_vec r) \<and>
     list_all2 same_shape (bi_io_vec r) (bi_io_vec b) \<and> bi_vcnt r = bi_vcnt b \<and>
     bi_size (bi_iter r) = 0"

definition pages_present :: "heap \<Rightarrow> bio_vec list \<Rightarrow> bool" where
  "pages_present h v \<longleftrightarrow> (\<forall>b \<in> set v. bv_page b \<in> dom (map_of h))"

lemma pages_present_zip:
  "pages_present h v \<Longrightarrow> pages_present h w \<Longrightarrow>
     \<forall>(old, new) \<in> set (zip v w). bv_page old \<in> dom (map_of h) \<and> bv_page new \<in> dom (map_of h)"
  by (auto simp: pages_present_def dest: set_zip_leftD set_zip_rightD)

lemma read_endio_live:
  assumes "kernel_contract K" and "kernel_live K"
    and "whole_bio b" and "completed_read r b"
    and "pages_present (heap st) (bi_io_vec r)" and "pages_present (heap st) (bi_io_vec b)"
  shows "\<exists>st' ws. pciev_read_bio_endio K r st = Some (Ret st') \<and>
    workqueue st' = workqueue st @ ws \<and>
    works_for (heap st) (heap st') (bi_sector (bi_iter b)) (zip (bi_io_vec r) (bi_io_vec b)) ws \<and>
    submitted st' = submitted st @ [SubmitHost b] \<and>
    map_of (heap st) \<subseteq>\<^sub>m map_of (heap st') \<and>
    dom (map_of (heap st')) = dom (map_of (heap st)) \<union> set (work_pages ws) \<and>
    distinct (work_pages ws) \<and> set (work_pages ws) \<inter> dom (map_of (heap st)) = {} \<and>
    same_io (st\<lparr>submitted := submitted st', bio_puts := bio_puts st'\<rparr>) st'"
proof -
  note C = kernel_contract.axioms [OF assms(1)]
  have r: "bi_private r = Some b" "bi_vcnt r = bi_vcnt b" "bi_size (bi_iter r) = 0"
    "vec_ok (bi_io_vec r)" "list_all2 same_shape (bi_io_vec r) (bi_io_vec b)"
    using assms(4) by (auto simp: completed_read_def)
  note loop = bio_iterator.endio_loop_whole [OF C(1) assms(3) r(4,5)]
  from queue_tasks_live [OF C(2) assms(2) pages_present_zip [OF assms(5,6)],
      of "bi_sector (bi_iter b)"]
  obtain st1 ws where st1: "queue_tasks K (zip (bi_io_vec r) (bi_io_vec b)) (bi_sector (bi_iter b)) st = Ret st1"
    and io: "same_io st st1" and rest: "workqueue st1 = workqueue st @ ws"
      "works_for (heap st) (heap st1) (bi_sector (bi_iter b)) (zip (bi_io_vec r) (bi_io_vec b)) ws"
      "map_of (heap st) \<subseteq>\<^sub>m map_of (heap st1)"
      "dom (map_of (heap st1)) = dom (map_of (heap st)) \<union> set (work_pages ws)"
      "distinct (work_pages ws)" "set (work_pages ws) \<inter> dom (map_of (heap st)) = {}" by blast
  let ?st' = "(bio_put (bi_addr r) st1)\<lparr>submitted := submitted st @ [SubmitHost b]\<rparr>"
  have "pciev_read_bio_endio K r st = Some (Ret ?st')"
    using io by (simp add: pciev_read_bio_endio_def r loop st1 same_io_def bio_put_def)
  then show ?thesis
    using rest io by (intro exI [of _ ?st'] exI [of _ ws]) (simp add: bio_put_def same_io_def)
qed

text \<open>
  C13: The completion handler of the read. For a write bio over its whole vector, and a kernel
  with memory to spare, it queues one task per segment, with consecutive sectors and with
  copies of the new and of the old data in pages of their own, and then submits the write bio
  itself, once. It frees nothing: the pages of the read bio stay allocated, because the loop
  that should free them starts from the completed bio's exhausted iterator.
\<close>

theorem read_bio_endio_queues_and_submits:
  assumes "kernel_contract K" and "kernel_live K"
    and "whole_bio b" and "completed_read r b"
    and "pages_present (heap st) (bi_io_vec r)" and "pages_present (heap st) (bi_io_vec b)"
  shows "\<exists>st' ws. pciev_read_bio_endio K r st = Some (Ret st') \<and>
    workqueue st' = workqueue st @ ws \<and>
    works_for (heap st) (heap st') (bi_sector (bi_iter b)) (zip (bi_io_vec r) (bi_io_vec b)) ws \<and>
    submitted st' = submitted st @ [SubmitHost b] \<and>
    map_of (heap st) \<subseteq>\<^sub>m map_of (heap st') \<and>
    dom (map_of (heap st')) = dom (map_of (heap st)) \<union> set (work_pages ws) \<and>
    distinct (work_pages ws) \<and> set (work_pages ws) \<inter> dom (map_of (heap st)) = {} \<and>
    sem st' = sem st"
  using read_endio_live [OF assms] by (auto simp: same_io_def)

definition example_write :: host_bio where
  "example_write = \<lparr>bi_addr = 70, bi_bdev = 1, bi_opf = REQ_OP_WRITE,
     bi_iter = \<lparr>bi_sector = 40, bi_size = 1536, bi_idx = 0, bi_bvec_done = 0\<rparr>,
     bi_vcnt = 1, bi_max_vecs = 1, bi_io_vec = [\<lparr>bv_page = 1, bv_len = 1536, bv_offset = 512\<rparr>],
     bi_private = Some 8, bi_end_io = EndCaller 9\<rparr>"

definition example_read :: verify_bio where
  "example_read = \<lparr>bi_addr = 71, bi_bdev = 1, bi_opf = REQ_OP_READ,
     bi_iter = \<lparr>bi_sector = 43, bi_size = 0, bi_idx = 1, bi_bvec_done = 0\<rparr>,
     bi_vcnt = 1, bi_max_vecs = 1, bi_io_vec = [\<lparr>bv_page = 2, bv_len = 1536, bv_offset = 512\<rparr>],
     bi_private = Some example_write, bi_end_io = EndReadBio\<rparr>"

lemma example_write_whole: "whole_bio example_write"
  by (simp add: whole_bio_def vec_ok_def in_page_def example_write_def)

theorem read_bio_endio_queues_and_submits_witness:
  "\<exists>st' ws. pciev_read_bio_endio reference_kernel example_read example_drv = Some (Ret st') \<and>
    workqueue st' = ws \<and>
    works_for (heap example_drv) (heap st') 40
      (zip (bi_io_vec example_read) (bi_io_vec example_write)) ws \<and>
    submitted st' = [SubmitHost example_write]"
proof -
  have "completed_read example_read example_write"
    by (simp add: completed_read_def example_read_def example_write_def vec_ok_def in_page_def same_shape_def)
  moreover have "pages_present (heap example_drv) (bi_io_vec example_read)"
    and "pages_present (heap example_drv) (bi_io_vec example_write)"
    by (simp_all add: pages_present_def example_drv_def example_read_def example_write_def)
  ultimately have "\<exists>st' ws. pciev_read_bio_endio reference_kernel example_read example_drv = Some (Ret st') \<and>
    workqueue st' = workqueue example_drv @ ws \<and>
    works_for (heap example_drv) (heap st') (bi_sector (bi_iter example_write))
      (zip (bi_io_vec example_read) (bi_io_vec example_write)) ws \<and>
    submitted st' = submitted example_drv @ [SubmitHost example_write]"
    using read_bio_endio_queues_and_submits [OF ref.kernel_contract_axioms reference_kernel_live
        example_write_whole] by blast
  then show ?thesis by (simp add: example_drv_def example_write_def)
qed

text \<open>
  If the read bio came out with a different number of vectors than the write bio, the
  completion handler gives up: the write bio is never submitted and never completed, no
  parity task is queued, and the read bio and its pages are kept for ever.
\<close>

theorem read_bio_endio_vcnt_mismatch:
  assumes "bi_private r = Some b" and "bi_vcnt r \<noteq> bi_vcnt b"
  shows "pciev_read_bio_endio K r st = Some (Ret st)"
  using assms by (simp add: pciev_read_bio_endio_def)

theorem read_bio_endio_vcnt_mismatch_witness:
  "pciev_read_bio_endio reference_kernel (example_read\<lparr>bi_vcnt := 2\<rparr>) example_drv =
     Some (Ret example_drv)"
  by (rule read_bio_endio_vcnt_mismatch [of _ example_write])
     (simp_all add: example_read_def example_write_def)

text \<open>
  The result of queueing a task is ignored. When no work structure can be allocated, the
  completion handler submits the write all the same, with no task in the queue: the data
  changes and its parity does not.
\<close>

theorem read_bio_endio_ignores_failure:
  assumes "kernel_contract K" and "\<forall>t. \<not> k_kmalloc K t"
    and "whole_bio b" and "completed_read r b"
  shows "\<exists>st'. pciev_read_bio_endio K r st = Some (Ret st') \<and> workqueue st' = workqueue st \<and>
    submitted st' = submitted st @ [SubmitHost b]"
proof -
  note C = kernel_contract.axioms [OF assms(1)]
  have r: "bi_private r = Some b" "bi_vcnt r = bi_vcnt b" "bi_size (bi_iter r) = 0"
    "vec_ok (bi_io_vec r)" "list_all2 same_shape (bi_io_vec r) (bi_io_vec b)"
    using assms(4) by (auto simp: completed_read_def)
  note loop = bio_iterator.endio_loop_whole [OF C(1) assms(3) r(4,5)]
  have "\<exists>st'. queue_tasks K ps pos st = Ret st' \<and> same_rest st st'" for ps pos st
  proof (induction ps arbitrary: pos st)
    case (Cons p ps)
    obtain old new where "p = (old, new)" by (cases p)
    moreover obtain st' where "queue_tasks K ps (pos + ucast (drop_bit KERNEL_SECTOR_SHIFT (bv_len (snd p)))) (tick st) = Ret st'"
      "same_rest (tick st) st'" using Cons.IH by blast
    ultimately show ?case using assms(2)
      by (auto simp: add_verify_task_def same_rest_def same_io_def)
  qed simp
  then obtain st1 where "queue_tasks K (zip (bi_io_vec r) (bi_io_vec b)) (bi_sector (bi_iter b)) st = Ret st1"
    "same_rest st st1" by blast
  then show ?thesis
    by (simp add: pciev_read_bio_endio_def r loop bio_put_def same_rest_def same_io_def)
qed

theorem read_bio_endio_ignores_failure_witness:
  "\<exists>st'. pciev_read_bio_endio (reference_kernel\<lparr>k_kmalloc := (\<lambda>_. False)\<rparr>) example_read example_drv =
      Some (Ret st') \<and> workqueue st' = workqueue example_drv \<and>
    submitted st' = submitted example_drv @ [SubmitHost example_write]"
proof (rule read_bio_endio_ignores_failure)
  show "kernel_contract (reference_kernel\<lparr>k_kmalloc := (\<lambda>_. False)\<rparr>)"
    by (rule kernel_contract_cong) simp_all
  show "completed_read example_read example_write"
    by (simp add: completed_read_def example_read_def example_write_def vec_ok_def in_page_def same_shape_def)
qed (simp_all add: example_write_whole)

section \<open>Facts about building the read\<close>

text \<open>
  A read bio under construction: what has been added so far for a prefix of the segments. No
  page is merged into the vector before it, if the pages are apart or there is no seam.
\<close>

definition seams_ok :: "kernel \<Rightarrow> bio_vec list \<Rightarrow> bio_vec list \<Rightarrow> bool" where
  "seams_ok K v bs \<longleftrightarrow> pages_apart K \<or>
     (seam_free bs \<and> (v \<noteq> [] \<longrightarrow> bs \<noteq> [] \<longrightarrow> \<not> seam (last v) (hd bs)))"

lemma add_read_pages_live:
  assumes K: "page_allocator K" "bio_builder K" "kernel_live K"
  shows "(\<forall>b \<in> set bs. in_page b) \<Longrightarrow> unat (bi_vcnt n) + length bs \<le> unat (bi_max_vecs n) \<Longrightarrow>
    \<forall>e \<in> set (bi_io_vec n). in_page e \<and> bv_page e \<in> dom (map_of (heap st)) \<Longrightarrow>
    seams_ok K (bi_io_vec n) bs \<Longrightarrow> unat (bi_size (bi_iter n)) + vec_bytes bs < 2 ^ 32 \<Longrightarrow>
    \<exists>st' v. add_read_pages K addr n bs st = Ret (Some (n\<lparr>bi_vcnt := bi_vcnt n + word_of_nat (length bs),
        bi_io_vec := bi_io_vec n @ v,
        bi_iter := (bi_iter n)\<lparr>bi_size := bi_size (bi_iter n) + word_of_nat (vec_bytes bs)\<rparr>\<rparr>), st') \<and>
      list_all2 same_shape v bs \<and> same_rest st st' \<and> map_of (heap st) \<subseteq>\<^sub>m map_of (heap st') \<and>
      dom (map_of (heap st')) = dom (map_of (heap st)) \<union> set (map bv_page v) \<and>
      distinct (map bv_page v) \<and> set (map bv_page v) \<inter> dom (map_of (heap st)) = {}"
proof (induction bs arbitrary: n st)
  case Nil
  have "n\<lparr>bi_iter := bi_iter n\<rparr> = n" for n :: verify_bio by simp
  then show ?case by (auto intro!: exI [of _ "[]"])
next
  case (Cons b bs)
  have b: "unat (bv_len b) \<le> PAGE_SIZE" "bv_len b \<noteq> 0" using Cons.prems(1) by (auto simp: in_page_def)
  have room: "bi_vcnt n < bi_max_vecs n" using Cons.prems(2) by (simp add: word_less_nat_alt)
  from K(1) show ?case
  proof (cases rule: alloc_page_cases [where st = st])
    case (none st')
    with K(3) show ?thesis by simp
  next
    case (some p c st1)
    let ?e = "\<lparr>bv_page = p, bv_len = bv_len b, bv_offset = bv_offset b\<rparr>"
    let ?n = "n\<lparr>bi_vcnt := bi_vcnt n + 1, bi_io_vec := bi_io_vec n @ [?e],
        bi_iter := (bi_iter n)\<lparr>bi_size := bi_size (bi_iter n) + bv_len b\<rparr>\<rparr>"
    have "in_page b" using Cons.prems(1) by simp
    moreover have "bi_io_vec n = [] \<or> (in_page (last (bi_io_vec n)) \<and>
        p \<noteq> bv_page (last (bi_io_vec n)) \<and> (p \<noteq> Suc (bv_page (last (bi_io_vec n))) \<or>
          \<not> seam (last (bi_io_vec n)) \<lparr>bv_page = p, bv_len = bv_len b, bv_offset = bv_offset b\<rparr>))"
    proof (cases "bi_io_vec n = []")
      case False
      then have "in_page (last (bi_io_vec n))" "bv_page (last (bi_io_vec n)) \<in> dom (map_of (heap st))"
        using Cons.prems(3) last_in_set by blast+
      moreover have "seam (last (bi_io_vec n)) \<lparr>bv_page = p, bv_len = bv_len b, bv_offset = bv_offset b\<rparr> =
          seam (last (bi_io_vec n)) b" by (simp add: seam_def)
      ultimately show ?thesis using some(2,5) Cons.prems(4) False unfolding seams_ok_def by auto
    qed simp
    ultimately have "\<not> mergeable n p (bv_offset b)"
      using not_mergeable [of n p "bv_len b" "bv_offset b"] by (simp add: in_page_def unat_gt_0 [symmetric])
    from bio_builder.add_page_room [OF K(2) this room] Cons.prems(5)
    have add: "k_bio_add_page K n p (bv_len b) (bv_offset b) = (bv_len b, ?n)" by simp
    have "unat (bi_vcnt n + 1) = unat (bi_vcnt n) + 1"
      using Cons.prems(2) unat_less [of "bi_max_vecs n"] by (intro unat_inc) simp
    then have "unat (bi_vcnt ?n) + length bs \<le> unat (bi_max_vecs ?n)" using Cons.prems(2) by simp
    moreover have "\<forall>e \<in> set (bi_io_vec ?n). in_page e \<and> bv_page e \<in> dom (map_of (heap st1))"
      using Cons.prems(1,3) some(3) by (auto simp: in_page_def)
    moreover have "seams_ok K (bi_io_vec ?n) bs"
      using Cons.prems(4) by (auto simp: seams_ok_def seam_free_Cons seam_def)
    moreover have "unat (bi_size (bi_iter ?n)) + vec_bytes bs < 2 ^ 32"
      using Cons.prems(5) by (simp add: unat_word_ariths)
    ultimately obtain st' v where IH:
      "add_read_pages K addr ?n bs st1 = Ret (Some (?n\<lparr>bi_vcnt := bi_vcnt ?n + word_of_nat (length bs),
        bi_io_vec := bi_io_vec ?n @ v,
        bi_iter := (bi_iter ?n)\<lparr>bi_size := bi_size (bi_iter ?n) + word_of_nat (vec_bytes bs)\<rparr>\<rparr>), st')"
      "list_all2 same_shape v bs" "same_rest st1 st'" "map_of (heap st1) \<subseteq>\<^sub>m map_of (heap st')"
      "dom (map_of (heap st')) = dom (map_of (heap st1)) \<union> set (map bv_page v)"
      "distinct (map bv_page v)" "set (map bv_page v) \<inter> dom (map_of (heap st1)) = {}"
      using Cons.IH [of ?n st1] Cons.prems(1) by auto
    have le1: "map_of (heap st) \<subseteq>\<^sub>m map_of (heap st1)" using some(2,3) by (auto simp: map_le_def)
    have "add_read_pages K addr n (b # bs) st = Ret (Some (n\<lparr>bi_vcnt := bi_vcnt n + word_of_nat (length (b # bs)),
        bi_io_vec := bi_io_vec n @ (?e # v),
        bi_iter := (bi_iter n)\<lparr>bi_size := bi_size (bi_iter n) + word_of_nat (vec_bytes (b # bs))\<rparr>\<rparr>), st')"
      using b by (simp add: some(1) add IH(1) add.assoc)
    moreover have "same_rest st st'" using some(4) IH(3) by (rule same_rest_trans)
    moreover have "map_of (heap st) \<subseteq>\<^sub>m map_of (heap st')" using le1 IH(4) by (rule map_le_trans)
    moreover have "list_all2 same_shape (?e # v) (b # bs)" using IH(2) by (simp add: same_shape_def)
    ultimately show ?thesis
      using IH(5-7) some(2,3) by (intro exI [of _ st'] exI [of _ "?e # v"]) (auto simp: dom_def)
  qed
qed

text \<open>A read bio made for a write bio and not yet submitted: it will read exactly its range.\<close>

definition read_for :: "verify_bio \<Rightarrow> host_bio \<Rightarrow> bool" where
  "read_for n b \<longleftrightarrow> bi_opf n = REQ_OP_READ \<and> bi_bdev n = bi_bdev b \<and> bi_private n = Some b \<and>
     bi_end_io n = EndReadBio \<and> bi_sector (bi_iter n) = bi_sector (bi_iter b) \<and>
     bi_size (bi_iter n) = bi_size (bi_iter b) \<and> bi_vcnt n = bi_vcnt b \<and>
     list_all2 same_shape (bi_io_vec n) (bi_io_vec b) \<and> whole_bio n"

lemma same_shape_in_page: "same_shape a b \<Longrightarrow> in_page b \<Longrightarrow> in_page a"
  by (simp add: same_shape_def in_page_def)

lemma list_all2_in_page:
  "list_all2 same_shape v w \<Longrightarrow> \<forall>b \<in> set w. in_page b \<Longrightarrow> \<forall>b \<in> set v. in_page b"
  by (induction rule: list_all2_induct) (auto intro: same_shape_in_page)

lemma submit_verify_live:
  assumes "kernel_contract K" and "kernel_live K" and "whole_bio b" and "unat (bi_vcnt b) \<le> 256"
    and "pages_apart K \<or> seam_free (bi_io_vec b)"
  shows "\<exists>n st'. pcievdrv_submit_verify K b st = Some (Ret (Inr n, st')) \<and> read_for n b \<and>
    same_rest st st' \<and> map_of (heap st) \<subseteq>\<^sub>m map_of (heap st') \<and>
    dom (map_of (heap st')) = dom (map_of (heap st)) \<union> set (map bv_page (bi_io_vec n)) \<and>
    distinct (map bv_page (bi_io_vec n)) \<and>
    set (map bv_page (bi_io_vec n)) \<inter> dom (map_of (heap st)) = {}"
proof -
  note C = kernel_contract.axioms [OF assms(1)]
  obtain n0 where n0: "k_bio_alloc K (bi_vcnt b) = Some n0"
    using bio_builder.bio_alloc_law [OF C(3) assms(4)] by blast
  note empty = bio_builder.bio_alloc_empty [OF C(3) n0]
  let ?n = "n0\<lparr>bi_bdev := bi_bdev b, bi_iter := (bi_iter n0)\<lparr>bi_sector := bi_sector (bi_iter b)\<rparr>\<rparr>"
  have wb: "\<forall>e \<in> set (bi_io_vec b). in_page e" "unat (bi_vcnt b) = length (bi_io_vec b)"
    "unat (bi_size (bi_iter b)) = vec_bytes (bi_io_vec b)" "length (bi_io_vec b) < 2 ^ 16"
    using assms(3) by (auto simp: whole_bio_def vec_ok_def)
  have "unat (bi_vcnt ?n) + length (bi_io_vec b) \<le> unat (bi_max_vecs ?n)"
    using empty wb(2) by (simp add: word_le_nat_alt)
  moreover have "\<forall>e \<in> set (bi_io_vec ?n). in_page e \<and> bv_page e \<in> dom (map_of (heap st))"
    using empty by simp
  moreover have "seams_ok K (bi_io_vec ?n) (bi_io_vec b)" using assms(5) empty by (auto simp: seams_ok_def)
  moreover have "unat (bi_size (bi_iter ?n)) + vec_bytes (bi_io_vec b) < 2 ^ 32"
    using empty wb(3) unat_less [of "bi_size (bi_iter b)"] by simp
  moreover note add_read_pages_live [OF C(2,3) assms(2) wb(1), of ?n st "bi_addr b"]
  ultimately
  obtain st' v where a: "add_read_pages K (bi_addr b) ?n (bi_io_vec b) st =
      Ret (Some (?n\<lparr>bi_vcnt := bi_vcnt ?n + word_of_nat (length (bi_io_vec b)),
        bi_io_vec := bi_io_vec ?n @ v,
        bi_iter := (bi_iter ?n)\<lparr>bi_size := bi_size (bi_iter ?n) + word_of_nat (vec_bytes (bi_io_vec b))\<rparr>\<rparr>), st')"
    and v: "list_all2 same_shape v (bi_io_vec b)" and rest: "same_rest st st'"
      "map_of (heap st) \<subseteq>\<^sub>m map_of (heap st')"
      "dom (map_of (heap st')) = dom (map_of (heap st)) \<union> set (map bv_page v)"
      "distinct (map bv_page v)" "set (map bv_page v) \<inter> dom (map_of (heap st)) = {}" by blast
  let ?r = "?n\<lparr>bi_vcnt := bi_vcnt b, bi_io_vec := v,
      bi_iter := (bi_iter ?n)\<lparr>bi_size := bi_size (bi_iter b)\<rparr>,
      bi_private := Some b, bi_end_io := EndReadBio, bi_opf := REQ_OP_READ\<rparr>"
  have "word_of_nat (length (bi_io_vec b)) = bi_vcnt b" "word_of_nat (vec_bytes (bi_io_vec b)) = bi_size (bi_iter b)"
    by (simp_all add: wb(2) [symmetric] wb(3) [symmetric])
  with a empty bio_iterator.bio_segments_whole [OF C(1) assms(3)]
  have "pcievdrv_submit_verify K b st = Some (Ret (Inr ?r, st'))"
    by (simp add: pcievdrv_submit_verify_def n0 Let_def)
  moreover have "read_for ?r b"
  proof -
    have "vec_ok v" using v wb(1,4) list_all2_in_page [OF v] by (simp add: vec_ok_def list_all2_lengthD)
    moreover have "vec_bytes v = vec_bytes (bi_io_vec b)" using v by (rule same_shape_bytes)
    moreover have "length v = length (bi_io_vec b)" using v by (rule list_all2_lengthD)
    ultimately show ?thesis using v empty wb by (simp add: read_for_def whole_bio_def)
  qed
  ultimately show ?thesis using rest by (intro exI [of _ ?r] exI [of _ st']) simp
qed

text \<open>
  For a write bio over its whole vector (at most 256 segments, with no seam unless the kernel
  keeps its pages apart) and a kernel with memory to spare, \<open>pcievdrv_submit_verify\<close> returns a read bio for the same disk, sector and segment
  layout, over fresh pages, that carries the write bio as its private data; nothing of the
  existing state changes.
\<close>

theorem submit_verify_builds_read:
  assumes "kernel_contract K" and "kernel_live K" and "whole_bio b" and "unat (bi_vcnt b) \<le> 256"
    and "pages_apart K \<or> seam_free (bi_io_vec b)"
  shows "\<exists>n st'. pcievdrv_submit_verify K b st = Some (Ret (Inr n, st')) \<and> read_for n b \<and>
    same_rest st st' \<and> map_of (heap st) \<subseteq>\<^sub>m map_of (heap st') \<and>
    dom (map_of (heap st')) = dom (map_of (heap st)) \<union> set (map bv_page (bi_io_vec n)) \<and>
    distinct (map bv_page (bi_io_vec n)) \<and>
    set (map bv_page (bi_io_vec n)) \<inter> dom (map_of (heap st)) = {}"
  by (rule submit_verify_live [OF assms])

theorem submit_verify_builds_read_witness:
  "\<exists>n st'. pcievdrv_submit_verify reference_kernel example_write example_drv = Some (Ret (Inr n, st')) \<and>
     read_for n example_write"
  using submit_verify_builds_read [OF ref.kernel_contract_axioms reference_kernel_live
      example_write_whole, of example_drv] by (auto simp: example_write_def)

lemma free_page_puts: "free_page p st = Ret st' \<Longrightarrow> bio_puts st' = bio_puts st"
  by (auto simp: free_page_def split: option.splits)

lemma alloc_page_puts: "alloc_page K st = (r, st') \<Longrightarrow> bio_puts st' = bio_puts st"
  by (auto simp: alloc_page_def split: option.splits prod.splits)

lemma add_read_pages_error:
  "add_read_pages K addr n bs st = Ret (None, st') \<Longrightarrow> bio_puts st' = bio_puts st @ [addr]"
proof (induction bs arbitrary: n st)
  case (Cons b bs)
  then show ?case
    by (auto simp: bio_put_def bind_outcome_Ret_iff dest!: alloc_page_puts free_page_puts
        split: if_splits option.splits prod.splits)
qed simp

text \<open>
  On its error path \<open>pcievdrv_submit_verify\<close> drops the reference of the bio it was given
  and not of the one it allocated: an error return always has put the caller's write bio,
  which the caller still uses.
\<close>

theorem submit_verify_error_puts_caller_bio:
  assumes "pcievdrv_submit_verify K b st = Some (Ret (Inl e, st'))"
  shows "e = EIO \<and> bio_puts st' = bio_puts st @ [bi_addr b]"
proof -
  obtain n segs where "add_read_pages K (bi_addr b) n segs st = Ret (None, st')" and "e = EIO"
    using assms by (auto simp: pcievdrv_submit_verify_def Let_def bind_outcome_Ret_iff bind_eq_Some_conv
        split: option.splits prod.splits)
  then show ?thesis using add_read_pages_error by blast
qed

theorem submit_verify_error_puts_caller_bio_witness:
  "\<exists>st'. pcievdrv_submit_verify (reference_kernel\<lparr>k_alloc_page := (\<lambda>_ _. None)\<rparr>) example_write example_drv =
      Some (Ret (Inl EIO, st')) \<and> bio_puts st' = [70]"
proof -
  let ?K = "reference_kernel\<lparr>k_alloc_page := (\<lambda>_ _. None)\<rparr>"
  have "bio_iterator ?K"
    using ref.iovec_law ref.advance_law ref.end_sector_law by unfold_locales simp_all
  from bio_iterator.bio_segments_whole [OF this example_write_whole]
  have "\<exists>st'. pcievdrv_submit_verify ?K example_write example_drv = Some (Ret (Inl EIO, st'))"
    by (simp add: pcievdrv_submit_verify_def alloc_page_def)
       (simp add: reference_kernel_def example_write_def alloc_page_def)
  then obtain st' where st': "pcievdrv_submit_verify ?K example_write example_drv = Some (Ret (Inl EIO, st'))"
    by blast
  have "bio_puts st' = bio_puts example_drv @ [bi_addr example_write]"
    using submit_verify_error_puts_caller_bio [OF st'] by simp
  then have "bio_puts st' = [70]" by (simp add: example_drv_def example_write_def)
  with st' show ?thesis by blast
qed

text \<open>
  C40: Two segments of a write, the first up to the end of its page and the second from the
  start of its page, are merged into one vector of the read bio when the two pages it gets
  are neighbours in memory. The read bio then has one vector, the write bio two, and however
  the read completes, the completion handler gives up: the write is lost.
\<close>

theorem adjacent_pages_lose_write:
  assumes "kernel_contract K" and "whole_bio b" and "bi_io_vec b = [s1, s2]"
    and "unat (bv_offset s1) + unat (bv_len s1) = PAGE_SIZE" and "bv_offset s2 = 0"
    and "k_alloc_page K (ticks st) (heap st) = Some (p, c1)"
    and "k_alloc_page K (Suc (ticks st)) ((p, c1) # heap st) = Some (Suc p, c2)"
  shows "\<exists>n st'. pcievdrv_submit_verify K b st = Some (Ret (Inr n, st')) \<and> bi_vcnt n = 1 \<and>
    (\<forall>it st. pciev_read_bio_endio K (n\<lparr>bi_iter := it\<rparr>) st = Some (Ret st))"
proof -
  note C = kernel_contract.axioms [OF assms(1)]
  have wb: "unat (bi_vcnt b) = 2" "in_page s1" "in_page s2"
    using assms(2,3) by (simp_all add: whole_bio_def vec_ok_def)
  have v: "bi_vcnt b = 2" using wb(1) by (simp add: word_unat_eq_iff)
  have len: "unat (bv_len s1) \<le> PAGE_SIZE" "bv_len s1 \<noteq> 0" "unat (bv_len s2) \<le> PAGE_SIZE" "bv_len s2 \<noteq> 0"
    using wb by (auto simp: in_page_def)
  obtain n0 where n0: "k_bio_alloc K 2 = Some n0"
    using bio_builder.bio_alloc_law [OF C(3), of 2] by auto
  note empty = bio_builder.bio_alloc_empty [OF C(3) n0]
  let ?n0 = "n0\<lparr>bi_bdev := bi_bdev b, bi_iter := (bi_iter n0)\<lparr>bi_sector := bi_sector (bi_iter b)\<rparr>\<rparr>"
  obtain n1 where n1: "n1 = ?n0\<lparr>bi_vcnt := 1,
      bi_io_vec := [\<lparr>bv_page = p, bv_len = bv_len s1, bv_offset = bv_offset s1\<rparr>],
      bi_iter := (bi_iter ?n0)\<lparr>bi_size := bv_len s1\<rparr>\<rparr>" by blast
  have "\<not> mergeable ?n0 p (bv_offset s1)" using empty by (simp add: mergeable_def)
  from bio_builder.add_page_room [OF C(3) this] empty unat_less [of "bv_len s1"]
  have a1: "k_bio_add_page K ?n0 p (bv_len s1) (bv_offset s1) = (bv_len s1, n1)"
    by (simp add: n1 word_less_nat_alt word_le_nat_alt)
  have m: "mergeable n1 (Suc p) 0" using assms(4) by (simp add: mergeable_def n1)
  have "unat (bi_size (bi_iter n1)) + unat (bv_len s2) < 2 ^ 32"
    using len by (simp add: PAGE_SIZE_def n1)
  from bio_builder.add_page_merge [OF C(3) m _ this]
  obtain n2 where a2: "k_bio_add_page K n1 (Suc p) (bv_len s2) 0 = (bv_len s2, n2)"
    and n2: "bi_vcnt n2 = 1" by (simp add: n1)
  from bio_iterator.bio_segments_whole [OF C(1) assms(2)]
  have "\<exists>st'. pcievdrv_submit_verify K b st =
      Some (Ret (Inr (n2\<lparr>bi_private := Some b, bi_end_io := EndReadBio, bi_opf := REQ_OP_READ\<rparr>), st'))"
    using len assms(3,5-7) by (simp add: pcievdrv_submit_verify_def v n0 alloc_page_def a1 a2)
  then show ?thesis using n2
    by (auto simp: pciev_read_bio_endio_def v intro!: exI)
qed

text \<open>A kernel that hands out neighbouring pages.\<close>

definition dense_kernel :: kernel where
  "dense_kernel = reference_kernel\<lparr>k_alloc_page := (\<lambda>t h. Some (Suc (fold max (map fst h) 0), \<lambda>_. 0))\<rparr>"

lemma dense_kernel_contract: "kernel_contract dense_kernel"
proof -
  have "page_allocator dense_kernel"
  proof
    show "p \<notin> fst ` set h" if "k_alloc_page dense_kernel t h = Some (p, c)" for t h p c
      using that fold_max_ge [of p "map fst h" 0] by (auto simp: dense_kernel_def)
  qed
  then show ?thesis
    using ref.kernel_contract_axioms
    unfolding kernel_contract_def bio_iterator_def bio_builder_def bio_splitter_def
    by (simp add: dense_kernel_def)
qed

definition example_write2 :: host_bio where
  "example_write2 = example_write\<lparr>bi_iter := \<lparr>bi_sector = 40, bi_size = 4096, bi_idx = 0, bi_bvec_done = 0\<rparr>,
     bi_vcnt := 2, bi_io_vec := [\<lparr>bv_page = 1, bv_len = 2048, bv_offset = 2048\<rparr>,
       \<lparr>bv_page = 2, bv_len = 2048, bv_offset = 0\<rparr>]\<rparr>"

theorem adjacent_pages_lose_write_witness:
  "\<exists>n st'. pcievdrv_submit_verify dense_kernel example_write2 example_drv = Some (Ret (Inr n, st')) \<and>
    bi_vcnt n = 1 \<and>
    (\<forall>it st. pciev_read_bio_endio dense_kernel (n\<lparr>bi_iter := it\<rparr>) st = Some (Ret st))"
  by (rule adjacent_pages_lose_write [OF dense_kernel_contract, where p = 3 and ?c1.0 = "\<lambda>_. 0"
        and ?c2.0 = "\<lambda>_. 0" and ?s1.0 = "\<lparr>bv_page = 1, bv_len = 2048, bv_offset = 2048\<rparr>"
        and ?s2.0 = "\<lparr>bv_page = 2, bv_len = 2048, bv_offset = 0\<rparr>"])
     (simp_all add: whole_bio_def vec_ok_def in_page_def example_write2_def example_drv_def dense_kernel_def)

section \<open>Facts about the worker\<close>

text \<open>The shared memory after a task has been handed to the device.\<close>

definition posted :: "mmio \<Rightarrow> verify_work \<Rightarrow> bytes \<Rightarrow> bytes \<Rightarrow> mmio" where
  "posted mm w co cn = mm\<lparr>
     mm_chunks := copy_bytes (copy_bytes (mm_chunks mm) (unat (w_offset w)) co (unat (w_offset w)) (unat (w_size w)))
                    (4096 + unat (w_offset w)) cn (unat (w_offset w)) (unat (w_size w)),
     mm_bar := (mm_bar mm)\<lparr>io_offset := w_offset w, io_size := w_size w,
                  io_sector_sta := w_num_sector w, io_num := io_num (mm_bar mm) + 1\<rparr>\<rparr>"

definition work_ok :: "verify_work \<Rightarrow> bool" where
  "work_ok w \<longleftrightarrow> unat (w_offset w) + unat (w_size w) \<le> PAGE_SIZE"

lemma posted_chunks:
  assumes "work_ok w" and "unat (w_offset w) \<le> i" and "i < unat (w_offset w) + unat (w_size w)"
  shows "mm_chunks (posted mm w co cn) i = co i" and "mm_chunks (posted mm w co cn) (4096 + i) = cn i"
  using assms by (auto simp: posted_def copy_bytes_def work_ok_def)

lemma verify_work_post_ok:
  assumes "kmap_total K" and "map_of (heap st) (w_page_new w) = Some cn"
    and "map_of (heap st) (w_page_old w) = Some co" and "w_page_new w \<noteq> w_page_old w"
  obtains st' where "verify_work_post K w (st, mm) = Ret (st', posted mm w co cn)"
    and "map_of (heap st') = (map_of (heap st))(w_page_new w := None, w_page_old w := None)"
    and "same_rest st st'"
proof -
  have new: "map_of (heap (tick (tick st))) (w_page_new w) = Some cn" using assms(2) by simp
  then obtain s1 where s1: "free_page (w_page_new w) (tick (tick st)) = Ret s1"
    "map_of (heap s1) = (map_of (heap (tick (tick st))))(w_page_new w := None)"
    "same_rest (tick (tick st)) s1" by (rule free_page_ok)
  have "map_of (heap s1) (w_page_old w) = Some co" using assms(3,4) s1(2) by simp
  then obtain s2 where s2: "free_page (w_page_old w) s1 = Ret s2"
    "map_of (heap s2) = (map_of (heap s1))(w_page_old w := None)" "same_rest s1 s2" by (rule free_page_ok)
  have "verify_work_post K w (st, mm) = Ret (s2, posted mm w co cn)"
    using assms(1-3) by (simp add: verify_work_post_def copy_page_to_buffer_def kmap_total_def
        chunk_ptr_defs s1(1) s2(1) posted_def Let_def)
  moreover have "same_rest st s2" using s1(3) s2(3) by (simp add: same_rest_def same_io_def)
  ultimately show ?thesis using that s1(2) s2(2) by simp
qed

text \<open>
  C14: A worker that gets the semaphore hands exactly its task to the device: it takes one unit
  of the semaphore, puts the old and the new bytes of the task's range into the calculation
  area, fills the three registers, counts one request more, and frees the two pages of the
  task and nothing else. The work structure itself is never freed.
\<close>

theorem do_verify_work_posts:
  assumes "kmap_total K" and "0 < sem st" and "work_ok w"
    and "map_of (heap st) (w_page_new w) = Some cn" and "map_of (heap st) (w_page_old w) = Some co"
    and "w_page_new w \<noteq> w_page_old w"
  shows "\<exists>st' mm'. do_verify_work K w (st, mm) = Some (Ret (st', mm')) \<and> sem st' = sem st - 1 \<and>
    map_of (heap st') = (map_of (heap st))(w_page_new w := None, w_page_old w := None) \<and>
    workqueue st' = workqueue st \<and> work_structs st' = work_structs st \<and>
    mm_bar mm' = (mm_bar mm)\<lparr>io_offset := w_offset w, io_size := w_size w,
      io_sector_sta := w_num_sector w, io_num := io_num (mm_bar mm) + 1\<rparr> \<and>
    (\<forall>i \<in> {unat (w_offset w)..<unat (w_offset w) + unat (w_size w)}.
      mm_chunks mm' i = co i \<and> mm_chunks mm' (4096 + i) = cn i)"
proof -
  let ?s = "(tick st)\<lparr>sem := sem st - 1\<rparr>"
  have "map_of (heap ?s) (w_page_new w) = Some cn" "map_of (heap ?s) (w_page_old w) = Some co"
    using assms(4,5) by simp_all
  from verify_work_post_ok [OF assms(1) this assms(6), of mm] obtain st' where
    st': "verify_work_post K w (?s, mm) = Ret (st', posted mm w co cn)"
      "map_of (heap st') = (map_of (heap ?s))(w_page_new w := None, w_page_old w := None)"
      "same_rest ?s st'" .
  have "do_verify_work K w (st, mm) = Some (Ret (st', posted mm w co cn))"
    using assms(2) st'(1) by (simp add: do_verify_work_def down_interruptible_def)
  then show ?thesis
    using st'(2,3) posted_chunks [OF assms(3), of _ mm co cn]
    by (intro exI [of _ st'] exI [of _ "posted mm w co cn"])
       (simp add: same_rest_def same_io_def, simp add: posted_def)
qed

definition example_work :: verify_work where
  "example_work = \<lparr>w_page_new = 1, w_page_old = 2, w_num_sector = 40, w_offset = 512, w_size = 1024\<rparr>"

definition example_mmio :: mmio where
  "example_mmio = \<lparr>mm_bar = \<lparr>dev_cnt = 3, io_offset = 0, io_size = 0, io_sector_sta = 0,
     io_num = 0, io_done = 0\<rparr>, mm_chunks = (\<lambda>_. 0)\<rparr>"

theorem do_verify_work_posts_witness:
  "\<exists>st' mm'. do_verify_work reference_kernel example_work (example_drv, example_mmio) =
      Some (Ret (st', mm')) \<and> sem st' = 0 \<and> io_num (mm_bar mm') = 1 \<and>
      mm_chunks mm' 600 = 9 \<and> mm_chunks mm' 4696 = 5"
proof -
  obtain st' mm' where r: "do_verify_work reference_kernel example_work (example_drv, example_mmio) =
      Some (Ret (st', mm'))" "sem st' = sem example_drv - 1"
    "mm_bar mm' = (mm_bar example_mmio)\<lparr>io_offset := w_offset example_work, io_size := w_size example_work,
      io_sector_sta := w_num_sector example_work, io_num := io_num (mm_bar example_mmio) + 1\<rparr>"
    and c: "\<forall>i \<in> {unat (w_offset example_work)..<unat (w_offset example_work) + unat (w_size example_work)}.
      mm_chunks mm' i = (\<lambda>_. 9) i \<and> mm_chunks mm' (4096 + i) = (\<lambda>_. 5) i"
    using do_verify_work_posts [of reference_kernel example_drv example_work "\<lambda>_. 5" "\<lambda>_. 9" example_mmio]
      kernel_liveD(1) [OF reference_kernel_live]
    by (auto simp: example_drv_def example_work_def work_ok_def)
  have "mm_chunks mm' 600 = 9" "mm_chunks mm' 4696 = 5"
    using bspec [OF c, of 600] by (simp_all add: example_work_def)
  with r show ?thesis by (auto simp: example_drv_def example_mmio_def)
qed

text \<open>
  When a page of the task cannot be mapped, the worker gives the semaphore back and posts
  the request all the same: the semaphore count is what it was although a request is now
  outstanding, so the next worker may overwrite the calculation area under the device. The
  calculation area holds none of the task's data.
\<close>

theorem do_verify_work_kmap_failure:
  assumes "0 < sem st" and "\<forall>t p. \<not> k_kmap K t p"
    and "map_of (heap st) (w_page_new w) = Some cn" and "map_of (heap st) (w_page_old w) = Some co"
    and "w_page_new w \<noteq> w_page_old w"
  shows "\<exists>st' mm'. do_verify_work K w (st, mm) = Some (Ret (st', mm')) \<and> sem st' = sem st \<and>
    io_num (mm_bar mm') = io_num (mm_bar mm) + 1 \<and> mm_chunks mm' = mm_chunks mm"
proof -
  let ?s = "up (tick ((tick st)\<lparr>sem := sem st - 1\<rparr>))"
  have "map_of (heap ?s) (w_page_new w) = Some cn" using assms(3) by (simp add: up_def)
  then obtain s1 where s1: "free_page (w_page_new w) ?s = Ret s1"
    "map_of (heap s1) = (map_of (heap ?s))(w_page_new w := None)" "same_rest ?s s1" by (rule free_page_ok)
  have "map_of (heap s1) (w_page_old w) = Some co" using assms(4,5) s1(2) by (simp add: up_def)
  then obtain s2 where s2: "free_page (w_page_old w) s1 = Ret s2"
    "map_of (heap s2) = (map_of (heap s1))(w_page_old w := None)" "same_rest s1 s2" by (rule free_page_ok)
  have "sem s2 = sem st" using s1(3) s2(3) assms(1) by (simp add: same_rest_def same_io_def up_def)
  then show ?thesis
    using assms(1,2) by (simp add: do_verify_work_def down_interruptible_def verify_work_post_def
        copy_page_to_buffer_def Let_def s1(1) [unfolded One_nat_def] s2(1))
qed

theorem do_verify_work_kmap_failure_witness:
  "\<exists>st' mm'. do_verify_work (reference_kernel\<lparr>k_kmap := (\<lambda>_ _. False)\<rparr>) example_work
      (example_drv, example_mmio) = Some (Ret (st', mm')) \<and> sem st' = sem example_drv \<and>
    io_num (mm_bar mm') = io_num (mm_bar example_mmio) + 1 \<and> mm_chunks mm' = mm_chunks example_mmio"
  by (rule do_verify_work_kmap_failure [of _ _ _ "\<lambda>_. 5" "\<lambda>_. 9"])
     (simp_all add: example_drv_def example_work_def)

text \<open>
  While the semaphore is taken a worker sleeps and changes nothing; if a signal breaks off
  the sleep it drops its task: no request is posted, no parity will be computed for the data
  already on its way, and the two pages of the task stay allocated.
\<close>

theorem do_verify_work_waits:
  assumes "sem st = 0"
  shows "do_verify_work K w (st, mm) = (if k_interrupted K (ticks st) then Some (Ret (tick st, mm)) else None)"
  using assms by (simp add: do_verify_work_def down_interruptible_def)

theorem do_verify_work_waits_witness:
  "do_verify_work reference_kernel example_work (example_drv\<lparr>sem := 0\<rparr>, example_mmio) = None"
  using do_verify_work_waits [of "example_drv\<lparr>sem := 0\<rparr>" reference_kernel example_work example_mmio]
  by (simp add: reference_kernel_def)

end
