(* ===== verification/Praid_Block.thy ===== *)
theory Praid_Block
  imports Praid_Layout Praid_Driver
begin

text \<open>
  The block device (\<open>block.c\<close>): requests to the array are cut at chunk boundaries, each
  piece is sent to its data disk, and a write piece goes through the driver's read first.
  The structures of \<open>praid.h\<close> are here because the block layer is their main user.
\<close>

section \<open>The structures of praid.h\<close>

record praid_config =
  nr_nvme_disks :: u32
  size_nvme_disk :: u64
  nvme_major :: u32
  nvme_minor_verify :: u32
  nvme_minor :: "u32 list"

text \<open>Block devices are named by their addresses; \<open>bdev\<close> is the array of 32 pointers.\<close>

record praid_dev =
  config :: praid_config
  dev_size :: u64
  disk_cnt :: u32
  bdev :: "nat list"
  bdev_verify :: nat

section \<open>Submitting a bio\<close>

text \<open>
  From the label \<open>bio_submit\<close> on, for one piece that starts at array sector \<open>sta_sector\<close>:
  \<open>parent\<close> is the bio the piece is chained to when it was split off. An error pointer from
  the driver is passed to \<open>submit_bio\<close> unchecked.
\<close>

definition place_part :: "praid_dev \<Rightarrow> sector \<Rightarrow> host_bio \<Rightarrow> host_bio" where
  "place_part D sta_sector tar =
     tar\<lparr>bi_iter := (bi_iter tar)\<lparr>bi_sector := sector_whole_to_i sta_sector (disk_cnt D)\<rparr>,
         bi_bdev := bdev D ! unat (ucast (device_num (chunk_num sta_sector) (disk_cnt D)) :: u32)\<rparr>"

definition chain_part :: "nat option \<Rightarrow> host_bio \<times> drv \<Rightarrow> host_bio \<times> drv" where
  "chain_part parent = (\<lambda>(tar, st). case parent of
       None \<Rightarrow> (tar, st)
     | Some p \<Rightarrow> (tar\<lparr>bi_private := Some p, bi_end_io := EndChain\<rparr>,
                  st\<lparr>bio_chains := bio_chains st @ [(bi_addr tar, p)]\<rparr>))"

definition submit_part ::
  "kernel \<Rightarrow> praid_dev \<Rightarrow> sector \<Rightarrow> host_bio \<Rightarrow> nat option \<Rightarrow> drv \<Rightarrow> drv outcome option" where
  "submit_part K D sta_sector tar parent st =
     (if disk_cnt D = 0 then Some (Crash DivideError)
      else if length (bdev D) \<le> unat (ucast (device_num (chunk_num sta_sector) (disk_cnt D)) :: u32)
      then Some (Crash BadPointer)
      else case chain_part parent (place_part D sta_sector tar, st) of (tar, st) \<Rightarrow>
        if bi_opf tar = REQ_OP_WRITE
        then bind_run (pcievdrv_submit_verify K tar st) (\<lambda>(r, st). case r of
               Inl e \<Rightarrow> Some (Crash BadPointer)
             | Inr n_bio \<Rightarrow> Some (Ret (st\<lparr>submitted := submitted st @ [SubmitVerify n_bio]\<rparr>)))
        else Some (Ret (st\<lparr>submitted := submitted st @ [SubmitHost tar]\<rparr>)))"

text \<open>The loop over the label \<open>bio_split\<close>; \<open>None\<close> if it never ends.\<close>

partial_function (option) vpciedisk_submit_bio ::
  "kernel \<Rightarrow> praid_dev \<Rightarrow> host_bio \<Rightarrow> drv \<Rightarrow> drv outcome option" where
  "vpciedisk_submit_bio K D bio st =
     (let sta_sector = bi_sector (bi_iter bio);
          end_sector = chunk_end_sector sta_sector
      in if k_end_sector K (bi_iter bio) \<le> end_sector + 1
         then submit_part K D sta_sector bio None st
         else case k_split K bio (end_sector - sta_sector + 1) of
           None \<Rightarrow> Some (Ret (st\<lparr>io_errors := io_errors st @ [bi_addr bio]\<rparr>))
         | Some (child_bio, rest) \<Rightarrow>
             (case submit_part K D sta_sector (child_bio\<lparr>bi_private := None, bi_end_io := EndNull\<rparr>)
                     (Some (bi_addr rest)) st of
                None \<Rightarrow> None
              | Some (Crash e) \<Rightarrow> Some (Crash e)
              | Some (Ret st) \<Rightarrow> vpciedisk_submit_bio K D rest st))"

section \<open>Geometry\<close>

record hd_geometry =
  heads :: u8
  sectors :: u8
  cylinders :: u16
  start :: u64

text \<open>The cylinder count is stored in 16 bits.\<close>

definition vpciedisk_getgeo :: "praid_dev \<Rightarrow> hd_geometry" where
  "vpciedisk_getgeo D = \<lparr>heads = 4, sectors = 16, cylinders = ucast (drop_bit 6 (dev_size D)), start = 4\<rparr>"

section \<open>The pieces of a request\<close>

type_synonym part = "sector \<times> host_bio \<times> nat option"

fun run_parts :: "kernel \<Rightarrow> praid_dev \<Rightarrow> part list \<Rightarrow> drv \<Rightarrow> drv outcome option" where
  "run_parts K D [] st = Some (Ret st)"
| "run_parts K D ((sta, tar, parent) # ps) st =
     bind_run (submit_part K D sta tar parent st) (run_parts K D ps)"

lemma run_parts_single: "run_parts K D [(sta, tar, parent)] st = submit_part K D sta tar parent st"
  by (simp add: bind_run_case split: option.split outcome.split)

text \<open>A piece lies inside one chunk of the array and belongs to the request.\<close>

definition part_of :: "host_bio \<Rightarrow> part \<Rightarrow> bool" where
  "part_of b = (\<lambda>(sta, tar, parent). bi_opf tar = bi_opf b \<and> bio_ok tar \<and>
     bi_sector (bi_iter tar) = sta \<and> bi_io_vec tar = bi_io_vec b \<and>
     0 < unat (bi_size (bi_iter tar)) \<and>
     unat sta * 512 + unat (bi_size (bi_iter tar)) \<le> (unat (chunk_end_sector sta) + 1) * 512)"

text \<open>Where byte \<open>a\<close> of the array lives: a block device and a byte on it.\<close>

definition place :: "praid_dev \<Rightarrow> nat \<Rightarrow> nat \<times> nat" where
  "place D a = (let s = word_of_nat (a div 512) in
     (bdev D ! unat (device_num (chunk_num s) (disk_cnt D)),
      unat (sector_whole_to_i s (disk_cnt D)) * 512 + a mod 512))"

text \<open>What a bio transfers: memory bytes paired with bytes of its block device.\<close>

definition bio_transfer :: "host_bio \<Rightarrow> ((nat \<times> nat) \<times> (nat \<times> nat)) list" where
  "bio_transfer b = zip (bio_cells b)
     (map (\<lambda>j. (bi_bdev b, unat (bi_sector (bi_iter b)) * 512 + j)) [0..<unat (bi_size (bi_iter b))])"

definition part_transfer :: "praid_dev \<Rightarrow> part \<Rightarrow> ((nat \<times> nat) \<times> (nat \<times> nat)) list" where
  "part_transfer D = (\<lambda>(sta, tar, parent). bio_transfer (place_part D sta tar))"

text \<open>What a request asks for: its memory bytes paired with the places of its array bytes.\<close>

definition request_transfer :: "praid_dev \<Rightarrow> host_bio \<Rightarrow> ((nat \<times> nat) \<times> (nat \<times> nat)) list" where
  "request_transfer D b = zip (bio_cells b)
     (map (\<lambda>j. place D (unat (bi_sector (bi_iter b)) * 512 + j)) [0..<unat (bi_size (bi_iter b))])"

lemma length_bio_cells: "bio_ok b \<Longrightarrow> length (bio_cells b) = unat (bi_size (bi_iter b))"
  by (auto simp: bio_ok_def bio_cells_def length_vec_cells min_def)

lemma bio_cells_place [simp]: "bio_cells (place_part D s b) = bio_cells b"
  by (simp add: place_part_def bio_cells_def iter_pos_def)

lemma cleared_child:
  "bio_ok (b\<lparr>bi_private := x, bi_end_io := y\<rparr>) = bio_ok b"
  "bio_cells (b\<lparr>bi_private := x, bi_end_io := y\<rparr>) = bio_cells b"
  by (simp_all add: bio_ok_def bio_cells_def)

lemma unat_devi:
  "disk_cnt D \<noteq> 0 \<Longrightarrow> unat (ucast (device_num (chunk_num s) (disk_cnt D)) :: u32) =
     unat (device_num (chunk_num s) (disk_cnt D))"
  using raid4.dev_less [of "disk_cnt D" s] unat_less [of "disk_cnt D"]
  by (intro unat_ucast_64_32_small) simp

text \<open>Inside one chunk the places of the array bytes follow each other on one disk.\<close>

lemma place_in_chunk:
  assumes "unat sta * 512 + j < (unat (chunk_end_sector sta) + 1) * 512"
  shows "place D (unat sta * 512 + j) =
    (bdev D ! unat (device_num (chunk_num sta) (disk_cnt D)),
     unat (sector_whole_to_i sta (disk_cnt D)) * 512 + j)"
proof -
  let ?k = "j div 512"
  have k: "(unat sta * 512 + j) div 512 = unat sta + ?k" "(unat sta * 512 + j) mod 512 = j mod 512"
    by simp_all
  have "unat sta + ?k < unat (chunk_end_sector sta) + 1"
    using less_mult_imp_div_less [OF assms] by (simp only: k)
  then have le: "unat sta + ?k \<le> unat (chunk_end_sector sta)" by simp
  have w: "(word_of_nat (unat sta + ?k) :: sector) = sta + word_of_nat ?k" by simp
  note run = raid4.same_chunk [OF le, of "disk_cnt D"]
  have "j = ?k * 512 + j mod 512" by simp
  then have "(unat (sector_whole_to_i sta (disk_cnt D)) + ?k) * 512 + j mod 512 =
      unat (sector_whole_to_i sta (disk_cnt D)) * 512 + j" by (simp add: distrib_right)
  then show ?thesis using run by (simp only: place_def Let_def k w)
qed

lemma part_transfer_eq:
  assumes "disk_cnt D \<noteq> 0" and "part_of b (sta, tar, parent)"
  shows "part_transfer D (sta, tar, parent) = zip (bio_cells tar)
    (map (\<lambda>j. place D (unat sta * 512 + j)) [0..<unat (bi_size (bi_iter tar))])"
proof -
  have "map (\<lambda>j. (bi_bdev (place_part D sta tar),
        unat (bi_sector (bi_iter (place_part D sta tar))) * 512 + j)) [0..<unat (bi_size (bi_iter tar))] =
      map (\<lambda>j. place D (unat sta * 512 + j)) [0..<unat (bi_size (bi_iter tar))]"
    using assms(2) by (intro map_cong refl)
      (simp add: place_in_chunk part_of_def, simp add: place_part_def unat_devi [OF assms(1)])
  moreover have "bi_size (bi_iter (place_part D sta tar)) = bi_size (bi_iter tar)"
    by (simp add: place_part_def)
  ultimately show ?thesis by (simp only: part_transfer_def prod.case bio_transfer_def bio_cells_place)
qed

section \<open>Cutting a request\<close>

text \<open>A request as the block layer sends it: whole sectors, and not at the end of the number range.\<close>

definition request_of :: "host_bio \<Rightarrow> bool" where
  "request_of b \<longleftrightarrow> bio_ok b \<and> 0 < unat (bi_size (bi_iter b)) \<and> 512 dvd unat (bi_size (bi_iter b)) \<and>
     unat (bi_sector (bi_iter b)) + unat (bi_size (bi_iter b)) div 512 + 8 < 2 ^ 64"

definition in_one_chunk :: "host_bio \<Rightarrow> bool" where
  "in_one_chunk b \<longleftrightarrow> unat (bi_sector (bi_iter b)) * 512 + unat (bi_size (bi_iter b)) \<le>
     (unat (chunk_end_sector (bi_sector (bi_iter b))) + 1) * 512"

lemma in_one_chunk_iff:
  assumes "bio_iterator K" and "request_of b"
  shows "k_end_sector K (bi_iter b) \<le> chunk_end_sector (bi_sector (bi_iter b)) + 1 \<longleftrightarrow> in_one_chunk b"
proof -
  let ?s = "bi_sector (bi_iter b)" and ?z = "bi_size (bi_iter b)"
  from assms(2) have r: "512 dvd unat ?z" "unat ?s + unat ?z div 512 + 8 < 2 ^ 64"
    by (simp_all add: request_of_def)
  have z: "unat (ucast (drop_bit 9 ?z) :: sector) = unat ?z div 512"
    by (simp add: unat_ucast_32_64 unat_drop_bit_div del: drop_bit_numeral_minus_bit1)
  have e: "unat (k_end_sector K (bi_iter b)) = unat ?s + unat ?z div 512"
    unfolding bio_iterator.end_sector_law [OF assms(1)] using r(2) z
    by (subst unat_add_small) simp_all
  have "unat ?s div 8 * 8 + 8 < 2 ^ 64" using r(2) by (simp add: le_less_trans)
  then have c: "unat (chunk_end_sector ?s + 1) = unat (chunk_end_sector ?s) + 1"
    by (intro unat_inc) (simp add: unat_chunk_end_sector)
  obtain k where "unat ?z = 512 * k" using r(1) by blast
  then show ?thesis by (auto simp: word_le_nat_alt e c in_one_chunk_def)
qed

lemma first_chunk_sectors:
  assumes "request_of b" and "\<not> in_one_chunk b"
  defines "s \<equiv> bi_sector (bi_iter b)"
  shows "unat (chunk_end_sector s - s + 1) = unat (chunk_end_sector s) + 1 - unat s"
    and "0 < unat (chunk_end_sector s - s + 1)"
    and "unat (chunk_end_sector s - s + 1) * 512 < unat (bi_size (bi_iter b))"
proof -
  have le: "unat s \<le> unat (chunk_end_sector s)" by (rule raid4.last_ge)
  then have d: "unat (chunk_end_sector s - s) = unat (chunk_end_sector s) - unat s"
    by (simp add: unat_sub word_le_nat_alt)
  have "unat (chunk_end_sector s) - unat s \<le> 7" unfolding unat_chunk_end_sector by arith
  then have "unat (chunk_end_sector s - s) + 1 < 2 ^ 64" by (simp add: d)
  from unat_inc [of "chunk_end_sector s - s"] this
  show n: "unat (chunk_end_sector s - s + 1) = unat (chunk_end_sector s) + 1 - unat s"
    using le by (simp add: d)
  then show "0 < unat (chunk_end_sector s - s + 1)" using le by simp
  have "(unat (chunk_end_sector s) + 1) * 512 < unat s * 512 + unat (bi_size (bi_iter b))"
    using assms(2) by (simp add: in_one_chunk_def s_def)
  then show "unat (chunk_end_sector s - s + 1) * 512 < unat (bi_size (bi_iter b))"
    using le unfolding n by (simp add: diff_mult_distrib)
qed

lemma request_transfer_whole:
  assumes "disk_cnt D \<noteq> 0" and "part_of b (sta, t, parent)" and "bio_cells t = bio_cells b"
    and "bi_iter t = bi_iter b"
  shows "part_transfer D (sta, t, parent) = request_transfer D b"
proof -
  have "sta = bi_sector (bi_iter b)" using assms(2,4) by (simp add: part_of_def)
  then show ?thesis
    unfolding part_transfer_eq [OF assms(1,2)] request_transfer_def assms(3,4) by simp
qed

lemma request_transfer_split:
  assumes D: "disk_cnt D \<noteq> 0" and part: "part_of b (sta, c, parent)" and b: "bio_ok b"
    and n: "unat (bi_size (bi_iter c)) = k" "k \<le> unat (bi_size (bi_iter b))" "512 dvd k"
    and c: "bio_cells c = take k (bio_cells b)" "bi_sector (bi_iter c) = bi_sector (bi_iter b)"
    and r: "bio_cells r = drop k (bio_cells b)"
      "unat (bi_size (bi_iter r)) = unat (bi_size (bi_iter b)) - k"
      "unat (bi_sector (bi_iter r)) * 512 = unat (bi_sector (bi_iter b)) * 512 + k"
  shows "request_transfer D b = part_transfer D (sta, c, parent) @ request_transfer D r"
proof -
  let ?z = "unat (bi_size (bi_iter b))" and ?s = "unat (bi_sector (bi_iter b)) * 512"
  have sta: "unat sta * 512 = ?s" using part c(2) by (simp add: part_of_def)
  have "map (\<lambda>j. place D (?s + j)) [0..<?z] =
      map (\<lambda>j. place D (?s + j)) [0..<k] @ map (\<lambda>j. place D (?s + k + j)) [0..<?z - k]"
    using n(2) by (intro nth_equalityI) (auto simp: nth_append)
  moreover have "bio_cells b = take k (bio_cells b) @ drop k (bio_cells b)" by simp
  moreover have "length (take k (bio_cells b)) = k" using n(2) b by (simp add: length_bio_cells)
  ultimately have "request_transfer D b =
      zip (take k (bio_cells b)) (map (\<lambda>j. place D (?s + j)) [0..<k]) @
      zip (drop k (bio_cells b)) (map (\<lambda>j. place D (?s + k + j)) [0..<?z - k])"
    unfolding request_transfer_def
    by (metis (no_types, lifting) zip_append length_map length_upt diff_zero)
  then show ?thesis
    unfolding part_transfer_eq [OF D part] by (simp add: sta n(1) c(1) request_transfer_def r add.assoc)
qed

text \<open>
  The pieces of a request: all but the last are split off and chained to the request's bio,
  which is itself the last one.
\<close>

definition pieces :: "host_bio \<Rightarrow> part list \<Rightarrow> bool" where
  "pieces b ps \<longleftrightarrow> (\<exists>cs s r. ps = cs @ [(s, r, None)] \<and> (\<forall>p \<in> set ps. part_of b p) \<and>
     (\<forall>(s, c, parent) \<in> set cs. parent = Some (bi_addr b) \<and> bi_end_io c = EndNull) \<and>
     bi_addr r = bi_addr b \<and> bi_private r = bi_private b \<and> bi_end_io r = bi_end_io b \<and>
     bi_vcnt r = bi_vcnt b)"

lemma pieces_Cons:
  assumes "part_of b (s, c, Some (bi_addr b))" and "bi_end_io c = EndNull" and "pieces r ps"
    and "bi_addr r = bi_addr b" "bi_private r = bi_private b" "bi_end_io r = bi_end_io b"
      "bi_vcnt r = bi_vcnt b" "bi_opf r = bi_opf b" "bi_io_vec r = bi_io_vec b"
  shows "pieces b ((s, c, Some (bi_addr b)) # ps)"
proof -
  from assms(3) obtain cs s' t where ps: "ps = cs @ [(s', t, None)]" "\<forall>p \<in> set ps. part_of r p"
    "\<forall>(s, c, parent) \<in> set cs. parent = Some (bi_addr r) \<and> bi_end_io c = EndNull"
    "bi_addr t = bi_addr r \<and> bi_private t = bi_private r \<and> bi_end_io t = bi_end_io r \<and>
     bi_vcnt t = bi_vcnt r" by (auto simp: pieces_def)
  have "\<forall>p \<in> set ps. part_of b p" using ps(2) assms(8,9) by (auto simp: part_of_def)
  with assms ps show ?thesis unfolding pieces_def
    by (intro exI [of _ "(s, c, Some (bi_addr b)) # cs"] exI [of _ s'] exI [of _ t]) simp
qed

definition split_total :: "kernel \<Rightarrow> bool" where
  "split_total K \<longleftrightarrow> (\<forall>b n. k_split K b n \<noteq> None)"

text \<open>
  The loop ends, and does the pieces one after the other: together they transfer exactly the
  bytes of the request.
\<close>

lemma submit_pieces:
  assumes K: "kernel_contract K" "split_total K" and D: "disk_cnt D \<noteq> 0"
  shows "request_of b \<Longrightarrow> \<exists>ps. pieces b ps \<and> (in_one_chunk b \<longrightarrow> length ps = 1) \<and>
    (\<forall>st. vpciedisk_submit_bio K D b st = run_parts K D ps st) \<and>
    concat (map (part_transfer D) ps) = request_transfer D b"
proof (induction "unat (bi_size (bi_iter b))" arbitrary: b rule: less_induct)
  case less
  note C = kernel_contract.axioms [OF K(1)]
  let ?s = "bi_sector (bi_iter b)"
  note r = less.prems [unfolded request_of_def]
  note one = in_one_chunk_iff [OF C(1) less.prems]
  show ?case
  proof (cases "in_one_chunk b")
    case True
    then have part: "part_of b (?s, b, None)" using r by (simp add: part_of_def in_one_chunk_def)
    then have "pieces b [(?s, b, None)]" by (auto simp: pieces_def)
    moreover have "vpciedisk_submit_bio K D b st = run_parts K D [(?s, b, None)] st" for st
      using one True by (subst vpciedisk_submit_bio.simps) (simp add: run_parts_single del: run_parts.simps)
    moreover have "part_transfer D (?s, b, None) = request_transfer D b"
      by (rule request_transfer_whole [OF D part refl refl])
    ultimately show ?thesis by (intro exI [of _ "[(?s, b, None)]"]) simp
  next
    case False
    obtain n where nd: "chunk_end_sector ?s - ?s + 1 = n" by blast
    note n = first_chunk_sectors [OF less.prems False, unfolded nd]
    obtain c0 t where sp: "k_split K b n = Some (c0, t)"
      using K(2) unfolding split_total_def by (metis option.exhaust prod.exhaust)
    note law = bio_splitter.split_law [OF C(4) sp r [THEN conjunct1] n(2,3)]
    let ?c = "c0\<lparr>bi_private := None, bi_end_io := EndNull\<rparr>"
    have c: "bio_ok ?c" "bi_opf ?c = bi_opf b" "bi_io_vec ?c = bi_io_vec b"
      "bi_sector (bi_iter ?c) = ?s" "unat (bi_size (bi_iter ?c)) = unat n * 512"
      "bio_cells ?c = take (unat n * 512) (bio_cells b)"
      and t: "bio_ok t" "bi_opf t = bi_opf b" "bi_io_vec t = bi_io_vec b" "bi_addr t = bi_addr b"
      "bi_private t = bi_private b" "bi_end_io t = bi_end_io b" "bi_vcnt t = bi_vcnt b"
      "bi_sector (bi_iter t) = ?s + n"
      "unat (bi_size (bi_iter t)) = unat (bi_size (bi_iter b)) - unat n * 512"
      "bio_cells t = drop (unat n * 512) (bio_cells b)"
      using law by (simp_all add: cleared_child)
    obtain k where k: "unat (bi_size (bi_iter b)) = 512 * k" using r by blast
    have nk: "unat n < k" "unat ?s + k + 8 < 2 ^ 64" using r n(3) by (simp_all add: k)
    then have sn: "unat (?s + n) = unat ?s + unat n" by (intro unat_add_small) simp
    have end_n: "unat ?s + unat n = unat (chunk_end_sector ?s) + 1"
      using n(1) raid4.last_ge [of ?s] by simp
    have part: "part_of b (?s, ?c, Some (bi_addr b))"
      using c n(2) end_n unfolding part_of_def prod.case
      by (simp only:) (simp add: distrib_right [symmetric])
    have tz: "unat (bi_size (bi_iter t)) = 512 * (k - unat n)" by (simp add: t(9) k diff_mult_distrib2)
    then have req: "request_of t" using t(1) nk by (simp add: request_of_def t(8) sn)
    have "unat (bi_size (bi_iter t)) < unat (bi_size (bi_iter b))" using n(2,3) t(9) by linarith
    from less.hyps [OF this req] obtain ps where ps: "pieces t ps"
      "\<And>st. vpciedisk_submit_bio K D t st = run_parts K D ps st"
      "concat (map (part_transfer D) ps) = request_transfer D t" by blast
    let ?ps = "(?s, ?c, Some (bi_addr b)) # ps"
    have "pieces b ?ps" by (rule pieces_Cons [OF part _ ps(1)]) (simp_all add: t)
    moreover have "vpciedisk_submit_bio K D b st = run_parts K D ?ps st" for st
      using one False by (subst vpciedisk_submit_bio.simps)
        (simp add: nd sp t(4) ps(2) bind_run_case split: option.split outcome.split)
    moreover have "request_transfer D b = part_transfer D (?s, ?c, Some (bi_addr b)) @ request_transfer D t"
      by (rule request_transfer_split [OF D part _ c(5) _ _ c(6,4) t(10,9)])
        (use r n(3) in \<open>simp_all add: t(8) sn\<close>)
    ultimately show ?thesis using ps(3) False by (intro exI [of _ ?ps]) simp
  qed
qed

section \<open>Properties\<close>

text \<open>
  C9: Cutting a request. The loop of \<open>vpciedisk_submit_bio\<close> ends and is the sequence of its
  pieces: each lies in one chunk, all but the last are split off and chained to the request's
  own bio, and placed on their data disks they transfer, in order, exactly the bytes of the
  request to and from the places the layout gives them.
\<close>

theorem submit_bio_cuts_request:
  assumes "kernel_contract K" and "split_total K" and "disk_cnt D \<noteq> 0" and "request_of b"
  shows "\<exists>ps. pieces b ps \<and> (\<forall>st. vpciedisk_submit_bio K D b st = run_parts K D ps st) \<and>
    concat (map (part_transfer D) ps) = request_transfer D b"
  using submit_pieces [OF assms] by blast

definition example_dev :: praid_dev where
  "example_dev = \<lparr>config = \<lparr>nr_nvme_disks = 3, size_nvme_disk = 1048576, nvme_major = 259,
       nvme_minor_verify = 3, nvme_minor = [0, 1, 2]\<rparr>,
     dev_size = 3145728, disk_cnt = 3, bdev = [100, 101, 102], bdev_verify = 103\<rparr>"

text \<open>Twelve sectors from array sector 4 on: two chunks.\<close>

definition example_request :: host_bio where
  "example_request = example_write\<lparr>bi_opf := REQ_OP_READ,
     bi_iter := \<lparr>bi_sector = 4, bi_size = 6144, bi_idx = 0, bi_bvec_done = 0\<rparr>, bi_vcnt := 2,
     bi_io_vec := [\<lparr>bv_page = 1, bv_len = 4096, bv_offset = 0\<rparr>,
       \<lparr>bv_page = 2, bv_len = 2048, bv_offset = 0\<rparr>]\<rparr>"

lemma reference_split_total: "split_total reference_kernel"
  by (simp add: split_total_def reference_kernel_def ref_bio_split_def)

lemma example_request_of: "request_of example_request"
proof -
  have "whole_bio example_request"
    by (simp add: whole_bio_def vec_ok_def in_page_def example_request_def)
  then show ?thesis
    using whole_bio_ok by (simp add: request_of_def) (simp add: example_request_def dvd_def)
qed

theorem submit_bio_cuts_request_witness:
  "\<exists>ps. pieces example_request ps \<and>
    (\<forall>st. vpciedisk_submit_bio reference_kernel example_dev example_request st =
       run_parts reference_kernel example_dev ps st) \<and>
    concat (map (part_transfer example_dev) ps) = request_transfer example_dev example_request"
  by (rule submit_bio_cuts_request [OF ref.kernel_contract_axioms reference_split_total _ example_request_of])
     (simp add: example_dev_def)

text \<open>A read piece is placed, chained and submitted.\<close>

definition read_part :: "praid_dev \<Rightarrow> part \<Rightarrow> host_bio" where
  "read_part D = (\<lambda>(sta, tar, parent). case parent of
       None \<Rightarrow> place_part D sta tar
     | Some p \<Rightarrow> (place_part D sta tar)\<lparr>bi_private := Some p, bi_end_io := EndChain\<rparr>)"

lemma read_part_transfer: "bio_transfer (read_part D p) = part_transfer D p"
  by (cases p) (auto simp: read_part_def part_transfer_def bio_transfer_def cleared_child split: option.split)

definition disks_ok :: "praid_dev \<Rightarrow> bool" where
  "disks_ok D \<longleftrightarrow> disk_cnt D \<noteq> 0 \<and> unat (disk_cnt D) \<le> length (bdev D)"

lemma disks_okD:
  assumes "disks_ok D"
  shows "disk_cnt D \<noteq> 0" and "unat (ucast (device_num (chunk_num s) (disk_cnt D)) :: u32) < length (bdev D)"
  using assms raid4.dev_less [of "disk_cnt D" s] unat_devi [of D s] by (auto simp: disks_ok_def)

lemma submit_part_placed:
  assumes "disks_ok D"
  shows "submit_part K D sta tar parent st =
    (case chain_part parent (place_part D sta tar, st) of (tar, st) \<Rightarrow>
        if bi_opf tar = REQ_OP_WRITE
        then bind_run (pcievdrv_submit_verify K tar st) (\<lambda>(r, st). case r of
               Inl e \<Rightarrow> Some (Crash BadPointer)
             | Inr n_bio \<Rightarrow> Some (Ret (st\<lparr>submitted := submitted st @ [SubmitVerify n_bio]\<rparr>)))
        else Some (Ret (st\<lparr>submitted := submitted st @ [SubmitHost tar]\<rparr>)))"
  using disks_okD(1) [OF assms] disks_okD(2) [OF assms, of sta]
  by (simp add: submit_part_def)

lemma submit_bio_in_chunk:
  assumes "bio_iterator K" and "request_of b" and "in_one_chunk b"
  shows "vpciedisk_submit_bio K D b st = submit_part K D (bi_sector (bi_iter b)) b None st"
  using in_one_chunk_iff [OF assms(1,2)] assms(3)
  by (subst vpciedisk_submit_bio.simps) simp

lemma submit_read_part:
  assumes "disks_ok D" and "bi_opf tar = REQ_OP_READ"
  shows "submit_part K D sta tar parent st = Some (Ret (st\<lparr>
     submitted := submitted st @ [SubmitHost (read_part D (sta, tar, parent))],
     bio_chains := bio_chains st @ (case parent of None \<Rightarrow> [] | Some p \<Rightarrow> [(bi_addr tar, p)])\<rparr>))"
  using assms(2)
  by (auto simp: submit_part_placed [OF assms(1)] chain_part_def read_part_def place_part_def
      split: option.split)

lemma run_read_parts:
  assumes "disks_ok D"
  shows "(\<forall>(sta, tar, parent) \<in> set ps. bi_opf tar = REQ_OP_READ) \<Longrightarrow>
    run_parts K D ps st = Some (Ret (st\<lparr>
     submitted := submitted st @ map (SubmitHost \<circ> read_part D) ps,
     bio_chains := bio_chains st @ concat (map (\<lambda>(sta, tar, parent).
        case parent of None \<Rightarrow> [] | Some p \<Rightarrow> [(bi_addr tar, p)]) ps)\<rparr>))"
proof (induction ps arbitrary: st)
  case (Cons p ps)
  obtain sta tar parent where p: "p = (sta, tar, parent)" by (cases p)
  have "bi_opf tar = REQ_OP_READ" using Cons.prems by (simp add: p)
  from submit_read_part [OF assms this, of K sta parent] Cons show ?case by (simp add: p)
qed simp

lemma read_request_parts:
  assumes "kernel_contract K" and "split_total K" and "disks_ok D"
    and "request_of b" and "bi_opf b = REQ_OP_READ"
  shows "\<exists>cs r. vpciedisk_submit_bio K D b st = Some (Ret (st\<lparr>
      submitted := submitted st @ map SubmitHost (cs @ [r]),
      bio_chains := bio_chains st @ map (\<lambda>c. (bi_addr c, bi_addr b)) cs\<rparr>)) \<and>
    concat (map bio_transfer (cs @ [r])) = request_transfer D b \<and>
    (\<forall>c \<in> set cs. bi_end_io c = EndChain \<and> bi_private c = Some (bi_addr b)) \<and>
    bi_addr r = bi_addr b \<and> bi_private r = bi_private b \<and> bi_end_io r = bi_end_io b"
proof -
  obtain ps where ps: "pieces b ps" "vpciedisk_submit_bio K D b st = run_parts K D ps st"
    "concat (map (part_transfer D) ps) = request_transfer D b"
    using submit_pieces [OF assms(1,2) disks_okD(1) [OF assms(3)] assms(4)] by blast
  from ps(1) obtain cs s r where cs: "ps = cs @ [(s, r, None)]" "\<forall>p \<in> set ps. part_of b p"
    "\<forall>(s, c, parent) \<in> set cs. parent = Some (bi_addr b) \<and> bi_end_io c = EndNull"
    "bi_addr r = bi_addr b" "bi_private r = bi_private b" "bi_end_io r = bi_end_io b"
    by (auto simp: pieces_def)
  let ?cs = "map (read_part D) cs" and ?r = "read_part D (s, r, None)"
  have "\<forall>(sta, tar, parent) \<in> set ps. bi_opf tar = REQ_OP_READ"
    using cs(2) assms(5) by (auto simp: part_of_def)
  note run_read_parts [OF assms(3) this, of K st]
  moreover have "concat (map (\<lambda>(sta, tar, parent). case parent of None \<Rightarrow> [] | Some p \<Rightarrow> [(bi_addr tar, p)]) cs) =
      map (\<lambda>p. (bi_addr (read_part D p), bi_addr b)) cs"
    using cs(3) by (intro concat_map_one) (auto simp: read_part_def place_part_def)
  ultimately have "vpciedisk_submit_bio K D b st = Some (Ret (st\<lparr>
      submitted := submitted st @ map SubmitHost (?cs @ [?r]),
      bio_chains := bio_chains st @ map (\<lambda>c. (bi_addr c, bi_addr b)) ?cs\<rparr>))"
    by (simp add: ps(2)) (simp add: cs(1) o_def)
  moreover have "map bio_transfer (?cs @ [?r]) = map (part_transfer D) ps"
    by (simp add: cs(1) read_part_transfer)
  moreover have "\<forall>c \<in> set ?cs. bi_end_io c = EndChain \<and> bi_private c = Some (bi_addr b)"
    using cs(3) by (auto simp: read_part_def)
  moreover have "bi_addr ?r = bi_addr b \<and> bi_private ?r = bi_private b \<and> bi_end_io ?r = bi_end_io b"
    using cs(4-6) by (simp add: read_part_def place_part_def)
  ultimately show ?thesis using ps(3)
    by (intro exI [of _ ?cs] exI [of _ ?r] conjI) simp_all
qed

text \<open>
  A read request is served piece by piece: what is submitted are bios that together read
  exactly the bytes of the request from their places on the data disks; every one but the
  last is chained to the request's bio, and the last is the request's bio with its own
  completion. Nothing else of the driver's state changes.
\<close>

theorem read_request_served:
  assumes "kernel_contract K" and "split_total K" and "disks_ok D"
    and "request_of b" and "bi_opf b = REQ_OP_READ"
  shows "\<exists>cs r. vpciedisk_submit_bio K D b st = Some (Ret (st\<lparr>
      submitted := submitted st @ map SubmitHost (cs @ [r]),
      bio_chains := bio_chains st @ map (\<lambda>c. (bi_addr c, bi_addr b)) cs\<rparr>)) \<and>
    concat (map bio_transfer (cs @ [r])) = request_transfer D b \<and>
    (\<forall>c \<in> set cs. bi_end_io c = EndChain \<and> bi_private c = Some (bi_addr b)) \<and>
    bi_addr r = bi_addr b \<and> bi_private r = bi_private b \<and> bi_end_io r = bi_end_io b"
  using read_request_parts [OF assms] by blast

lemma example_dev_disks: "disks_ok example_dev"
  by (simp add: disks_ok_def example_dev_def)

theorem read_request_served_witness:
  "\<exists>cs r. vpciedisk_submit_bio reference_kernel example_dev example_request example_drv =
      Some (Ret (example_drv\<lparr>submitted := map SubmitHost (cs @ [r]),
        bio_chains := map (\<lambda>c. (bi_addr c, 70)) cs\<rparr>)) \<and>
    concat (map bio_transfer (cs @ [r])) = request_transfer example_dev example_request"
  using read_request_served [OF ref.kernel_contract_axioms reference_split_total example_dev_disks
      example_request_of, of example_drv]
  by (auto simp: example_request_def example_drv_def example_write_def)

lemma submit_write_live:
  assumes "kernel_contract K" and "kernel_live K" and "disks_ok D" and "whole_bio b"
    and "unat (bi_vcnt b) \<le> 256" and "request_of b" and "in_one_chunk b" and "bi_opf b = REQ_OP_WRITE"
    and "pages_apart K \<or> seam_free (bi_io_vec b)"
  shows "\<exists>n st'. vpciedisk_submit_bio K D b st = Some (Ret st') \<and>
    submitted st' = submitted st @ [SubmitVerify n] \<and>
    read_for n (place_part D (bi_sector (bi_iter b)) b) \<and>
    same_io (st\<lparr>submitted := submitted st'\<rparr>) st' \<and> workqueue st' = workqueue st \<and>
    map_of (heap st) \<subseteq>\<^sub>m map_of (heap st') \<and>
    dom (map_of (heap st')) = dom (map_of (heap st)) \<union> set (map bv_page (bi_io_vec n)) \<and>
    distinct (map bv_page (bi_io_vec n)) \<and>
    set (map bv_page (bi_io_vec n)) \<inter> dom (map_of (heap st)) = {}"
proof -
  let ?p = "place_part D (bi_sector (bi_iter b)) b"
  have p: "whole_bio ?p" "unat (bi_vcnt ?p) \<le> 256" "bi_opf ?p = REQ_OP_WRITE"
    "pages_apart K \<or> seam_free (bi_io_vec ?p)"
    using assms(4,5,8,9) by (simp_all add: whole_bio_def place_part_def)
  from submit_verify_live [OF assms(1,2) p(1,2,4), of st] obtain n st1 where
    n: "pcievdrv_submit_verify K ?p st = Some (Ret (Inr n, st1))" "read_for n ?p" "same_rest st st1"
    and heap: "map_of (heap st) \<subseteq>\<^sub>m map_of (heap st1)"
      "dom (map_of (heap st1)) = dom (map_of (heap st)) \<union> set (map bv_page (bi_io_vec n))"
      "distinct (map bv_page (bi_io_vec n))" "set (map bv_page (bi_io_vec n)) \<inter> dom (map_of (heap st)) = {}"
    by blast
  have "vpciedisk_submit_bio K D b st =
      Some (Ret (st1\<lparr>submitted := submitted st1 @ [SubmitVerify n]\<rparr>))"
    using p(3) by (simp add: submit_bio_in_chunk [OF kernel_contract.axioms(1) [OF assms(1)] assms(6,7)]
        submit_part_placed [OF assms(3)] chain_part_def n(1))
  then show ?thesis using n(2,3) heap by (simp add: same_rest_def same_io_def)
qed

text \<open>
  A write request inside one chunk goes through the driver: nothing but the read bio for
  the placed write is submitted, on the write's data disk and over the write's range, and it
  carries the write along for its completion.
\<close>

theorem write_in_chunk_reads_first:
  assumes "kernel_contract K" and "kernel_live K" and "disks_ok D" and "whole_bio b"
    and "unat (bi_vcnt b) \<le> 256" and "request_of b" and "in_one_chunk b" and "bi_opf b = REQ_OP_WRITE"
    and "pages_apart K \<or> seam_free (bi_io_vec b)"
  shows "\<exists>n st'. vpciedisk_submit_bio K D b st = Some (Ret st') \<and>
    submitted st' = submitted st @ [SubmitVerify n] \<and>
    read_for n (place_part D (bi_sector (bi_iter b)) b) \<and>
    bio_chains st' = bio_chains st \<and> workqueue st' = workqueue st \<and> sem st' = sem st"
  using submit_write_live [OF assms, of st] by (auto simp: same_io_def)

theorem write_in_chunk_reads_first_witness:
  "\<exists>n st'. vpciedisk_submit_bio reference_kernel example_dev example_write example_drv = Some (Ret st') \<and>
    submitted st' = [SubmitVerify n] \<and> read_for n (place_part example_dev 40 example_write)"
proof -
  have "request_of example_write"
    using whole_bio_ok [OF example_write_whole]
    by (simp add: request_of_def) (simp add: example_write_def dvd_def)
  moreover have "in_one_chunk example_write"
    by (simp add: in_one_chunk_def example_write_def unat_chunk_end_sector)
  ultimately show ?thesis
    using write_in_chunk_reads_first [OF ref.kernel_contract_axioms reference_kernel_live
        example_dev_disks example_write_whole, of example_drv]
    by (auto simp: example_write_def example_drv_def)
qed

text \<open>A read bio cannot be built for a bio that claims to have no vectors.\<close>

lemma submit_verify_no_vectors:
  assumes "kernel_contract K" and "bio_ok b" and "0 < unat (bi_size (bi_iter b))" and "bi_vcnt b = 0"
  shows "\<exists>st'. pcievdrv_submit_verify K b st = Some (Ret (Inl EIO, st'))"
proof -
  note C = kernel_contract.axioms [OF assms(1)]
  obtain n0 where n0: "k_bio_alloc K 0 = Some n0"
    using bio_builder.bio_alloc_law [OF C(3), of 0] by auto
  note empty = bio_builder.bio_alloc_empty [OF C(3) n0]
  let ?n = "n0\<lparr>bi_bdev := bi_bdev b, bi_iter := (bi_iter n0)\<lparr>bi_sector := bi_sector (bi_iter b)\<rparr>\<rparr>"
  have "\<not> mergeable ?n p off" for p off using empty by (simp add: mergeable_def)
  from bio_builder.add_page_full [OF C(3) this] empty
  have full: "k_bio_add_page K ?n p len off = (0, ?n)" for p len off by simp
  obtain segs where segs: "bio_segments K (bi_io_vec b) (bi_iter b) = Some segs"
    "vec_cells segs = bio_cells b" "\<forall>e \<in> set segs. in_page e"
    using bio_iterator.bio_segments_cells [OF C(1)] assms(2) unfolding bio_ok_def bio_cells_def by blast
  have "vec_bytes segs = unat (bi_size (bi_iter b))"
    using segs(2) assms(2) by (metis length_bio_cells length_vec_cells)
  then obtain e es where es: "segs = e # es" using assms(3) by (cases segs) simp_all
  have e: "\<not> PAGE_SIZE < unat (bv_len e)" using segs(3) by (simp add: es in_page_def)
  have "\<exists>st'. add_read_pages K (bi_addr b) ?n segs st = Ret (None, st')"
    using C(2)
  proof (cases rule: alloc_page_cases [where st = st])
    case (some p c st1)
    then have "map_of (heap st1) p = Some c" by simp
    with some(1) e show ?thesis by (simp add: es full free_page_def)
  qed (use e in \<open>simp add: es\<close>)
  then show ?thesis
    using n0 segs(1) by (auto simp: pcievdrv_submit_verify_def assms(4))
qed

text \<open>The bios that splitting makes do not count the vectors they share.\<close>

definition split_without_vectors :: "kernel \<Rightarrow> bool" where
  "split_without_vectors K \<longleftrightarrow> (\<forall>b n c r. k_split K b n = Some (c, r) \<longrightarrow> bi_vcnt c = 0)"

lemma split_write_crashes:
  assumes "kernel_contract K" and "split_total K" and "split_without_vectors K" and "disks_ok D"
    and "request_of b" and "\<not> in_one_chunk b" and "bi_opf b = REQ_OP_WRITE"
  shows "vpciedisk_submit_bio K D b st = Some (Crash BadPointer)"
proof -
  note C = kernel_contract.axioms [OF assms(1)]
  let ?s = "bi_sector (bi_iter b)"
  obtain n where nd: "chunk_end_sector ?s - ?s + 1 = n" by blast
  note n = first_chunk_sectors [OF assms(5,6), unfolded nd]
  obtain c t where sp: "k_split K b n = Some (c, t)"
    using assms(2) unfolding split_total_def by (metis option.exhaust prod.exhaust)
  have ok: "bio_ok b" using assms(5) by (simp add: request_of_def)
  from bio_splitter.split_law [OF C(4) sp ok n(2,3)] assms(3,7) sp
  have c: "bio_ok c" "0 < unat (bi_size (bi_iter c))" "bi_opf c = REQ_OP_WRITE" "bi_vcnt c = 0"
    using n(2) by (auto simp: split_without_vectors_def)
  obtain p where p: "p = (place_part D ?s (c\<lparr>bi_private := None, bi_end_io := EndNull\<rparr>))
      \<lparr>bi_private := Some (bi_addr t), bi_end_io := EndChain\<rparr>" by blast
  have pok: "bio_ok p" "0 < unat (bi_size (bi_iter p))" "bi_opf p = REQ_OP_WRITE" "bi_vcnt p = 0"
    using c by (simp_all add: p place_part_def bio_ok_def iter_ok_def iter_pos_def)
  obtain st1 where "chain_part (Some (bi_addr t)) (place_part D ?s (c\<lparr>bi_private := None, bi_end_io := EndNull\<rparr>), st) =
      (p, st1)" by (simp add: chain_part_def p)
  moreover from submit_verify_no_vectors [OF assms(1) pok(1,2,4), of st1]
  obtain st2 where "pcievdrv_submit_verify K p st1 = Some (Ret (Inl EIO, st2))" by blast
  ultimately have "submit_part K D ?s (c\<lparr>bi_private := None, bi_end_io := EndNull\<rparr>) (Some (bi_addr t)) st =
      Some (Crash BadPointer)"
    by (simp add: submit_part_placed [OF assms(4)] pok(3))
  then show ?thesis
    using in_one_chunk_iff [OF C(1) assms(5)] assms(6)
    by (subst vpciedisk_submit_bio.simps) (simp add: Let_def nd sp)
qed

text \<open>
  C39: A write request that crosses a chunk boundary ends in a fault. The bio split off shares
  the vectors of the request and counts none of its own, \<open>pcievdrv_submit_verify\<close> allocates
  its read bio for that count and cannot add a single page, and the error pointer it returns
  is submitted as a bio.
\<close>

theorem split_write_faults:
  assumes "kernel_contract K" and "split_total K" and "split_without_vectors K" and "disks_ok D"
    and "request_of b" and "\<not> in_one_chunk b" and "bi_opf b = REQ_OP_WRITE"
  shows "vpciedisk_submit_bio K D b st = Some (Crash BadPointer)"
  by (rule split_write_crashes [OF assms])

theorem split_write_faults_witness:
  "vpciedisk_submit_bio reference_kernel example_dev (example_request\<lparr>bi_opf := REQ_OP_WRITE\<rparr>)
     example_drv = Some (Crash BadPointer)"
proof (rule split_write_faults [OF ref.kernel_contract_axioms reference_split_total _ example_dev_disks])
  show "split_without_vectors reference_kernel"
    by (auto simp: split_without_vectors_def reference_kernel_def ref_bio_split_def)
  show "request_of (example_request\<lparr>bi_opf := REQ_OP_WRITE\<rparr>)"
    using example_request_of by (simp add: request_of_def bio_ok_def)
  show "\<not> in_one_chunk (example_request\<lparr>bi_opf := REQ_OP_WRITE\<rparr>)"
    by (simp add: in_one_chunk_def example_request_def unat_chunk_end_sector)
qed simp

text \<open>
  An array that came up with no data disk (nothing in the start-up path refuses one) has
  no layout: every request divides by zero, read or write, whatever the kernel answers.
\<close>

theorem no_disks_divides_by_zero:
  assumes "split_total K" and "disk_cnt D = 0"
  shows "vpciedisk_submit_bio K D b st = Some (Crash DivideError)"
proof -
  have "\<exists>c t. k_split K b n = Some (c, t)" for n
    using assms(1) unfolding split_total_def by (metis option.exhaust prod.exhaust)
  then obtain c t where "k_split K b (chunk_end_sector (bi_sector (bi_iter b)) - bi_sector (bi_iter b) + 1) =
      Some (c, t)" by blast
  then show ?thesis
    by (subst vpciedisk_submit_bio.simps) (simp add: Let_def submit_part_def assms(2))
qed

theorem no_disks_divides_by_zero_witness:
  "vpciedisk_submit_bio reference_kernel (example_dev\<lparr>disk_cnt := 0\<rparr>) example_write example_drv =
     Some (Crash DivideError)"
  by (rule no_disks_divides_by_zero [OF reference_split_total]) simp

lemma cylinders_fixpoint:
  assumes "x = 512 * x mod 65536" and "x < 65536"
  shows "x = (0 :: nat)"
proof -
  have "512 * x = 65536 * (512 * x div 65536) + x"
    using mult_div_mod_eq [of 65536 "512 * x"] assms(1) by simp
  then have "511 * x = 65536 * (512 * x div 65536)" by simp
  then have "2 ^ 16 dvd 511 * x" by simp
  moreover have "coprime (2 ^ 16) (511 :: nat)" by (simp only: coprime_power_left_iff) simp
  ultimately have "2 ^ 16 dvd x" by (simp only: coprime_dvd_mult_right_iff)
  with assms(2) show ?thesis by (auto dest: dvd_imp_le)
qed

text \<open>
  The geometry never describes the disk: \<open>vpciedisk_getgeo\<close> shifts the size in bytes as if
  it were in sectors and keeps 16 bits of it, and the capacity its cylinders, heads and
  sectors make up is the size of the array only for an array of size zero.
\<close>

theorem getgeo_capacity:
  "unat (cylinders (vpciedisk_getgeo D)) * unat (heads (vpciedisk_getgeo D)) *
     unat (sectors (vpciedisk_getgeo D)) * 512 = unat (dev_size D) \<longleftrightarrow> dev_size D = 0"
proof -
  have c: "unat (cylinders (vpciedisk_getgeo D)) = unat (dev_size D) div 64 mod 65536"
    by (simp add: vpciedisk_getgeo_def unsigned_ucast_eq take_bit_eq_mod unat_drop_bit_div del: drop_bit_numeral_minus_bit1)
  show ?thesis
  proof
    assume eq: "unat (cylinders (vpciedisk_getgeo D)) * unat (heads (vpciedisk_getgeo D)) *
        unat (sectors (vpciedisk_getgeo D)) * 512 = unat (dev_size D)"
    define x where "x = unat (cylinders (vpciedisk_getgeo D))"
    have "unat (dev_size D) = 32768 * x" using eq by (simp add: x_def vpciedisk_getgeo_def)
    moreover from this c have "x = 512 * x mod 65536" "x < 65536" by (simp_all add: x_def [symmetric])
    then have "x = 0" by (rule cylinders_fixpoint)
    ultimately show "dev_size D = 0" by (simp add: unat_eq_zero)
  qed (simp add: vpciedisk_getgeo_def)
qed

end
