(* ===== verification/Praid_System.thy ===== *)
theory Praid_System
  imports Praid_Block Praid_Device "HOL-Library.Multiset"
begin

text \<open>
  The parts at work together: requests, completions, workers, the device thread and the
  interrupt as the steps of one transition system over the driver's state, the shared memory,
  the device, the parity disk and the data disks. The invariant of this theory relates the
  parity disk to the data disks at every moment; its consequences are the safety properties
  of the array.
\<close>

section \<open>Segments on a disk\<close>

text \<open>What a transfer of consecutive segments, from byte \<open>s\<close> of a disk on, does to the disk or to the pages.\<close>

fun write_segs :: "heap \<Rightarrow> nat \<Rightarrow> bio_vec list \<Rightarrow> bytes \<Rightarrow> bytes" where
  "write_segs h s [] disk = disk"
| "write_segs h s (e # es) disk = write_segs h (s + unat (bv_len e)) es
     (copy_bytes disk s (page_of h (bv_page e)) (unat (bv_offset e)) (unat (bv_len e)))"

fun fill_segs :: "bytes \<Rightarrow> nat \<Rightarrow> bio_vec list \<Rightarrow> heap \<Rightarrow> heap" where
  "fill_segs disk s [] h = h"
| "fill_segs disk s (e # es) h = fill_segs disk (s + unat (bv_len e)) es
     (heap_write (bv_page e) (copy_bytes (page_of h (bv_page e)) (unat (bv_offset e)) disk s (unat (bv_len e))) h)"

text \<open>The difference at byte \<open>a\<close> between the disk and what the segments would write there.\<close>

definition seg_delta :: "heap \<Rightarrow> bytes \<Rightarrow> nat \<Rightarrow> bio_vec \<Rightarrow> nat \<Rightarrow> u8" where
  "seg_delta h disk s e a = (if s \<le> a \<and> a < s + unat (bv_len e)
     then disk a XOR page_of h (bv_page e) (unat (bv_offset e) + (a - s)) else 0)"

fun segs_delta :: "heap \<Rightarrow> bytes \<Rightarrow> nat \<Rightarrow> bio_vec list \<Rightarrow> nat \<Rightarrow> u8" where
  "segs_delta h disk s [] a = 0"
| "segs_delta h disk s (e # es) a = seg_delta h disk s e a XOR segs_delta h disk (s + unat (bv_len e)) es a"

lemma seg_delta_cong:
  "(s \<le> a \<Longrightarrow> a < s + unat (bv_len e) \<Longrightarrow> disk a = disk' a) \<Longrightarrow>
     page_of h (bv_page e) = page_of h' (bv_page e) \<Longrightarrow> seg_delta h disk s e a = seg_delta h' disk' s e a"
  by (simp add: seg_delta_def)

lemma segs_delta_cong:
  "(s \<le> a \<Longrightarrow> a < s + vec_bytes es \<Longrightarrow> disk a = disk' a) \<Longrightarrow>
     (\<forall>e \<in> set es. page_of h (bv_page e) = page_of h' (bv_page e)) \<Longrightarrow>
     segs_delta h disk s es a = segs_delta h' disk' s es a"
proof (induction es arbitrary: s)
  case (Cons e es)
  have "seg_delta h disk s e a = seg_delta h' disk' s e a"
    using Cons.prems by (intro seg_delta_cong) simp_all
  moreover have "segs_delta h disk (s + unat (bv_len e)) es a = segs_delta h' disk' (s + unat (bv_len e)) es a"
    using Cons.prems by (intro Cons.IH) simp_all
  ultimately show ?case by simp
qed simp

lemma segs_delta_outside:
  "a < s \<or> s + vec_bytes es \<le> a \<Longrightarrow> segs_delta h disk s es a = 0"
  by (induction es arbitrary: s) (auto simp: seg_delta_def)

lemma write_segs_delta:
  "write_segs h s es disk a = disk a XOR segs_delta h disk s es a"
proof (induction es arbitrary: s disk)
  case (Cons e es)
  let ?d = "copy_bytes disk s (page_of h (bv_page e)) (unat (bv_offset e)) (unat (bv_len e))"
  have "segs_delta h ?d (s + unat (bv_len e)) es a = segs_delta h disk (s + unat (bv_len e)) es a"
    by (rule segs_delta_cong) (simp_all add: copy_bytes_def)
  moreover have "?d a = disk a XOR seg_delta h disk s e a"
    by (simp add: copy_bytes_def seg_delta_def)
  ultimately show ?case by (simp add: Cons.IH xor.assoc)
qed simp

text \<open>The parity difference a verify task stands for.\<close>

definition task_delta :: "heap \<Rightarrow> verify_work \<Rightarrow> nat \<Rightarrow> u8" where
  "task_delta h w a = (let s = unat (w_num_sector w) * 512 in
     if s \<le> a \<and> a < s + unat (w_size w)
     then page_of h (w_page_old w) (unat (w_offset w) + (a - s)) XOR
          page_of h (w_page_new w) (unat (w_offset w) + (a - s)) else 0)"

text \<open>The pages of a completed read hold what is on the disk.\<close>

fun segs_hold :: "heap \<Rightarrow> bytes \<Rightarrow> nat \<Rightarrow> bio_vec list \<Rightarrow> bool" where
  "segs_hold h disk s [] \<longleftrightarrow> True"
| "segs_hold h disk s (e # es) \<longleftrightarrow>
     (\<forall>k < unat (bv_len e). page_of h (bv_page e) (unat (bv_offset e) + k) = disk (s + k)) \<and>
     segs_hold h disk (s + unat (bv_len e)) es"

lemma map_of_fill_segs_other:
  "p \<notin> set (map bv_page es) \<Longrightarrow> map_of (fill_segs disk s es h) p = map_of h p"
  by (induction es arbitrary: s h) (auto simp: map_of_heap_write split: option.split)

lemma dom_fill_segs [simp]: "dom (map_of (fill_segs disk s es h)) = dom (map_of h)"
  by (induction es arbitrary: s h) (auto simp: map_of_heap_write dom_def split: option.splits if_splits)

lemma page_of_fill_segs_other:
  "p \<notin> set (map bv_page es) \<Longrightarrow> page_of (fill_segs disk s es h) p = page_of h p"
  by (drule map_of_fill_segs_other [of _ _ disk s h]) (simp add: page_of_def)

lemma fill_segs_hold:
  "distinct (map bv_page es) \<Longrightarrow> set (map bv_page es) \<subseteq> dom (map_of h) \<Longrightarrow>
     segs_hold (fill_segs disk s es h) disk s es"
proof (induction es arbitrary: s h)
  case (Cons e es)
  let ?c = "copy_bytes (page_of h (bv_page e)) (unat (bv_offset e)) disk s (unat (bv_len e))"
  let ?h = "heap_write (bv_page e) ?c h"
  have m: "map_of ?h = (map_of h)(bv_page e \<mapsto> ?c)"
    using Cons.prems(2) by (auto intro: map_of_heap_write_Some)
  have "page_of ?h (bv_page e) = ?c" by (rule page_of_Some) (simp add: m)
  then have "page_of (fill_segs disk (s + unat (bv_len e)) es ?h) (bv_page e) = ?c"
    using Cons.prems(1) by (subst page_of_fill_segs_other) simp_all
  moreover have "segs_hold (fill_segs disk (s + unat (bv_len e)) es ?h) disk (s + unat (bv_len e)) es"
    using Cons.prems m by (intro Cons.IH) auto
  ultimately show ?case by (simp add: copy_bytes_in)
qed simp

lemma segs_hold_cong:
  "(\<forall>e \<in> set es. page_of h (bv_page e) = page_of h' (bv_page e)) \<Longrightarrow>
     segs_hold h disk s es = segs_hold h' disk s es"
  by (induction es arbitrary: s) auto

text \<open>
  The tasks of a completed read stand for the difference its write will make, as long as the
  disk still holds what was read.
\<close>

definition whole_sectors :: "bio_vec list \<Rightarrow> bool" where
  "whole_sectors es \<longleftrightarrow> (\<forall>e \<in> set es. in_page e \<and> 512 dvd unat (bv_len e))"

lemma task_delta_seg:
  assumes "w_num_sector w = pos" and "w_offset w = ucast (bv_offset e)" and "w_size w = ucast (bv_len e)"
    and "in_page e"
    and "\<forall>i < PAGE_SIZE. page_of h' (w_page_new w) i = page_of h (bv_page e) i \<and>
      page_of h' (w_page_old w) i = page_of h (bv_page v) i"
    and "bv_offset v = bv_offset e"
    and "\<forall>k < unat (bv_len e). page_of h (bv_page v) (unat (bv_offset v) + k) = disk (unat pos * 512 + k)"
  shows "task_delta h' w a = seg_delta h disk (unat pos * 512) e a"
proof (cases "unat pos * 512 \<le> a \<and> a < unat pos * 512 + unat (bv_len e)")
  case True
  then obtain k where k: "a = unat pos * 512 + k" "k < unat (bv_len e)" using le_Suc_ex by auto
  have "unat (bv_offset e) + k < PAGE_SIZE" using k(2) assms(4) by (simp add: in_page_def)
  then show ?thesis
    using k assms by (simp add: task_delta_def seg_delta_def Let_def unat_ucast_32_64)
next
  case False
  then show ?thesis
    using assms(1-3) by (auto simp: task_delta_def seg_delta_def Let_def unat_ucast_32_64)
qed

lemma sector_after:
  assumes "512 dvd unat (len :: u32)" and "unat pos * 512 + unat len < 2 ^ 73"
  shows "unat (pos + ucast (drop_bit KERNEL_SECTOR_SHIFT len) :: sector) * 512 = unat pos * 512 + unat len"
proof -
  obtain k where k: "unat len = 512 * k" using assms(1) by blast
  have z: "unat (ucast (drop_bit 9 len) :: sector) = k"
    using k by (simp add: unat_ucast_32_64 unat_drop_bit_div del: drop_bit_numeral_minus_bit1)
  have "unat pos + k < 2 ^ 64" using assms(2) by (simp add: k)
  then have "unat (pos + ucast (drop_bit 9 len)) = unat pos + k"
    using unat_add_small [of pos "ucast (drop_bit 9 len)"] by (simp only: z) simp
  then show ?thesis by (simp add: KERNEL_SECTOR_SHIFT_def k)
qed

lemma works_delta:
  "list_all2 same_shape v es \<Longrightarrow> works_for h h' pos (zip v es) ws \<Longrightarrow> whole_sectors es \<Longrightarrow>
     segs_hold h disk (unat pos * 512) v \<Longrightarrow> unat pos * 512 + vec_bytes es < 2 ^ 73 \<Longrightarrow>
     xor_list (\<lambda>w. task_delta h' w a) ws = segs_delta h disk (unat pos * 512) es a"
proof (induction v es arbitrary: pos ws rule: list_all2_induct)
  case (Cons x v e es)
  from Cons.prems(1) obtain w ws' where ws: "ws = w # ws'" by (cases ws) auto
  note wf = Cons.prems(1) [unfolded ws]
  let ?pos = "pos + ucast (drop_bit KERNEL_SECTOR_SHIFT (bv_len e))"
  have "512 dvd unat (bv_len e)" using Cons.prems(2) by (simp add: whole_sectors_def)
  from sector_after [OF this, of pos]
  have pos: "unat ?pos * 512 = unat pos * 512 + unat (bv_len e)" using Cons.prems(4) by simp
  have sh: "bv_len x = bv_len e" "bv_offset x = bv_offset e" using Cons.hyps(1) by (simp_all add: same_shape_def)
  have "xor_list (\<lambda>w. task_delta h' w a) ws' = segs_delta h disk (unat ?pos * 512) es a"
    using wf Cons.prems by (intro Cons.IH) (simp_all add: whole_sectors_def pos sh)
  moreover have "task_delta h' w a = seg_delta h disk (unat pos * 512) e a"
    using wf Cons.prems(2,3) sh by (intro task_delta_seg [where v = x]) (simp_all add: whole_sectors_def)
  ultimately show ?case by (simp add: ws pos)
qed simp

section \<open>The steps of the system\<close>

text \<open>
  The driver's state with the bios handed to the block layer and not yet completed in
  \<open>submitted\<close>, the workers that hold the semaphore, the shared memory, the device and where
  its thread is, the parity disk, the data disks by block device, and the number of requests
  posted to the device so far (a ghost count, for the width of \<open>io_num\<close>).
\<close>

record sys =
  s_drv :: drv
  s_workers :: "verify_work list"
  s_mmio :: mmio
  s_pc :: dev_pc
  s_dev :: pciev_dev
  s_parity :: bytes
  s_disks :: "nat \<Rightarrow> bytes"
  s_posts :: nat

text \<open>The bios a submission stands for: the read under way, and the write behind it.\<close>

fun sub_reads :: "submission \<Rightarrow> verify_bio list" where
  "sub_reads (SubmitVerify n) = [n]"
| "sub_reads (SubmitHost b) = []"

fun sub_writes :: "submission \<Rightarrow> host_bio list" where
  "sub_writes (SubmitVerify n) = []"
| "sub_writes (SubmitHost b) = [b]"

fun sub_bios :: "submission \<Rightarrow> host_bio list" where
  "sub_bios (SubmitVerify n) = (case bi_private n of None \<Rightarrow> [] | Some b \<Rightarrow> [b])"
| "sub_bios (SubmitHost b) = [b]"

definition vec_pages :: "bio_vec list \<Rightarrow> nat list" where
  "vec_pages v = map bv_page v"

text \<open>The pages of the driver: those of the reads under way and those of the tasks.\<close>

definition read_pages :: "submission list \<Rightarrow> nat list" where
  "read_pages xs = concat (map (\<lambda>n. vec_pages (bi_io_vec n)) (concat (map sub_reads xs)))"

definition owned_pages :: "submission list \<Rightarrow> verify_work list \<Rightarrow> nat list" where
  "owned_pages xs ws = read_pages xs @ work_pages ws"

definition caller_pages :: "submission list \<Rightarrow> nat set" where
  "caller_pages xs = (\<Union>b \<in> set (concat (map sub_bios xs)). set (vec_pages (bi_io_vec b)))"

definition tasks :: "sys \<Rightarrow> verify_work list" where
  "tasks s = workqueue (s_drv s) @ s_workers s"

definition used_pages :: "sys \<Rightarrow> nat set" where
  "used_pages s = set (owned_pages (submitted (s_drv s)) (tasks s)) \<union> caller_pages (submitted (s_drv s))"

text \<open>The bytes of its disk a bio covers.\<close>

definition bio_range :: "('p, 'm) bio_scheme \<Rightarrow> nat set" where
  "bio_range b = {unat (bi_sector (bi_iter b)) * 512 ..< unat (bi_sector (bi_iter b)) * 512 + unat (bi_size (bi_iter b))}"

definition disjoint_bios :: "host_bio \<Rightarrow> host_bio \<Rightarrow> bool" where
  "disjoint_bios b c \<longleftrightarrow> bi_bdev b \<noteq> bi_bdev c \<or> bio_range b \<inter> bio_range c = {}"

text \<open>
  A step. \<open>G\<close> says which write requests the upper layers may send in a state. These are the
  steps in which no part faults and every access to a disk succeeds; which calls of the
  kernel succeed is up to \<open>K\<close>. (A failing parity disk is the subject of the last section.)
  \<^item> \<open>submit\<close>: a request enters \<open>vpciedisk_submit_bio\<close>;
  \<^item> \<open>read_done\<close>: the block layer has filled the pages of a read bio, its iterator is used
    up, and the completion handler runs;
  \<^item> \<open>write_done\<close>: the block layer has written a bio to its disk;
  \<^item> \<open>work_down\<close>, \<open>work_post\<close>: a worker takes the semaphore, and does the rest of its task;
  \<^item> \<open>dev\<close>, \<open>poll\<close>: one step of the device thread, between passes the check of the registers;
  \<^item> \<open>irq\<close>: an interrupt raised by the device is delivered;
  \<^item> \<open>env\<close>: the rest of the kernel allocates, frees and changes pages of its own.
\<close>

inductive sys_step :: "kernel \<Rightarrow> irq_layer \<Rightarrow> praid_dev \<Rightarrow> (host_bio \<Rightarrow> sys \<Rightarrow> bool) \<Rightarrow> sys \<Rightarrow> sys \<Rightarrow> bool"
  for K L D G where
  submit: "G b s \<Longrightarrow> vpciedisk_submit_bio K D b (s_drv s) = Some (Ret st) \<Longrightarrow>
     sys_step K L D G s (s\<lparr>s_drv := st\<rparr>)"
| read_done: "submitted (s_drv s) = xs @ SubmitVerify n # ys \<Longrightarrow> bi_size it = 0 \<Longrightarrow>
     h = fill_segs (s_disks s (bi_bdev n)) (unat (bi_sector (bi_iter n)) * 512) (bi_io_vec n) (heap (s_drv s)) \<Longrightarrow>
     pciev_read_bio_endio K (n\<lparr>bi_iter := it\<rparr>) ((s_drv s)\<lparr>submitted := xs @ ys, heap := h\<rparr>) = Some (Ret st) \<Longrightarrow>
     sys_step K L D G s (s\<lparr>s_drv := st\<rparr>)"
| write_done: "submitted (s_drv s) = xs @ SubmitHost b # ys \<Longrightarrow>
     disk = write_segs (heap (s_drv s)) (unat (bi_sector (bi_iter b)) * 512) (bi_io_vec b) (s_disks s (bi_bdev b)) \<Longrightarrow>
     sys_step K L D G s (s\<lparr>s_drv := (s_drv s)\<lparr>submitted := xs @ ys\<rparr>,
       s_disks := (s_disks s)(bi_bdev b := disk)\<rparr>)"
| work_down: "workqueue (s_drv s) = xs @ w # ys \<Longrightarrow>
     down_interruptible K (s_drv s) = Some (True, st) \<Longrightarrow>
     sys_step K L D G s (s\<lparr>s_drv := st\<lparr>workqueue := xs @ ys\<rparr>, s_workers := s_workers s @ [w]\<rparr>)"
| work_post: "s_workers s = xs @ w # ys \<Longrightarrow>
     verify_work_post K w (s_drv s, s_mmio s) = Ret (st, mm) \<Longrightarrow>
     sys_step K L D G s (s\<lparr>s_drv := st, s_mmio := mm, s_workers := xs @ ys, s_posts := Suc (s_posts s)\<rparr>)"
| dev: "block_io E \<Longrightarrow> blk_call_succeeds E \<Longrightarrow>
     dev_step L E (s_pc s, s_dev s, s_mmio s, s_parity s) = Some (Ret (pc, d, mm, disk)) \<Longrightarrow>
     sys_step K L D G s (s\<lparr>s_pc := pc, s_dev := d, s_mmio := mm, s_parity := disk\<rparr>)"
| poll: "s_pc s = DevIdle \<Longrightarrow>
     sys_step K L D G s (s\<lparr>s_mmio := pciev_proc_bars (s_dev s) (s_mmio s)\<rparr>)"
| irq: "d_irqs (s_dev s) = i # is \<Longrightarrow>
     sys_step K L D G s (s\<lparr>s_dev := (s_dev s)\<lparr>d_irqs := is\<rparr>, s_drv := pcievdrv_interrupt (s_drv s)\<rparr>)"
| env: "\<forall>p \<in> used_pages s. map_of h p = map_of (heap (s_drv s)) p \<Longrightarrow>
     sys_step K L D G s (s\<lparr>s_drv := (s_drv s)\<lparr>heap := h\<rparr>\<rparr>)"

inductive_cases sys_stepE: "sys_step K L D G s t"

section \<open>What the upper layers send\<close>

text \<open>
  A write request as the array can serve it: a bio over its whole vector of at most 256
  entries, inside one chunk, whole sectors in every segment, in allocated pages that belong to
  the caller; and two of its segments meet at a seam only if the page allocator keeps its
  pages apart. Requests that leave one of the last two out: \<open>split_write_faults\<close> for those
  over several chunks, \<open>adjacent_pages_lose_write\<close> for a seam over neighbouring pages.
\<close>

definition write_request :: "kernel \<Rightarrow> host_bio \<Rightarrow> sys \<Rightarrow> bool" where
  "write_request K b s \<longleftrightarrow> whole_bio b \<and> request_of b \<and> in_one_chunk b \<and> bi_opf b = REQ_OP_WRITE \<and>
     unat (bi_vcnt b) \<le> 256 \<and> whole_sectors (bi_io_vec b) \<and>
     (pages_apart K \<or> seam_free (bi_io_vec b)) \<and>
     set (vec_pages (bi_io_vec b)) \<subseteq> dom (map_of (heap (s_drv s))) \<and>
     set (vec_pages (bi_io_vec b)) \<inter> set (owned_pages (submitted (s_drv s)) (tasks s)) = {}"

text \<open>
  The same, and it overlaps no request that is still under way. (Nothing in the source asks the
  upper layers to wait: \<open>overlapping_writes_break_parity\<close> shows what happens if they do not.)
\<close>

definition careful :: "kernel \<Rightarrow> praid_dev \<Rightarrow> host_bio \<Rightarrow> sys \<Rightarrow> bool" where
  "careful K D b s \<longleftrightarrow> write_request K b s \<and>
     (\<forall>c \<in> set (concat (map sub_bios (submitted (s_drv s)))).
        disjoint_bios (place_part D (bi_sector (bi_iter b)) b) c)"

section \<open>The invariant\<close>

text \<open>A request is with the device, from its posting until its interrupt is raised.\<close>

definition busy :: "dev_pc \<Rightarrow> mmio \<Rightarrow> bool" where
  "busy pc mm \<longleftrightarrow> pc \<noteq> DevIdle \<or> io_num (mm_bar mm) \<noteq> io_done (mm_bar mm)"

text \<open>The parity difference the registers and the calculation area stand for.\<close>

definition reg_delta :: "mmio \<Rightarrow> nat \<Rightarrow> u8" where
  "reg_delta mm a = (let s = unat (io_sector_sta (mm_bar mm)) * 512 in
     if s \<le> a \<and> a < s + unat (io_size (mm_bar mm))
     then request_delta mm (unat (io_offset (mm_bar mm)) + (a - s)) else 0)"

definition posted_delta :: "dev_pc \<Rightarrow> mmio \<Rightarrow> nat \<Rightarrow> u8" where
  "posted_delta pc mm a = (if busy pc mm \<and> pc \<noteq> DevStored then reg_delta mm a else 0)"

text \<open>What the device thread knows at each of its places.\<close>

definition parity_chunk :: "mmio \<Rightarrow> (nat \<Rightarrow> u8) \<Rightarrow> bool" where
  "parity_chunk mm f \<longleftrightarrow> (\<forall>k < unat (io_size (mm_bar mm)).
     mm_chunks mm (8192 + unat (io_offset (mm_bar mm)) + k) = f (unat (io_sector_sta (mm_bar mm)) * 512 + k))"

fun dev_ok :: "dev_pc \<Rightarrow> mmio \<Rightarrow> bytes \<Rightarrow> bool" where
  "dev_ok DevIdle mm disk \<longleftrightarrow> unat (io_num (mm_bar mm)) = unat (io_done (mm_bar mm)) \<or>
     unat (io_num (mm_bar mm)) = unat (io_done (mm_bar mm)) + 1 \<and> request_ok mm"
| "dev_ok DevTaken mm disk \<longleftrightarrow> io_num (mm_bar mm) = io_done (mm_bar mm) \<and> request_ok mm"
| "dev_ok (DevFetched off n) mm disk \<longleftrightarrow> io_num (mm_bar mm) = io_done (mm_bar mm) \<and> request_ok mm \<and>
     off = io_offset (mm_bar mm) \<and> n = io_size (mm_bar mm)"
| "dev_ok (DevLoaded off n) mm disk \<longleftrightarrow> io_num (mm_bar mm) = io_done (mm_bar mm) \<and> request_ok mm \<and>
     off = io_offset (mm_bar mm) \<and> n = io_size (mm_bar mm) \<and> parity_chunk mm disk"
| "dev_ok (DevSummed off n) mm disk \<longleftrightarrow> io_num (mm_bar mm) = io_done (mm_bar mm) \<and> request_ok mm \<and>
     off = io_offset (mm_bar mm) \<and> n = io_size (mm_bar mm) \<and>
     parity_chunk mm (\<lambda>a. disk a XOR reg_delta mm a)"
| "dev_ok DevStored mm disk \<longleftrightarrow> io_num (mm_bar mm) = io_done (mm_bar mm)"

definition outstanding :: "sys \<Rightarrow> nat" where
  "outstanding s = (if busy (s_pc s) (s_mmio s) then 1 else 0)"

definition write_delta :: "sys \<Rightarrow> host_bio \<Rightarrow> nat \<Rightarrow> u8" where
  "write_delta s b a = segs_delta (heap (s_drv s)) (s_disks s (bi_bdev b))
     (unat (bi_sector (bi_iter b)) * 512) (bi_io_vec b) a"

definition data_disks :: "praid_dev \<Rightarrow> nat list" where
  "data_disks D = take (unat (disk_cnt D)) (bdev D)"

definition writes_under_way :: "sys \<Rightarrow> host_bio list" where
  "writes_under_way s = concat (map sub_writes (submitted (s_drv s)))"

definition parity_of :: "praid_dev \<Rightarrow> sys \<Rightarrow> nat \<Rightarrow> u8" where
  "parity_of D s a = xor_list (\<lambda>d. s_disks s d a) (data_disks D)"

text \<open>The difference between the parity disk and the parity of the data disks.\<close>

definition mismatch :: "praid_dev \<Rightarrow> sys \<Rightarrow> nat \<Rightarrow> u8" where
  "mismatch D s a = s_parity s a XOR parity_of D s a"

text \<open>What the work under way will still do to that difference.\<close>

definition to_come :: "sys \<Rightarrow> nat \<Rightarrow> u8" where
  "to_come s a = xor_list (\<lambda>w. task_delta (heap (s_drv s)) w a) (tasks s) XOR posted_delta (s_pc s) (s_mmio s) a XOR
     xor_list (\<lambda>b. write_delta s b a) (writes_under_way s)"

definition work_shape :: "verify_work \<Rightarrow> bool" where
  "work_shape w \<longleftrightarrow> work_ok w \<and> 8 dvd unat (w_size w)"

definition bio_shape :: "praid_dev \<Rightarrow> host_bio \<Rightarrow> bool" where
  "bio_shape D b \<longleftrightarrow> bi_opf b = REQ_OP_WRITE \<and> whole_bio b \<and> whole_sectors (bi_io_vec b) \<and> bi_bdev b \<in> set (data_disks D) \<and>
     unat (bi_sector (bi_iter b)) * 512 + vec_bytes (bi_io_vec b) < 2 ^ 73"

fun sub_shape :: "praid_dev \<Rightarrow> submission \<Rightarrow> bool" where
  "sub_shape D (SubmitVerify n) \<longleftrightarrow> (\<exists>b. read_for n b \<and> bio_shape D b)"
| "sub_shape D (SubmitHost b) \<longleftrightarrow> bio_shape D b"

text \<open>One token: free, with a worker, with the device, or in an interrupt under way.\<close>

definition token_inv :: "sys \<Rightarrow> bool" where
  "token_inv s \<longleftrightarrow>
     sem (s_drv s) + length (s_workers s) + outstanding s + length (d_irqs (s_dev s)) = 1"

definition device_inv :: "sys \<Rightarrow> bool" where
  "device_inv s \<longleftrightarrow> unat (io_num (mm_bar (s_mmio s))) = s_posts s \<and> dev_ok (s_pc s) (s_mmio s) (s_parity s)"

text \<open>
  Requests and tasks are well formed, and any two requests under way are related by \<open>R\<close>: for
  the safety of the parity they must be disjoint.
\<close>

definition shape_inv :: "(host_bio \<Rightarrow> host_bio \<Rightarrow> bool) \<Rightarrow> praid_dev \<Rightarrow> sys \<Rightarrow> bool" where
  "shape_inv R D s \<longleftrightarrow> (\<forall>x \<in> set (submitted (s_drv s)). sub_shape D x) \<and> (\<forall>w \<in> set (tasks s). work_shape w) \<and>
     sorted_wrt R (concat (map sub_bios (submitted (s_drv s))))"

text \<open>The pages of the driver are its own, each of one read or one task.\<close>

definition page_inv :: "sys \<Rightarrow> bool" where
  "page_inv s \<longleftrightarrow> distinct (owned_pages (submitted (s_drv s)) (tasks s)) \<and>
     set (owned_pages (submitted (s_drv s)) (tasks s)) \<inter> caller_pages (submitted (s_drv s)) = {} \<and>
     used_pages s \<subseteq> dom (map_of (heap (s_drv s)))"

definition parity_inv :: "praid_dev \<Rightarrow> (nat \<Rightarrow> u8) \<Rightarrow> sys \<Rightarrow> bool" where
  "parity_inv D m s \<longleftrightarrow> (\<forall>a. mismatch D s a = to_come s a XOR m a)"

definition system_inv :: "(host_bio \<Rightarrow> host_bio \<Rightarrow> bool) \<Rightarrow> praid_dev \<Rightarrow> (nat \<Rightarrow> u8) \<Rightarrow> sys \<Rightarrow> bool" where
  "system_inv R D m s \<longleftrightarrow> token_inv s \<and> device_inv s \<and> shape_inv R D s \<and> page_inv s \<and> parity_inv D m s"

lemmas sys_defs = tasks_def used_pages_def mismatch_def to_come_def parity_of_def writes_under_way_def
  write_delta_def

section \<open>Steps of the device\<close>

lemma reg_delta_cong:
  assumes "io_sector_sta (mm_bar mm') = io_sector_sta (mm_bar mm)"
    and "io_size (mm_bar mm') = io_size (mm_bar mm)" and "io_offset (mm_bar mm') = io_offset (mm_bar mm)"
    and "request_ok mm" and "\<forall>i < 8192. mm_chunks mm' i = mm_chunks mm i"
  shows "reg_delta mm' a = reg_delta mm a"
  using assms by (auto simp: reg_delta_def Let_def request_delta_def request_ok_def)

lemma request_ok_cong:
  "io_size (mm_bar mm') = io_size (mm_bar mm) \<Longrightarrow> io_offset (mm_bar mm') = io_offset (mm_bar mm) \<Longrightarrow>
     request_ok mm' = request_ok mm"
  by (simp add: request_ok_def)

lemma reg_delta_at:
  assumes "k < unat (io_size (mm_bar mm))"
  shows "reg_delta mm (unat (io_sector_sta (mm_bar mm)) * 512 + k) =
    request_delta mm (unat (io_offset (mm_bar mm)) + k)"
  using assms by (simp add: reg_delta_def)

text \<open>
  A step of the device thread keeps what it knows, keeps the sum of parity disk and posted
  difference, and ends a request exactly when it raises an interrupt.
\<close>

definition dev_step_good ::
  "dev_pc \<times> dev_state \<Rightarrow> dev_pc \<times> dev_state \<Rightarrow> bool" where
  "dev_step_good = (\<lambda>(pc, d, mm, disk) (pc', d', mm', disk').
     dev_ok pc' mm' disk' \<and> io_num (mm_bar mm') = io_num (mm_bar mm) \<and>
     (if busy pc' mm' then 1 else 0) + length (d_irqs d') =
       (if busy pc mm then 1 else 0) + length (d_irqs d) \<and>
     (\<forall>a. disk' a XOR posted_delta pc' mm' a = disk a XOR posted_delta pc mm a))"

lemma dev_step_idle:
  assumes "dev_ok DevIdle mm disk"
  shows "\<exists>c. dev_step L E (DevIdle, d, mm, disk) = Some (Ret c) \<and> dev_step_good (DevIdle, d, mm, disk) c"
proof (cases "io_num (mm_bar mm) \<le> io_done (mm_bar mm)")
  case True
  then show ?thesis using assms by (auto simp: dev_step_good_def)
next
  case False
  then have n: "unat (io_num (mm_bar mm)) = unat (io_done (mm_bar mm)) + 1" "request_ok mm"
    using assms by (auto simp: word_le_nat_alt)
  have "unat (io_done (mm_bar mm) + 1) = unat (io_done (mm_bar mm)) + 1"
    using n(1) unat_less [of "io_num (mm_bar mm)"] by (intro unat_inc) simp
  then have d: "io_done (mm_bar mm) + 1 = io_num (mm_bar mm)" using n(1) by (simp add: word_unat_eq_iff)
  have "io_num (mm_bar mm) \<noteq> io_done (mm_bar mm)" using n(1) by auto
  with False d n(2) show ?thesis
    by (auto simp: dev_step_good_def busy_def posted_delta_def request_ok_def reg_delta_def Let_def
        request_delta_def)
qed

lemma dev_step_fetched:
  assumes "block_io E" and "blk_call_succeeds E" and "dev_ok (DevFetched off n) mm disk"
  shows "\<exists>c. dev_step L E (DevFetched off n, d, mm, disk) = Some (Ret c) \<and>
    dev_step_good (DevFetched off n, d, mm, disk) c"
proof -
  obtain mm' where mm': "mm' = mm\<lparr>mm_chunks := copy_bytes (mm_chunks mm) (8192 + unat off) disk
      (unat (io_sector_sta (mm_bar mm)) * 512) (unat n)\<rparr>" by blast
  have ok: "request_ok mm" "off = io_offset (mm_bar mm)" "n = io_size (mm_bar mm)"
    "io_num (mm_bar mm) = io_done (mm_bar mm)" using assms(3) by auto
  have bar: "mm_bar mm' = mm_bar mm" by (simp add: mm')
  have same: "reg_delta mm' a = reg_delta mm a" for a
    by (rule reg_delta_cong) (use ok in \<open>simp_all add: mm' copy_bytes_def\<close>)
  have "parity_chunk mm' disk" using ok by (simp add: mm' parity_chunk_def copy_bytes_in)
  then have "dev_ok (DevLoaded off n) mm' disk" using ok by (simp add: bar request_ok_def)
  then have "dev_step_good (DevFetched off n, d, mm, disk) (DevLoaded off n, d, mm', disk)"
    by (simp only: dev_step_good_def prod.case busy_def posted_delta_def same bar) simp
  then show ?thesis using block_io.submit_read [OF assms(1,2)] by (simp add: mm')
qed

lemma dev_step_loaded:
  assumes "dev_ok (DevLoaded off n) mm disk"
  shows "\<exists>c. dev_step L E (DevLoaded off n, d, mm, disk) = Some (Ret c) \<and>
    dev_step_good (DevLoaded off n, d, mm, disk) c"
proof -
  obtain mm' where mm': "mm' = mm\<lparr>mm_chunks := xor_region (unat off) (unat n) (mm_chunks mm)\<rparr>" by blast
  have ok: "request_ok mm" "off = io_offset (mm_bar mm)" "n = io_size (mm_bar mm)"
    "io_num (mm_bar mm) = io_done (mm_bar mm)" and pc: "parity_chunk mm disk" using assms by auto
  have bar: "mm_bar mm' = mm_bar mm" by (simp add: mm')
  have same: "reg_delta mm' a = reg_delta mm a" for a
    by (rule reg_delta_cong) (use ok in \<open>simp_all add: mm' xor_region_def\<close>)
  have "mm_chunks mm' (8192 + unat off + k) = disk (unat (io_sector_sta (mm_bar mm)) * 512 + k) XOR
      reg_delta mm (unat (io_sector_sta (mm_bar mm)) * 512 + k)" if "k < unat (io_size (mm_bar mm))" for k
    unfolding reg_delta_at [OF that] using that pc ok(2,3)
    by (simp add: request_delta_def mm' xor_region_def parity_chunk_def add_ac)
  then have "parity_chunk mm' (\<lambda>a. disk a XOR reg_delta mm' a)"
    using ok(2) by (simp add: parity_chunk_def same bar)
  then have "dev_ok (DevSummed off n) mm' disk" using ok by (simp add: bar request_ok_def)
  then have "dev_step_good (DevLoaded off n, d, mm, disk) (DevSummed off n, d, mm', disk)"
    by (simp only: dev_step_good_def prod.case busy_def posted_delta_def same bar) simp
  moreover have "xor_loop off n 0 (mm_chunks mm) = Some (mm_chunks mm')"
    using ok by (simp add: mm' xor_loop_range request_ok_def)
  ultimately show ?thesis by (simp add: mm')
qed

lemma dev_step_summed:
  assumes "block_io E" and "blk_call_succeeds E" and "dev_ok (DevSummed off n) mm disk"
  shows "\<exists>c. dev_step L E (DevSummed off n, d, mm, disk) = Some (Ret c) \<and>
    dev_step_good (DevSummed off n, d, mm, disk) c"
proof -
  let ?s = "unat (io_sector_sta (mm_bar mm)) * 512"
  obtain disk' where disk': "disk' = copy_bytes disk ?s (mm_chunks mm) (8192 + unat off) (unat n)" by blast
  have ok: "request_ok mm" "off = io_offset (mm_bar mm)" "n = io_size (mm_bar mm)"
    "io_num (mm_bar mm) = io_done (mm_bar mm)"
    and pc: "parity_chunk mm (\<lambda>a. disk a XOR reg_delta mm a)" using assms(3) by auto
  have "disk' a = disk a XOR reg_delta mm a" for a
  proof (cases "?s \<le> a \<and> a < ?s + unat n")
    case True
    then obtain k where k: "a = ?s + k" "k < unat n" using le_Suc_ex by auto
    then show ?thesis using pc ok(2,3) by (simp add: disk' copy_bytes_in parity_chunk_def)
  next
    case False
    then show ?thesis using ok(3) by (auto simp: disk' copy_bytes_def reg_delta_def Let_def)
  qed
  then have "dev_step_good (DevSummed off n, d, mm, disk) (DevStored, d, mm, disk')"
    using ok(4) by (simp add: dev_step_good_def busy_def posted_delta_def)
  then show ?thesis using block_io.submit_write [OF assms(1,2)]
    by (intro exI [of _ "(DevStored, d, mm, disk')"]) (simp add: disk')
qed

lemma dev_step_inv:
  assumes E: "block_io E" "blk_call_succeeds E" and L: "irq_layer_ok L" and ok: "dev_ok pc mm disk"
  shows "\<exists>c. dev_step L E (pc, d, mm, disk) = Some (Ret c) \<and> dev_step_good (pc, d, mm, disk) c"
proof (cases pc)
  case DevIdle
  show ?thesis using dev_step_idle ok unfolding DevIdle .
next
  case DevStored
  then show ?thesis using ok
    by (simp add: pciev_signal_irq_ok [OF L] dev_step_good_def busy_def posted_delta_def irq_raised_def)
next
  case DevTaken
  then show ?thesis using ok by (simp add: dev_step_good_def busy_def posted_delta_def)
next
  case (DevFetched off n)
  show ?thesis using dev_step_fetched [OF E] ok unfolding DevFetched .
next
  case (DevLoaded off n)
  show ?thesis using dev_step_loaded ok unfolding DevLoaded .
next
  case (DevSummed off n)
  show ?thesis using dev_step_summed [OF E] ok unfolding DevSummed .
qed

section \<open>The invariant, step by step\<close>

lemma read_pages_simps [simp]:
  "read_pages [] = []" "read_pages (xs @ ys) = read_pages xs @ read_pages ys"
  "read_pages (SubmitVerify n # xs) = vec_pages (bi_io_vec n) @ read_pages xs"
  "read_pages (SubmitHost b # xs) = read_pages xs"
  by (simp_all add: read_pages_def)

lemma caller_pages_simps [simp]:
  "caller_pages [] = {}" "caller_pages (xs @ ys) = caller_pages xs \<union> caller_pages ys"
  "caller_pages (x # xs) = (\<Union>b \<in> set (sub_bios x). set (vec_pages (bi_io_vec b))) \<union> caller_pages xs"
  by (auto simp: caller_pages_def)

lemma xor_shift:
  fixes P :: u8
  assumes "P' XOR d' = P XOR d" and "P XOR Q = (T XOR d XOR W) XOR m"
  shows "P' XOR Q = (T XOR d' XOR W) XOR m"
proof -
  have "P' = (P XOR d) XOR d'" and "P = ((T XOR d XOR W) XOR m) XOR Q"
    using assms by (simp_all add: xor_eq_iff)
  then show ?thesis by (simp add: xor.assoc xor.commute xor.left_commute)
qed

lemma inv_dev:
  assumes inv: "system_inv R D m s" and E: "block_io E" "blk_call_succeeds E" "irq_layer_ok L"
    and step: "dev_step L E (s_pc s, s_dev s, s_mmio s, s_parity s) = Some (Ret (pc, d, mm, disk))"
  shows "system_inv R D m (s\<lparr>s_pc := pc, s_dev := d, s_mmio := mm, s_parity := disk\<rparr>)"
proof -
  let ?t = "s\<lparr>s_pc := pc, s_dev := d, s_mmio := mm, s_parity := disk\<rparr>"
  note inv = inv [unfolded system_inv_def]
  have "dev_ok (s_pc s) (s_mmio s) (s_parity s)" using inv by (simp add: device_inv_def)
  from dev_step_inv [OF E this, of "s_dev s"] step
  have good: "dev_step_good (s_pc s, s_dev s, s_mmio s, s_parity s) (pc, d, mm, disk)" by auto
  have frame: "tasks ?t = tasks s" "used_pages ?t = used_pages s" "parity_of D ?t = parity_of D s"
    "write_delta ?t = write_delta s" "writes_under_way ?t = writes_under_way s"
    by (simp_all add: sys_defs fun_eq_iff)
  have "mismatch D ?t a = to_come ?t a XOR m a" for a
  proof -
    have "mismatch D s a = to_come s a XOR m a" using inv by (simp add: parity_inv_def)
    then have "s_parity s a XOR parity_of D s a = (xor_list (\<lambda>w. task_delta (heap (s_drv s)) w a) (tasks s) XOR
        posted_delta (s_pc s) (s_mmio s) a XOR xor_list (\<lambda>b. write_delta s b a) (writes_under_way s)) XOR m a"
      by (simp add: mismatch_def to_come_def)
    from xor_shift [OF _ this, of "disk a" "posted_delta pc mm a"] good show ?thesis
      by (simp add: mismatch_def to_come_def frame dev_step_good_def)
  qed
  then have "parity_inv D m ?t" by (simp add: parity_inv_def)
  moreover have "token_inv ?t" "device_inv ?t"
    using inv good by (simp_all add: token_inv_def device_inv_def dev_step_good_def outstanding_def)
  ultimately show ?thesis
    using inv by (simp add: system_inv_def shape_inv_def page_inv_def frame)
qed

lemma reg_delta_proc_bars [simp]: "reg_delta (pciev_proc_bars d mm) = reg_delta mm"
  by (simp add: fun_eq_iff reg_delta_def request_delta_def Let_def)

lemma busy_proc_bars [simp]: "busy pc (pciev_proc_bars d mm) = busy pc mm"
  by (simp add: busy_def)

lemma inv_poll:
  assumes inv: "system_inv R D m s" and idle: "s_pc s = DevIdle"
  shows "system_inv R D m (s\<lparr>s_mmio := pciev_proc_bars (s_dev s) (s_mmio s)\<rparr>)"
proof -
  let ?t = "s\<lparr>s_mmio := pciev_proc_bars (s_dev s) (s_mmio s)\<rparr>"
  have "outstanding ?t = outstanding s" "tasks ?t = tasks s" "used_pages ?t = used_pages s"
    "mismatch D ?t = mismatch D s" "to_come ?t = to_come s" "device_inv ?t = device_inv s"
    using idle by (simp_all add: outstanding_def sys_defs fun_eq_iff posted_delta_def device_inv_def)
  with inv show ?thesis
    by (simp add: system_inv_def token_inv_def shape_inv_def page_inv_def parity_inv_def)
qed

lemma inv_irq:
  assumes inv: "system_inv R D m s" and i: "d_irqs (s_dev s) = i # is"
  shows "system_inv R D m (s\<lparr>s_dev := (s_dev s)\<lparr>d_irqs := is\<rparr>, s_drv := pcievdrv_interrupt (s_drv s)\<rparr>)"
proof -
  let ?t = "s\<lparr>s_dev := (s_dev s)\<lparr>d_irqs := is\<rparr>, s_drv := pcievdrv_interrupt (s_drv s)\<rparr>"
  have "outstanding ?t = outstanding s" "tasks ?t = tasks s" "used_pages ?t = used_pages s"
    "mismatch D ?t = mismatch D s" "to_come ?t = to_come s" "device_inv ?t = device_inv s"
    by (simp_all add: outstanding_def sys_defs fun_eq_iff device_inv_def pcievdrv_interrupt_def up_def)
  with inv i show ?thesis
    by (simp add: system_inv_def token_inv_def shape_inv_def page_inv_def parity_inv_def
        pcievdrv_interrupt_def up_def)
qed

text \<open>Work deltas and write deltas only look at the pages in use.\<close>

lemma page_of_cong: "map_of h p = map_of h' p \<Longrightarrow> page_of h p = page_of h' p"
  by (simp add: page_of_def)

lemma task_delta_cong:
  "page_of h (w_page_new w) = page_of h' (w_page_new w) \<Longrightarrow>
     page_of h (w_page_old w) = page_of h' (w_page_old w) \<Longrightarrow> task_delta h w a = task_delta h' w a"
  by (simp add: task_delta_def Let_def)

lemma work_pages_in: "w \<in> set ws \<Longrightarrow> w_page_new w \<in> set (work_pages ws) \<and> w_page_old w \<in> set (work_pages ws)"
  by (auto simp: work_pages_def)

lemma tasks_delta_cong:
  "(\<forall>p \<in> set (work_pages ws). map_of h p = map_of h' p) \<Longrightarrow>
     xor_list (\<lambda>w. task_delta h w a) ws = xor_list (\<lambda>w. task_delta h' w a) ws"
  by (intro xor_list_cong task_delta_cong page_of_cong) (auto dest: work_pages_in)

lemma sub_writes_bios: "set (sub_writes x) \<subseteq> set (sub_bios x)"
  by (cases x) auto

lemma bio_range_shape:
  "bio_shape D b \<Longrightarrow> bio_range b = {unat (bi_sector (bi_iter b)) * 512 ..<
     unat (bi_sector (bi_iter b)) * 512 + vec_bytes (bi_io_vec b)}"
  by (simp add: bio_range_def bio_shape_def whole_bio_def)

lemma writes_delta_cong:
  assumes "\<forall>p \<in> caller_pages xs. map_of h p = map_of h' p"
    and "\<forall>b \<in> set (concat (map sub_writes xs)). bio_shape D b \<and>
      (\<forall>a \<in> bio_range b. disks (bi_bdev b) a = disks' (bi_bdev b) a)"
  shows "xor_list (\<lambda>b. segs_delta h (disks (bi_bdev b)) (unat (bi_sector (bi_iter b)) * 512) (bi_io_vec b) a)
      (concat (map sub_writes xs)) =
    xor_list (\<lambda>b. segs_delta h' (disks' (bi_bdev b)) (unat (bi_sector (bi_iter b)) * 512) (bi_io_vec b) a)
      (concat (map sub_writes xs))"
proof (rule xor_list_cong)
  fix b assume b: "b \<in> set (concat (map sub_writes xs))"
  then have "b \<in> set (concat (map sub_bios xs))" using sub_writes_bios by fastforce
  then have pages: "set (vec_pages (bi_io_vec b)) \<subseteq> caller_pages xs"
    by (auto simp: caller_pages_def)
  have "bio_range b = {unat (bi_sector (bi_iter b)) * 512 ..<
      unat (bi_sector (bi_iter b)) * 512 + vec_bytes (bi_io_vec b)}"
    using assms(2) b bio_range_shape by blast
  with b pages assms show "segs_delta h (disks (bi_bdev b)) (unat (bi_sector (bi_iter b)) * 512) (bi_io_vec b) a =
      segs_delta h' (disks' (bi_bdev b)) (unat (bi_sector (bi_iter b)) * 512) (bi_io_vec b) a"
    by (intro segs_delta_cong) (auto simp: vec_pages_def intro!: page_of_cong)
qed

text \<open>Writes under way have the shape of requests on their data disks.\<close>

lemma sub_shape_bios: "sub_shape D x \<Longrightarrow> b \<in> set (sub_bios x) \<Longrightarrow> bio_shape D b"
  by (cases x) (auto simp: read_for_def)

lemma shape_inv_bios:
  "shape_inv R D s \<Longrightarrow> b \<in> set (concat (map sub_bios (submitted (s_drv s)))) \<Longrightarrow> bio_shape D b"
  by (auto simp: shape_inv_def intro: sub_shape_bios)

lemma shape_inv_writes:
  "shape_inv R D s \<Longrightarrow> b \<in> set (writes_under_way s) \<Longrightarrow> bio_shape D b"
  using sub_writes_bios by (fastforce simp: writes_under_way_def intro: shape_inv_bios)

lemma heap_frame:
  assumes "shape_inv R D s" and "\<forall>p \<in> used_pages s. map_of h p = map_of (heap (s_drv s)) p"
  shows "xor_list (\<lambda>w. task_delta h w a) (tasks s) = xor_list (\<lambda>w. task_delta (heap (s_drv s)) w a) (tasks s)"
    and "xor_list (\<lambda>b. segs_delta h (s_disks s (bi_bdev b)) (unat (bi_sector (bi_iter b)) * 512) (bi_io_vec b) a)
      (writes_under_way s) = xor_list (\<lambda>b. write_delta s b a) (writes_under_way s)"
proof -
  show "xor_list (\<lambda>w. task_delta h w a) (tasks s) = xor_list (\<lambda>w. task_delta (heap (s_drv s)) w a) (tasks s)"
    using assms(2) by (intro tasks_delta_cong) (simp add: used_pages_def owned_pages_def)
  show "xor_list (\<lambda>b. segs_delta h (s_disks s (bi_bdev b)) (unat (bi_sector (bi_iter b)) * 512) (bi_io_vec b) a)
      (writes_under_way s) = xor_list (\<lambda>b. write_delta s b a) (writes_under_way s)"
    unfolding writes_under_way_def write_delta_def
    by (rule writes_delta_cong [where D = D])
       (use assms(2) shape_inv_writes [OF assms(1)] in \<open>auto simp: used_pages_def writes_under_way_def\<close>)
qed

lemma inv_env:
  assumes inv: "system_inv R D m s" and h: "\<forall>p \<in> used_pages s. map_of h p = map_of (heap (s_drv s)) p"
  shows "system_inv R D m (s\<lparr>s_drv := (s_drv s)\<lparr>heap := h\<rparr>\<rparr>)"
proof -
  let ?t = "s\<lparr>s_drv := (s_drv s)\<lparr>heap := h\<rparr>\<rparr>"
  have shape: "shape_inv R D s" using inv by (simp add: system_inv_def)
  have frame: "outstanding ?t = outstanding s" "tasks ?t = tasks s" "used_pages ?t = used_pages s"
    "mismatch D ?t = mismatch D s" "device_inv ?t = device_inv s" "writes_under_way ?t = writes_under_way s"
    by (simp_all add: outstanding_def sys_defs fun_eq_iff device_inv_def)
  have "to_come ?t = to_come s"
    using heap_frame [OF shape h] by (simp add: fun_eq_iff to_come_def frame) (simp add: write_delta_def)
  moreover have "used_pages s \<subseteq> dom (map_of h)"
    using inv h by (fastforce simp: system_inv_def page_inv_def dom_def)
  ultimately show ?thesis using inv
    by (simp add: system_inv_def token_inv_def shape_inv_def page_inv_def parity_inv_def frame)
qed

section \<open>Steps of the workers\<close>

lemma xor_list_mset: "mset xs = mset ys \<Longrightarrow> xor_list f xs = xor_list f ys"
proof (induction xs arbitrary: ys)
  case (Cons x xs)
  then have "x \<in> set ys" by (metis list.set_intros(1) set_mset_mset)
  then obtain as bs where ys: "ys = as @ x # bs" by (meson split_list)
  with Cons.prems have "mset xs = mset (as @ bs)" by simp
  from Cons.IH [OF this] show ?case by (simp add: ys xor.left_commute)
qed simp

lemma work_pages_mset: "mset ws = mset vs \<Longrightarrow> mset (work_pages ws) = mset (work_pages vs)"
proof (induction ws arbitrary: vs)
  case (Cons w ws)
  then have "w \<in> set vs" by (metis list.set_intros(1) set_mset_mset)
  then obtain as bs where vs: "vs = as @ w # bs" by (meson split_list)
  with Cons.prems have "mset ws = mset (as @ bs)" by simp
  from Cons.IH [OF this] show ?case by (simp add: vs)
qed simp

text \<open>The invariant only depends on which tasks there are, not on who has them.\<close>

lemma inv_tasks:
  assumes inv: "system_inv R D m s"
    and eq: "s_mmio t = s_mmio s" "s_pc t = s_pc s" "s_parity t = s_parity s" "s_disks t = s_disks s"
      "s_posts t = s_posts s" "heap (s_drv t) = heap (s_drv s)" "submitted (s_drv t) = submitted (s_drv s)"
    and tasks: "mset (tasks t) = mset (tasks s)" and token: "token_inv t"
  shows "system_inv R D m t"
proof -
  have sets: "set (tasks t) = set (tasks s)" using tasks by (metis set_mset_mset)
  have wp: "mset (work_pages (tasks t)) = mset (work_pages (tasks s))" using tasks by (rule work_pages_mset)
  then have owned: "mset (owned_pages xs (tasks t)) = mset (owned_pages xs (tasks s))" for xs
    by (simp add: owned_pages_def)
  then have os: "set (owned_pages xs (tasks t)) = set (owned_pages xs (tasks s))"
    and od: "distinct (owned_pages xs (tasks t)) = distinct (owned_pages xs (tasks s))" for xs
    by (metis set_mset_mset, metis distinct_count_atmost_1 set_mset_mset)
  have "device_inv t = device_inv s" "shape_inv R D t = shape_inv R D s" "page_inv t = page_inv s"
    using eq by (simp_all add: device_inv_def shape_inv_def page_inv_def used_pages_def sets os od)
  moreover have "mismatch D t a = mismatch D s a" "to_come t a = to_come s a" for a
    using eq xor_list_mset [OF tasks]
    by (simp_all add: mismatch_def parity_of_def to_come_def write_delta_def writes_under_way_def)
  ultimately show ?thesis using inv token by (simp add: system_inv_def parity_inv_def)
qed

lemma inv_work_down:
  assumes inv: "system_inv R D m s" and w: "workqueue (s_drv s) = xs @ w # ys"
    and down: "down_interruptible K (s_drv s) = Some (True, st)"
  shows "system_inv R D m (s\<lparr>s_drv := st\<lparr>workqueue := xs @ ys\<rparr>, s_workers := s_workers s @ [w]\<rparr>)"
proof (rule inv_tasks [OF inv])
  let ?t = "s\<lparr>s_drv := st\<lparr>workqueue := xs @ ys\<rparr>, s_workers := s_workers s @ [w]\<rparr>"
  have st: "0 < sem (s_drv s)" "st = (tick (s_drv s))\<lparr>sem := sem (s_drv s) - 1\<rparr>"
    using down by (auto simp: down_interruptible_def split: if_splits)
  have "sem (s_drv ?t) = sem (s_drv s) - 1" "length (s_workers ?t) = length (s_workers s) + 1"
    "outstanding ?t = outstanding s" "s_dev ?t = s_dev s" by (simp_all add: st(2) outstanding_def)
  moreover have "token_inv s" using inv by (simp add: system_inv_def)
  ultimately show "token_inv ?t" using st(1) unfolding token_inv_def by presburger
qed (use down w in \<open>auto simp: down_interruptible_def tasks_def split: if_splits\<close>)

text \<open>Handing a task to the device moves its difference into the registers.\<close>

lemma posted_reg_delta:
  assumes "work_ok w"
  shows "reg_delta (posted mm w co cn) a = (let s = unat (w_num_sector w) * 512 in
     if s \<le> a \<and> a < s + unat (w_size w)
     then co (unat (w_offset w) + (a - s)) XOR cn (unat (w_offset w) + (a - s)) else 0)"
proof -
  let ?s = "unat (w_num_sector w) * 512" and ?o = "unat (w_offset w)"
  have bar: "mm_bar (posted mm w co cn) = (mm_bar mm)\<lparr>io_offset := w_offset w, io_size := w_size w,
      io_sector_sta := w_num_sector w, io_num := io_num (mm_bar mm) + 1\<rparr>" by (simp add: posted_def)
  have "request_delta (posted mm w co cn) i = co i XOR cn i" if "?o \<le> i" "i < ?o + unat (w_size w)" for i
    using posted_chunks [OF assms that] by (simp add: request_delta_def)
  then have "request_delta (posted mm w co cn) (?o + (a - ?s)) = co (?o + (a - ?s)) XOR cn (?o + (a - ?s))"
    if "?s \<le> a \<and> a < ?s + unat (w_size w)" using that by (metis le_add1 add_less_cancel_left less_diff_conv2 add.commute)
  then show ?thesis by (simp add: reg_delta_def Let_def bar)
qed

lemma posted_device:
  assumes "work_shape w" and "dev_ok DevIdle mm disk" and "\<not> busy DevIdle mm"
    and "Suc (unat (io_num (mm_bar mm))) < 2 ^ 32"
  shows "dev_ok DevIdle (posted mm w co cn) disk" and "busy DevIdle (posted mm w co cn)"
    and "unat (io_num (mm_bar (posted mm w co cn))) = Suc (unat (io_num (mm_bar mm)))"
proof -
  have n: "unat (io_num (mm_bar mm) + 1) = unat (io_num (mm_bar mm)) + 1"
    using assms(4) by (intro unat_inc) simp
  then show "unat (io_num (mm_bar (posted mm w co cn))) = Suc (unat (io_num (mm_bar mm)))"
    by (simp add: posted_def)
  have "request_ok (posted mm w co cn)"
    using assms(1) by (simp add: request_ok_def posted_def work_shape_def work_ok_def)
  with n assms(3) show "dev_ok DevIdle (posted mm w co cn) disk"
    by (simp add: busy_def) (simp add: posted_def)
  show "busy DevIdle (posted mm w co cn)"
    using assms(3) n by (auto simp: busy_def posted_def)
qed

text \<open>While a worker holds the token, it is the only one, and the device is idle.\<close>

lemma token_worker:
  assumes "token_inv s" and "s_workers s = xs @ w # ys"
  shows "xs = [] \<and> ys = [] \<and> sem (s_drv s) = 0 \<and> d_irqs (s_dev s) = [] \<and> s_pc s = DevIdle \<and>
    \<not> busy (s_pc s) (s_mmio s)"
proof -
  have "sem (s_drv s) + (length xs + Suc (length ys)) + outstanding s + length (d_irqs (s_dev s)) = 1"
    using assms by (simp add: token_inv_def)
  then have "length xs = 0" "length ys = 0" "sem (s_drv s) = 0" "outstanding s = 0"
    "length (d_irqs (s_dev s)) = 0" by linarith+
  moreover from \<open>outstanding s = 0\<close> have "\<not> busy (s_pc s) (s_mmio s)"
    by (simp add: outstanding_def split: if_splits)
  ultimately show ?thesis by (simp add: busy_def)
qed

lemma posted_to_come:
  assumes shape: "shape_inv R D s" and tasks: "tasks s = workqueue (s_drv s) @ [w]" and ws: "work_shape w"
    and idle: "s_pc s = DevIdle" "\<not> busy DevIdle (s_mmio s)" and busy: "busy DevIdle (posted (s_mmio s) w co cn)"
    and c: "map_of (heap (s_drv s)) (w_page_new w) = Some cn" "map_of (heap (s_drv s)) (w_page_old w) = Some co"
    and st: "submitted st = submitted (s_drv s)" "workqueue st = workqueue (s_drv s)"
    and heap: "\<forall>p \<in> used_pages (s\<lparr>s_workers := []\<rparr>). map_of (heap st) p = map_of (heap (s_drv s)) p"
  shows "to_come (s\<lparr>s_drv := st, s_mmio := posted (s_mmio s) w co cn, s_workers := [], s_posts := n\<rparr>) a = to_come s a"
proof -
  let ?t = "s\<lparr>s_drv := st, s_mmio := posted (s_mmio s) w co cn, s_workers := [], s_posts := n\<rparr>"
  let ?u = "s\<lparr>s_workers := []\<rparr>"
  have u: "tasks ?u = workqueue (s_drv s)" "writes_under_way ?u = writes_under_way s"
    by (simp_all add: tasks_def writes_under_way_def)
  have "shape_inv R D ?u" using shape by (simp add: shape_inv_def tasks) (simp add: tasks_def)
  then have frame: "xor_list (\<lambda>w. task_delta (heap st) w a) (workqueue (s_drv s)) =
      xor_list (\<lambda>w. task_delta (heap (s_drv s)) w a) (workqueue (s_drv s))"
    "xor_list (\<lambda>b. segs_delta (heap st) (s_disks s (bi_bdev b)) (unat (bi_sector (bi_iter b)) * 512) (bi_io_vec b) a)
      (writes_under_way s) = xor_list (\<lambda>b. write_delta s b a) (writes_under_way s)"
    using heap_frame [of R D ?u "heap st" a, unfolded u] heap by (simp_all add: write_delta_def)
  have reg: "reg_delta (posted (s_mmio s) w co cn) a = task_delta (heap (s_drv s)) w a"
    using ws by (simp add: posted_reg_delta work_shape_def task_delta_def Let_def c)
  have "to_come s a = xor_list (\<lambda>w. task_delta (heap (s_drv s)) w a) (workqueue (s_drv s)) XOR
      task_delta (heap (s_drv s)) w a XOR xor_list (\<lambda>b. write_delta s b a) (writes_under_way s)"
    using idle by (simp add: to_come_def tasks posted_delta_def xor.assoc)
  moreover have "posted_delta (s_pc ?t) (s_mmio ?t) a = task_delta (heap (s_drv s)) w a"
    using busy reg by (simp add: posted_delta_def idle(1))
  moreover have "tasks ?t = workqueue (s_drv s)" "writes_under_way ?t = writes_under_way s"
    by (simp_all add: tasks_def writes_under_way_def st)
  ultimately show ?thesis
    using frame by (simp add: to_come_def) (simp add: write_delta_def)
qed

lemma inv_work_post:
  assumes inv: "system_inv R D m s" and K: "kmap_total K" and w: "s_workers s = xs @ w # ys"
    and post: "verify_work_post K w (s_drv s, s_mmio s) = Ret (st, mm)" and width: "Suc (s_posts s) < 2 ^ 32"
  shows "system_inv R D m (s\<lparr>s_drv := st, s_mmio := mm, s_workers := xs @ ys, s_posts := Suc (s_posts s)\<rparr>)"
proof -
  let ?t = "s\<lparr>s_drv := st, s_mmio := mm, s_workers := xs @ ys, s_posts := Suc (s_posts s)\<rparr>"
  note inv = inv [unfolded system_inv_def]
  have tok: "token_inv s" and dev: "device_inv s" and shape: "shape_inv R D s" and page: "page_inv s"
    using inv by auto
  from token_worker [OF tok w] have only: "xs = []" "ys = []" "sem (s_drv s) = 0" "d_irqs (s_dev s) = []"
    "s_pc s = DevIdle" "\<not> busy DevIdle (s_mmio s)" by auto
  have tasks: "tasks s = workqueue (s_drv s) @ [w]" by (simp add: tasks_def w only)
  have ws: "work_shape w" using shape by (simp add: shape_inv_def tasks)
  let ?ps = "owned_pages (submitted (s_drv s)) (workqueue (s_drv s))"
  have owned: "owned_pages (submitted (s_drv s)) (tasks s) = ?ps @ [w_page_new w, w_page_old w]"
    by (simp add: owned_pages_def tasks)
  have pages: "distinct (?ps @ [w_page_new w, w_page_old w])"
    "set (?ps @ [w_page_new w, w_page_old w]) \<inter> caller_pages (submitted (s_drv s)) = {}"
    "set (?ps @ [w_page_new w, w_page_old w]) \<union> caller_pages (submitted (s_drv s)) \<subseteq> dom (map_of (heap (s_drv s)))"
    using page by (simp_all only: page_inv_def used_pages_def owned)
  then have "w_page_new w \<in> dom (map_of (heap (s_drv s)))" "w_page_old w \<in> dom (map_of (heap (s_drv s)))"
    "w_page_new w \<noteq> w_page_old w" by auto
  then obtain cn co where c: "map_of (heap (s_drv s)) (w_page_new w) = Some cn"
    "map_of (heap (s_drv s)) (w_page_old w) = Some co" by blast
  obtain st' where st': "verify_work_post K w (s_drv s, s_mmio s) = Ret (st', posted (s_mmio s) w co cn)"
    "map_of (heap st') = (map_of (heap (s_drv s)))(w_page_new w := None, w_page_old w := None)"
    "same_rest (s_drv s) st'"
    using verify_work_post_ok [OF K c \<open>w_page_new w \<noteq> w_page_old w\<close>] by blast
  have eq: "st = st'" "mm = posted (s_mmio s) w co cn" using post st'(1) by simp_all
  have same: "submitted st = submitted (s_drv s)" "workqueue st = workqueue (s_drv s)" "sem st = 0"
    using st'(3) only(3) by (simp_all add: same_rest_def same_io_def eq)
  have d: "dev_ok DevIdle (s_mmio s) (s_parity s)" "unat (io_num (mm_bar (s_mmio s))) = s_posts s"
    using dev only(5) unfolding device_inv_def by metis+
  then have "Suc (unat (io_num (mm_bar (s_mmio s)))) < 2 ^ 32" using width by simp
  note pd = posted_device [OF ws d(1) only(6) this, of co cn]
  have "token_inv ?t" using pd(2) by (simp add: token_inv_def outstanding_def same only eq(2))
  moreover have "device_inv ?t" using pd(1,3) d(2) by (simp add: device_inv_def only(5) eq(2))
  moreover have "shape_inv R D ?t" using shape by (simp add: shape_inv_def same tasks) (simp add: tasks_def only same)
  moreover have "page_inv ?t"
    using pages same [unfolded eq(1)]
    by (auto simp: page_inv_def used_pages_def tasks_def only eq(1) st'(2))
  moreover have "to_come ?t a = to_come s a" for a unfolding eq(2) only(1,2) append_Nil
  proof (rule posted_to_come [OF shape tasks ws only(5,6) pd(2) c same(1,2)])
    show "\<forall>p \<in> used_pages (s\<lparr>s_workers := []\<rparr>). map_of (heap st) p = map_of (heap (s_drv s)) p"
      using pages(1,2) by (auto simp: used_pages_def tasks_def eq(1) st'(2))
  qed
  then have "parity_inv D m ?t" using inv by (simp add: parity_inv_def mismatch_def parity_of_def)
  ultimately show ?thesis by (simp add: system_inv_def)
qed

section \<open>Steps of the block layer\<close>

lemma disjoint_bios_sym: "disjoint_bios b c \<Longrightarrow> disjoint_bios c b"
  by (auto simp: disjoint_bios_def)

lemma symp_disjoint_bios: "symp disjoint_bios"
  by (rule sympI) (rule disjoint_bios_sym)

lemma xor_list_update:
  "distinct ds \<Longrightarrow> d \<in> set ds \<Longrightarrow>
     xor_list (\<lambda>x. (f(d := v)) x a) ds = xor_list (\<lambda>x. f x a) ds XOR f d a XOR v a"
proof (induction ds)
  case (Cons x ds)
  show ?case
  proof (cases "x = d")
    case True
    then have "xor_list (\<lambda>x. (f(d := v)) x a) ds = xor_list (\<lambda>x. f x a) ds"
      using Cons.prems(1) by (intro xor_list_cong) auto
    with True show ?thesis by (simp add: xor.assoc xor.commute xor.left_commute)
  next
    case False
    with Cons show ?thesis by (simp add: xor.assoc)
  qed
qed simp

lemma inv_write_done:
  assumes inv: "system_inv disjoint_bios D m s" and D: "distinct (data_disks D)"
    and sub: "submitted (s_drv s) = xs @ SubmitHost b # ys"
    and disk: "disk = write_segs (heap (s_drv s)) (unat (bi_sector (bi_iter b)) * 512) (bi_io_vec b) (s_disks s (bi_bdev b))"
  shows "system_inv disjoint_bios D m (s\<lparr>s_drv := (s_drv s)\<lparr>submitted := xs @ ys\<rparr>, s_disks := (s_disks s)(bi_bdev b := disk)\<rparr>)"
proof -
  let ?t = "s\<lparr>s_drv := (s_drv s)\<lparr>submitted := xs @ ys\<rparr>, s_disks := (s_disks s)(bi_bdev b := disk)\<rparr>"
  let ?u = "s\<lparr>s_drv := (s_drv s)\<lparr>submitted := xs @ ys\<rparr>\<rparr>"
  note inv = inv [unfolded system_inv_def]
  have shape: "shape_inv disjoint_bios D s" using inv by simp
  have b: "bio_shape D b" using shape by (auto simp: shape_inv_def sub)
  have shape_u: "shape_inv disjoint_bios D ?u"
    using shape by (auto simp: shape_inv_def sub tasks_def sorted_wrt_append)
  have disj: "disjoint_bios b c" if c: "c \<in> set (concat (map sub_writes (xs @ ys)))" for c
  proof -
    have "c \<in> set (concat (map sub_bios (xs @ ys)))" using c sub_writes_bios by fastforce
    then show ?thesis
      using shape by (auto simp: shape_inv_def sub sorted_wrt_append intro: disjoint_bios_sym)
  qed
  have "token_inv ?t" "device_inv ?t" using inv by (simp_all add: token_inv_def device_inv_def outstanding_def)
  moreover have "shape_inv disjoint_bios D ?t" using shape_u by (simp add: shape_inv_def tasks_def)
  moreover have "page_inv ?t"
    using inv by (auto simp: page_inv_def used_pages_def owned_pages_def sub tasks_def)
  moreover have "parity_inv D m ?t" unfolding parity_inv_def
  proof
    fix a
    let ?d = "write_delta s b a"
    have new: "disk x = s_disks s (bi_bdev b) x XOR write_delta s b x" for x
      unfolding disk write_segs_delta write_delta_def ..
    have "bi_bdev b \<in> set (data_disks D)" using b by (simp add: bio_shape_def)
    from xor_list_update [OF D this, of "s_disks s" disk a]
    have "parity_of D ?t a = parity_of D s a XOR ?d"
      by (simp add: parity_of_def new xor.assoc xor.commute xor.left_commute del: fun_upd_apply)
    then have "mismatch D ?t a = mismatch D s a XOR ?d" by (simp add: mismatch_def xor.assoc)
    moreover have "to_come s a = to_come ?t a XOR ?d"
    proof -
      have "xor_list (\<lambda>c. write_delta ?t c a) (concat (map sub_writes (xs @ ys))) =
          xor_list (\<lambda>c. write_delta s c a) (concat (map sub_writes (xs @ ys)))"
        unfolding write_delta_def
      proof (rule writes_delta_cong [where D = D])
        show "\<forall>c \<in> set (concat (map sub_writes (xs @ ys))). bio_shape D c \<and>
            (\<forall>a \<in> bio_range c. s_disks ?t (bi_bdev c) a = s_disks s (bi_bdev c) a)"
        proof (intro ballI conjI)
          fix c assume c: "c \<in> set (concat (map sub_writes (xs @ ys)))"
          then show "bio_shape D c" using shape_inv_writes [OF shape_u] by (simp add: writes_under_way_def)
          fix a assume a: "a \<in> bio_range c"
          show "s_disks ?t (bi_bdev c) a = s_disks s (bi_bdev c) a"
          proof (cases "bi_bdev c = bi_bdev b")
            case True
            then have "a \<notin> bio_range b" using disj [OF c] a by (auto simp: disjoint_bios_def)
            then have "write_delta s b a = 0"
              unfolding write_delta_def using bio_range_shape [OF b] by (intro segs_delta_outside) auto
            then show ?thesis by (simp add: True new)
          qed simp
        qed
      qed simp
      then show ?thesis
        by (simp add: to_come_def writes_under_way_def sub tasks_def xor.assoc xor.commute xor.left_commute)
    qed
    moreover have "mismatch D s a = to_come s a XOR m a" using inv by (simp add: parity_inv_def)
    ultimately show "mismatch D ?t a = to_come ?t a XOR m a"
      by (simp add: xor.assoc xor.commute xor.left_commute)
  qed
  ultimately show ?thesis by (simp add: system_inv_def)
qed

lemma map_le_used: "map_of g \<subseteq>\<^sub>m map_of h \<Longrightarrow> A \<subseteq> dom (map_of g) \<Longrightarrow> \<forall>p \<in> A. map_of h p = map_of g p"
  unfolding map_le_def by (metis subsetD)

lemma fresh_pages_between:
  assumes "distinct (xs @ zs)" and "distinct ys" and "set ys \<inter> A = {}"
    and "set (xs @ zs) \<union> C \<subseteq> A" and "set (xs @ zs) \<inter> C = {}" and "B \<subseteq> A" and "B \<inter> set (xs @ zs) = {}"
  shows "distinct (xs @ ys @ zs) \<and> set (xs @ ys @ zs) \<inter> (C \<union> B) = {} \<and>
    set (xs @ ys @ zs) \<union> (C \<union> B) \<subseteq> A \<union> set ys"
  using assms by auto

lemma place_part_shape:
  assumes "write_request K b s" and "disks_ok D"
  shows "bio_shape D (place_part D (bi_sector (bi_iter b)) b)"
proof -
  let ?s = "bi_sector (bi_iter b)"
  have b: "whole_bio b" "whole_sectors (bi_io_vec b)" "bi_opf b = REQ_OP_WRITE"
    "unat ?s + unat (bi_size (bi_iter b)) div 512 + 8 < 2 ^ 64"
    "unat (bi_size (bi_iter b)) = vec_bytes (bi_io_vec b)" "512 dvd unat (bi_size (bi_iter b))"
    using assms(1) by (auto simp: write_request_def request_of_def whole_bio_def)
  have i: "unat (sector_whole_to_i ?s (disk_cnt D)) \<le> unat ?s"
  proof -
    have "unat ?s div 8 div unat (disk_cnt D) \<le> unat ?s div 8" by (rule div_le_dividend)
    then show ?thesis unfolding unat_sector_whole_to_i using mod_div_mult_eq [of "unat ?s" 8] by linarith
  qed
  obtain k where k: "vec_bytes (bi_io_vec b) = 512 * k" using b(5,6) by auto
  have "unat (sector_whole_to_i ?s (disk_cnt D)) * 512 + vec_bytes (bi_io_vec b) < 2 ^ 73"
    using i b(4) unfolding b(5) k by simp
  moreover have "unat (ucast (device_num (chunk_num ?s) (disk_cnt D)) :: u32) < unat (disk_cnt D)"
    using raid4.dev_less [of "disk_cnt D" ?s] unat_devi [of D ?s] assms(2) by (simp add: disks_ok_def)
  then have "bdev D ! unat (ucast (device_num (chunk_num ?s) (disk_cnt D)) :: u32) \<in> set (data_disks D)"
    using assms(2) by (auto simp: data_disks_def disks_ok_def in_set_conv_nth)
  ultimately show ?thesis
    using b(1-3) by (simp add: bio_shape_def place_part_def whole_bio_def)
qed

text \<open>More pages and a longer list of submissions leave the deltas of what was there.\<close>

lemma inv_submit:
  assumes inv: "system_inv R D m s" and K: "kernel_contract K" "kernel_live K" and D: "disks_ok D"
    and req: "write_request K b s" and R: "symp R"
    and b: "\<forall>c \<in> set (concat (map sub_bios (submitted (s_drv s)))). R (place_part D (bi_sector (bi_iter b)) b) c"
    and sub: "vpciedisk_submit_bio K D b (s_drv s) = Some (Ret st)"
  shows "system_inv R D m (s\<lparr>s_drv := st\<rparr>)"
proof -
  let ?t = "s\<lparr>s_drv := st\<rparr>"
  let ?p = "place_part D (bi_sector (bi_iter b)) b"
  note inv = inv [unfolded system_inv_def]
  have r: "whole_bio b" "unat (bi_vcnt b) \<le> 256" "request_of b" "in_one_chunk b" "bi_opf b = REQ_OP_WRITE"
    "pages_apart K \<or> seam_free (bi_io_vec b)"
    using req by (simp_all add: write_request_def)
  from submit_write_live [OF K D r, of "s_drv s"] sub obtain n where
    n: "submitted st = submitted (s_drv s) @ [SubmitVerify n]" "read_for n ?p"
    and io: "same_io ((s_drv s)\<lparr>submitted := submitted st\<rparr>) st" "workqueue st = workqueue (s_drv s)"
    and heap: "map_of (heap (s_drv s)) \<subseteq>\<^sub>m map_of (heap st)"
      "dom (map_of (heap st)) = dom (map_of (heap (s_drv s))) \<union> set (map bv_page (bi_io_vec n))"
      "distinct (map bv_page (bi_io_vec n))"
      "set (map bv_page (bi_io_vec n)) \<inter> dom (map_of (heap (s_drv s))) = {}" by auto
  have vp: "vec_pages (bi_io_vec n) = map bv_page (bi_io_vec n)" "vec_pages (bi_io_vec ?p) = vec_pages (bi_io_vec b)"
    by (simp_all add: vec_pages_def place_part_def)
  have tasks: "tasks ?t = tasks s" by (simp add: tasks_def io(2))
  have priv: "bi_private n = Some ?p" using n(2) by (simp add: read_for_def)
  have shape: "shape_inv R D s" and page: "page_inv s" using inv by auto
  have used: "used_pages s \<subseteq> dom (map_of (heap (s_drv s)))" using page by (simp add: page_inv_def)
  have "sub_shape D (SubmitVerify n)" using n(2) place_part_shape [OF req D] by auto
  then have "shape_inv R D ?t"
    using shape b by (auto simp: shape_inv_def n(1) tasks sorted_wrt_append priv intro: sympD [OF R])
  moreover have "page_inv ?t"
  proof -
    have P: "distinct (read_pages (submitted (s_drv s)) @ work_pages (tasks s))"
      "set (read_pages (submitted (s_drv s)) @ work_pages (tasks s)) \<inter> caller_pages (submitted (s_drv s)) = {}"
      "set (read_pages (submitted (s_drv s)) @ work_pages (tasks s)) \<union> caller_pages (submitted (s_drv s)) \<subseteq>
        dom (map_of (heap (s_drv s)))"
      using page by (simp_all only: page_inv_def used_pages_def owned_pages_def)
    have N: "distinct (vec_pages (bi_io_vec n))" "set (vec_pages (bi_io_vec n)) \<inter> dom (map_of (heap (s_drv s))) = {}"
      "dom (map_of (heap st)) = dom (map_of (heap (s_drv s))) \<union> set (vec_pages (bi_io_vec n))"
      using heap by (simp_all add: vp)
    have B: "set (vec_pages (bi_io_vec b)) \<subseteq> dom (map_of (heap (s_drv s)))"
      "set (vec_pages (bi_io_vec b)) \<inter> set (read_pages (submitted (s_drv s)) @ work_pages (tasks s)) = {}"
      using req by (simp_all only: write_request_def owned_pages_def)
    have eqs: "owned_pages (submitted st) (tasks s) = read_pages (submitted (s_drv s)) @ vec_pages (bi_io_vec n) @
        work_pages (tasks s)"
      "caller_pages (submitted st) = caller_pages (submitted (s_drv s)) \<union> set (vec_pages (bi_io_vec b))"
      by (simp_all add: n(1) owned_pages_def priv vp(2))
    show ?thesis unfolding page_inv_def used_pages_def
      using fresh_pages_between [OF P(1) N(1,2) P(3,2) B] by (simp add: tasks eqs N(3) del: set_append)
  qed
  moreover have "parity_inv D m ?t"
  proof -
    have "writes_under_way ?t = writes_under_way s" by (simp add: writes_under_way_def n(1))
    then have "to_come ?t a = to_come s a" for a
      using heap_frame [OF shape map_le_used [OF heap(1) used], of a]
      by (simp add: to_come_def tasks) (simp add: write_delta_def)
    then show ?thesis using inv by (simp add: parity_inv_def mismatch_def parity_of_def)
  qed
  moreover have "token_inv ?t" "device_inv ?t"
    using inv io(1) by (simp_all add: token_inv_def device_inv_def outstanding_def same_io_def)
  ultimately show ?thesis by (simp add: system_inv_def)
qed

lemma works_for_shape:
  "list_all2 same_shape v es \<Longrightarrow> works_for h h' pos (zip v es) ws \<Longrightarrow> whole_sectors es \<Longrightarrow>
     \<forall>w \<in> set ws. work_shape w"
proof (induction v es arbitrary: pos ws rule: list_all2_induct)
  case (Cons x v e es)
  from Cons.prems(1) obtain w ws' where ws: "ws = w # ws'" by (cases ws) auto
  have e: "in_page e" "512 dvd unat (bv_len e)" using Cons.prems(2) by (simp_all add: whole_sectors_def)
  from e(2) have "8 dvd unat (bv_len e)" by (rule dvd_trans [rotated]) simp
  with e(1) Cons.prems(1) have "work_shape w"
    by (simp add: ws work_shape_def work_ok_def unat_ucast_32_64 in_page_def)
  moreover have "\<forall>w \<in> set ws'. work_shape w"
    using Cons.prems by (intro Cons.IH) (auto simp: ws whole_sectors_def)
  ultimately show ?case by (simp add: ws)
qed simp

text \<open>
  The pages after a read has completed: those of the read bio are no longer owned, those of
  the new tasks are.
\<close>

lemma pages_exchanged:
  assumes "distinct ((xs @ ns @ ys) @ qs @ vs)" and "distinct ws" and "set ws \<inter> A = {}"
    and "set ((xs @ ns @ ys) @ qs @ vs) \<union> C \<subseteq> A" and "set ((xs @ ns @ ys) @ qs @ vs) \<inter> C = {}"
  shows "distinct ((xs @ ys) @ (qs @ ws) @ vs) \<and> set ((xs @ ys) @ (qs @ ws) @ vs) \<inter> C = {} \<and>
    set ((xs @ ys) @ (qs @ ws) @ vs) \<union> C \<subseteq> A \<union> set ws"
  using assms by auto

lemma sorted_wrt_to_end:
  "(\<And>x y. P x y \<Longrightarrow> P y x) \<Longrightarrow> sorted_wrt P (xs @ z # ys) \<Longrightarrow> sorted_wrt P (xs @ ys @ [z])"
  by (auto simp: sorted_wrt_append)

lemma read_done_effect:
  assumes inv: "system_inv R D m s" and K: "kernel_contract K" "kernel_live K"
    and sub: "submitted (s_drv s) = xs @ SubmitVerify n # ys" and it: "bi_size it = 0"
    and h: "h = fill_segs (s_disks s (bi_bdev n)) (unat (bi_sector (bi_iter n)) * 512) (bi_io_vec n) (heap (s_drv s))"
    and endio: "pciev_read_bio_endio K (n\<lparr>bi_iter := it\<rparr>) ((s_drv s)\<lparr>submitted := xs @ ys, heap := h\<rparr>) = Some (Ret st)"
  obtains b ws where "read_for n b" and "bio_shape D b" and "workqueue st = workqueue (s_drv s) @ ws"
    and "works_for h (heap st) (bi_sector (bi_iter b)) (zip (bi_io_vec n) (bi_io_vec b)) ws"
    and "submitted st = xs @ ys @ [SubmitHost b]" and "map_of h \<subseteq>\<^sub>m map_of (heap st)"
    and "dom (map_of (heap st)) = dom (map_of h) \<union> set (work_pages ws)" and "distinct (work_pages ws)"
    and "set (work_pages ws) \<inter> dom (map_of h) = {}" and "sem st = sem (s_drv s)"
    and "\<And>p. p \<in> dom (map_of h) \<Longrightarrow> p \<notin> set (vec_pages (bi_io_vec n)) \<Longrightarrow>
      map_of (heap st) p = map_of (heap (s_drv s)) p"
proof -
  let ?d = "(s_drv s)\<lparr>submitted := xs @ ys, heap := h\<rparr>"
  have shape: "shape_inv R D s" and page: "page_inv s" using inv by (simp_all add: system_inv_def)
  obtain b where n: "read_for n b" and b: "bio_shape D b" using shape by (auto simp: shape_inv_def sub)
  have priv: "bi_private n = Some b" using n by (simp add: read_for_def)
  have "used_pages s \<subseteq> dom (map_of (heap (s_drv s)))" using page by (simp add: page_inv_def)
  then have np: "set (vec_pages (bi_io_vec n)) \<subseteq> dom (map_of h)" "set (vec_pages (bi_io_vec b)) \<subseteq> dom (map_of h)"
    by (auto simp: used_pages_def owned_pages_def sub priv h)
  have "completed_read (n\<lparr>bi_iter := it\<rparr>) b"
    using n it by (simp add: completed_read_def read_for_def whole_bio_def)
  moreover have "pages_present (heap ?d) (bi_io_vec (n\<lparr>bi_iter := it\<rparr>))" "pages_present (heap ?d) (bi_io_vec b)"
    using np by (auto simp: pages_present_def vec_pages_def)
  moreover have "whole_bio b" using b by (simp add: bio_shape_def)
  ultimately obtain ws where st: "workqueue st = workqueue (s_drv s) @ ws"
    "works_for h (heap st) (bi_sector (bi_iter b)) (zip (bi_io_vec n) (bi_io_vec b)) ws"
    "submitted st = xs @ ys @ [SubmitHost b]" "map_of h \<subseteq>\<^sub>m map_of (heap st)"
    "dom (map_of (heap st)) = dom (map_of h) \<union> set (work_pages ws)" "distinct (work_pages ws)"
    "set (work_pages ws) \<inter> dom (map_of h) = {}" "sem st = sem (s_drv s)"
    using read_endio_live [OF K, of b "n\<lparr>bi_iter := it\<rparr>" ?d] endio by (auto simp: same_io_def)
  have keep: "map_of (heap st) p = map_of (heap (s_drv s)) p"
    if "p \<in> dom (map_of h)" "p \<notin> set (vec_pages (bi_io_vec n))" for p
  proof -
    have "map_of h p = map_of (heap (s_drv s)) p"
      using that(2) unfolding h vec_pages_def by (rule map_of_fill_segs_other)
    with that(1) st(4) show ?thesis unfolding map_le_def by metis
  qed
  show thesis by (rule that [OF n b st keep])
qed

lemma read_done_to_come:
  assumes shape: "shape_inv R D s" and b: "bio_shape D b" and sub: "submitted (s_drv s) = xs @ SubmitVerify n # ys"
    and nb: "list_all2 same_shape (bi_io_vec n) (bi_io_vec b)"
    and works: "works_for h (heap st) (bi_sector (bi_iter b)) (zip (bi_io_vec n) (bi_io_vec b)) ws"
    and hold: "segs_hold h (s_disks s (bi_bdev b)) (unat (bi_sector (bi_iter b)) * 512) (bi_io_vec n)"
    and st: "workqueue st = workqueue (s_drv s) @ ws" "submitted st = xs @ ys @ [SubmitHost b]" "map_of h \<subseteq>\<^sub>m map_of (heap st)"
    and np: "set (vec_pages (bi_io_vec b)) \<subseteq> dom (map_of h)"
    and keep: "\<And>p. p \<in> set (work_pages (workqueue (s_drv s)) @ work_pages (s_workers s)) \<union> caller_pages (submitted (s_drv s)) \<Longrightarrow>
      map_of (heap st) p = map_of (heap (s_drv s)) p"
  shows "to_come (s\<lparr>s_drv := st\<rparr>) a = to_come s a"
proof -
  let ?t = "s\<lparr>s_drv := st\<rparr>" and ?S = "unat (bi_sector (bi_iter b)) * 512" and ?disk = "s_disks s (bi_bdev b)"
  have new: "xor_list (\<lambda>w. task_delta (heap st) w a) ws = segs_delta h ?disk ?S (bi_io_vec b) a"
    using b by (intro works_delta [OF nb works _ hold]) (simp_all add: bio_shape_def)
  have "page_of h p = page_of (heap st) p" if "p \<in> set (vec_pages (bi_io_vec b))" for p
    using that np st(3) by (intro page_of_cong) (auto simp: map_le_def)
  then have wb: "write_delta ?t b a = segs_delta h ?disk ?S (bi_io_vec b) a"
    unfolding write_delta_def by (intro segs_delta_cong) (simp_all add: vec_pages_def)
  have old: "xor_list (\<lambda>w. task_delta (heap st) w a) (tasks s) =
      xor_list (\<lambda>w. task_delta (heap (s_drv s)) w a) (tasks s)"
    by (rule tasks_delta_cong) (use keep in \<open>auto simp: tasks_def\<close>)
  have wr: "xor_list (\<lambda>b. write_delta ?t b a) (writes_under_way s) = xor_list (\<lambda>b. write_delta s b a) (writes_under_way s)"
    unfolding write_delta_def writes_under_way_def
    by (rule writes_delta_cong [where D = D])
       (use keep shape_inv_writes [OF shape] in \<open>auto simp: writes_under_way_def\<close>)
  have "writes_under_way s = concat (map sub_writes xs) @ concat (map sub_writes ys)"
    "writes_under_way ?t = writes_under_way s @ [b]"
    by (simp_all add: writes_under_way_def sub st(2))
  then have "to_come ?t a = (xor_list (\<lambda>w. task_delta (heap st) w a) (tasks s) XOR segs_delta h ?disk ?S (bi_io_vec b) a) XOR
      posted_delta (s_pc s) (s_mmio s) a XOR
      xor_list (\<lambda>b. write_delta ?t b a) (writes_under_way s) XOR segs_delta h ?disk ?S (bi_io_vec b) a"
    by (simp add: to_come_def tasks_def st(1) new wb xor.assoc xor.commute xor.left_commute)
  also have "\<dots> = to_come s a"
    unfolding old wr to_come_def by (simp add: xor.assoc xor.commute xor.left_commute)
  finally show ?thesis .
qed

lemma inv_read_done:
  assumes inv: "system_inv R D m s" and K: "kernel_contract K" "kernel_live K" and R: "symp R"
    and sub: "submitted (s_drv s) = xs @ SubmitVerify n # ys" and it: "bi_size it = 0"
    and h: "h = fill_segs (s_disks s (bi_bdev n)) (unat (bi_sector (bi_iter n)) * 512) (bi_io_vec n) (heap (s_drv s))"
    and endio: "pciev_read_bio_endio K (n\<lparr>bi_iter := it\<rparr>) ((s_drv s)\<lparr>submitted := xs @ ys, heap := h\<rparr>) = Some (Ret st)"
  shows "system_inv R D m (s\<lparr>s_drv := st\<rparr>)"
proof -
  let ?t = "s\<lparr>s_drv := st\<rparr>"
  obtain b ws where n: "read_for n b" and b: "bio_shape D b" and st: "workqueue st = workqueue (s_drv s) @ ws"
    "works_for h (heap st) (bi_sector (bi_iter b)) (zip (bi_io_vec n) (bi_io_vec b)) ws"
    "submitted st = xs @ ys @ [SubmitHost b]" "map_of h \<subseteq>\<^sub>m map_of (heap st)"
    "dom (map_of (heap st)) = dom (map_of h) \<union> set (work_pages ws)" "distinct (work_pages ws)"
    "set (work_pages ws) \<inter> dom (map_of h) = {}" "sem st = sem (s_drv s)"
    and kept: "\<And>p. p \<in> dom (map_of h) \<Longrightarrow> p \<notin> set (vec_pages (bi_io_vec n)) \<Longrightarrow>
      map_of (heap st) p = map_of (heap (s_drv s)) p"
    using read_done_effect [OF inv K sub it h endio] by blast
  note inv = inv [unfolded system_inv_def]
  have shape: "shape_inv R D s" and page: "page_inv s" using inv by auto
  have nb: "bi_private n = Some b" "bi_bdev n = bi_bdev b" "bi_sector (bi_iter n) = bi_sector (bi_iter b)"
    "list_all2 same_shape (bi_io_vec n) (bi_io_vec b)" "whole_bio n"
    using n by (simp_all add: read_for_def)
  have P: "distinct ((read_pages xs @ vec_pages (bi_io_vec n) @ read_pages ys) @
        work_pages (workqueue (s_drv s)) @ work_pages (s_workers s))"
    "set ((read_pages xs @ vec_pages (bi_io_vec n) @ read_pages ys) @
        work_pages (workqueue (s_drv s)) @ work_pages (s_workers s)) \<union> caller_pages (submitted (s_drv s)) \<subseteq>
      dom (map_of (heap (s_drv s)))"
    "set ((read_pages xs @ vec_pages (bi_io_vec n) @ read_pages ys) @
        work_pages (workqueue (s_drv s)) @ work_pages (s_workers s)) \<inter> caller_pages (submitted (s_drv s)) = {}"
    using page by (simp_all add: page_inv_def used_pages_def owned_pages_def sub tasks_def)
  have callers: "caller_pages (submitted (s_drv s)) = caller_pages xs \<union> set (vec_pages (bi_io_vec b)) \<union> caller_pages ys"
    by (auto simp: sub nb(1))
  have doms: "dom (map_of h) = dom (map_of (heap (s_drv s)))" by (simp add: h)
  have np: "set (vec_pages (bi_io_vec n)) \<subseteq> dom (map_of h)" "set (vec_pages (bi_io_vec b)) \<subseteq> dom (map_of h)"
    "distinct (vec_pages (bi_io_vec n))" using P(1,2) by (auto simp: doms callers)
  have tasks: "tasks ?t = workqueue (s_drv s) @ ws @ s_workers s" by (simp add: tasks_def st(1))
  have callers_t: "caller_pages (submitted st) = caller_pages (submitted (s_drv s))"
    unfolding callers by (auto simp: st(3))
  have "token_inv ?t" "device_inv ?t"
    using inv st(8) by (simp_all add: token_inv_def device_inv_def outstanding_def)
  moreover have "shape_inv R D ?t"
  proof -
    have "whole_sectors (bi_io_vec b)" using b by (simp add: bio_shape_def)
    from works_for_shape [OF nb(4) st(2) this] have "\<forall>w \<in> set ws. work_shape w" .
    moreover have "sorted_wrt R (concat (map sub_bios (submitted st)))"
      using shape sorted_wrt_to_end [of R, OF sympD [OF R]]
      by (simp add: shape_inv_def sub st(3) nb(1))
    ultimately show ?thesis using shape b by (auto simp: shape_inv_def sub st(1,3) tasks_def)
  qed
  moreover have "page_inv ?t"
  proof -
    have ow: "owned_pages (submitted st) (tasks ?t) =
        (read_pages xs @ read_pages ys) @ (work_pages (workqueue (s_drv s)) @ work_pages ws) @ work_pages (s_workers s)"
      by (simp add: owned_pages_def st(3) tasks)
    show ?thesis unfolding page_inv_def used_pages_def
      using pages_exchanged [OF P(1) st(6) st(7) [unfolded doms] P(2,3)]
      by (simp add: ow callers_t st(5) doms del: set_append)
  qed
  moreover have "to_come ?t a = to_come s a" for a
  proof (rule read_done_to_come [OF shape b sub nb(4) st(2) _ st(1,3,4) np(2)])
    show "segs_hold h (s_disks s (bi_bdev b)) (unat (bi_sector (bi_iter b)) * 512) (bi_io_vec n)"
      unfolding h nb(2,3) by (rule fill_segs_hold) (use np in \<open>simp_all add: vec_pages_def h\<close>)
    show "map_of (heap st) p = map_of (heap (s_drv s)) p"
      if "p \<in> set (work_pages (workqueue (s_drv s)) @ work_pages (s_workers s)) \<union> caller_pages (submitted (s_drv s))" for p
      using that P by (intro kept) (auto simp: doms)
  qed
  then have "parity_inv D m ?t" using inv by (simp add: parity_inv_def mismatch_def parity_of_def)
  ultimately show ?thesis by (simp add: system_inv_def)
qed

section \<open>Reachable states\<close>

text \<open>
  What the run relies on: the contracts of the kernel, memory to spare, pages that can be
  mapped (the kmap failure of \<open>do_verify_work\<close> is left to \<open>verify_work_post\<close> itself), work that
  can be queued, no signals, an interrupt layer in order, and data disks that are there and
  are different devices.
\<close>

definition array_ok :: "kernel \<Rightarrow> irq_layer \<Rightarrow> praid_dev \<Rightarrow> bool" where
  "array_ok K L D \<longleftrightarrow> kernel_contract K \<and> kernel_live K \<and> irq_layer_ok L \<and> disks_ok D \<and> distinct (data_disks D)"

lemma array_okD:
  assumes "array_ok K L D"
  shows "kernel_contract K" "kernel_live K" "irq_layer_ok L" "disks_ok D" "distinct (data_disks D)" "kmap_total K"
  using assms by (auto simp: array_ok_def kernel_live_def)

lemma sys_step_inv:
  assumes A: "array_ok K L D" and G: "\<And>b s. G b s \<Longrightarrow> careful K D b s"
    and step: "sys_step K L D G s t" and inv: "system_inv disjoint_bios D m s" and width: "s_posts t < 2 ^ 32"
  shows "system_inv disjoint_bios D m t"
  using step
proof (cases rule: sys_step.cases)
  case (submit b st)
  then show ?thesis using inv_submit [OF inv array_okD(1,2,4) [OF A] _ symp_disjoint_bios _ submit(3)] G [OF submit(2)]
    by (simp add: careful_def)
next
  case (read_done xs n ys it h st)
  then show ?thesis using inv_read_done [OF inv array_okD(1,2) [OF A] symp_disjoint_bios] by simp
next
  case (write_done xs b ys disk)
  then show ?thesis using inv_write_done [OF inv array_okD(5) [OF A]] by simp
next
  case (work_down xs w ys st)
  then show ?thesis using inv_work_down [OF inv] by simp
next
  case (work_post xs w ys st mm)
  then show ?thesis using inv_work_post [OF inv array_okD(6) [OF A]] width by simp
next
  case (dev E pc d mm disk)
  then show ?thesis using inv_dev [OF inv _ _ array_okD(3) [OF A]] by simp
next
  case poll
  then show ?thesis using inv_poll [OF inv] by simp
next
  case (irq i rest)
  then show ?thesis using inv_irq [OF inv] by simp
next
  case (env h)
  then show ?thesis using inv_env [OF inv] by simp
qed

lemma sys_step_posts: "sys_step K L D G s t \<Longrightarrow> s_posts s \<le> s_posts t"
  by (erule sys_stepE) simp_all

abbreviation sys_run :: "kernel \<Rightarrow> irq_layer \<Rightarrow> praid_dev \<Rightarrow> (host_bio \<Rightarrow> sys \<Rightarrow> bool) \<Rightarrow> sys \<Rightarrow> sys \<Rightarrow> bool" where
  "sys_run K L D G \<equiv> (sys_step K L D G)\<^sup>*\<^sup>*"

lemma sys_run_posts: "sys_run K L D G s t \<Longrightarrow> s_posts s \<le> s_posts t"
  by (induction rule: rtranclp_induct) (auto dest: sys_step_posts)

lemma sys_run_inv:
  assumes A: "array_ok K L D" and G: "\<And>b s. G b s \<Longrightarrow> careful K D b s"
  shows "sys_run K L D G s t \<Longrightarrow> system_inv disjoint_bios D m s \<Longrightarrow> s_posts t < 2 ^ 32 \<Longrightarrow> system_inv disjoint_bios D m t"
proof (induction rule: rtranclp_induct)
  case (step t u)
  have "s_posts t \<le> s_posts u" using step.hyps(2) by (rule sys_step_posts)
  then show ?case using step sys_step_inv [OF A G step.hyps(2)] by simp
qed simp

text \<open>The state after start-up, with whatever the disks hold.\<close>

definition sys_start :: "sys \<Rightarrow> bool" where
  "sys_start s \<longleftrightarrow> sem (s_drv s) = 1 \<and> workqueue (s_drv s) = [] \<and> submitted (s_drv s) = [] \<and>
     s_workers s = [] \<and> io_num (mm_bar (s_mmio s)) = 0 \<and> io_done (mm_bar (s_mmio s)) = 0 \<and>
     s_pc s = DevIdle \<and> d_irqs (s_dev s) = [] \<and> s_posts s = 0"

lemma sys_start_inv: "sys_start s \<Longrightarrow> system_inv disjoint_bios D (mismatch D s) s"
  by (simp add: sys_start_def system_inv_def token_inv_def device_inv_def shape_inv_def page_inv_def
      parity_inv_def outstanding_def busy_def tasks_def used_pages_def owned_pages_def to_come_def
      writes_under_way_def posted_delta_def)

text \<open>Nothing is under way.\<close>

definition quiet :: "sys \<Rightarrow> bool" where
  "quiet s \<longleftrightarrow> submitted (s_drv s) = [] \<and> tasks s = [] \<and> \<not> busy (s_pc s) (s_mmio s)"

lemma quiet_to_come: "quiet s \<Longrightarrow> to_come s a = 0"
  by (simp add: quiet_def to_come_def writes_under_way_def posted_delta_def)

section \<open>Steps that can be taken\<close>

lemma works_for_length: "works_for h h' pos ps ws \<Longrightarrow> length ws = length ps"
  by (induction h h' pos ps ws rule: works_for.induct) auto

lemma submit_step:
  assumes inv: "system_inv R D m s" and A: "array_ok K L D" and req: "write_request K b s" and R: "symp R"
    and G: "G b s" and b: "\<forall>c \<in> set (concat (map sub_bios (submitted (s_drv s)))). R (place_part D (bi_sector (bi_iter b)) b) c"
  shows "\<exists>st n. sys_step K L D G s (s\<lparr>s_drv := st\<rparr>) \<and> system_inv R D m (s\<lparr>s_drv := st\<rparr>) \<and>
    submitted st = submitted (s_drv s) @ [SubmitVerify n] \<and> read_for n (place_part D (bi_sector (bi_iter b)) b) \<and>
    workqueue st = workqueue (s_drv s) \<and> map_of (heap (s_drv s)) \<subseteq>\<^sub>m map_of (heap st) \<and>
    set (vec_pages (bi_io_vec n)) \<inter> dom (map_of (heap (s_drv s))) = {}"
proof -
  have r: "whole_bio b" "unat (bi_vcnt b) \<le> 256" "request_of b" "in_one_chunk b" "bi_opf b = REQ_OP_WRITE"
    "pages_apart K \<or> seam_free (bi_io_vec b)"
    using req by (simp_all add: write_request_def)
  from submit_write_live [OF array_okD(1,2,4) [OF A] r, of "s_drv s"] obtain n st where
    st: "vpciedisk_submit_bio K D b (s_drv s) = Some (Ret st)" "submitted st = submitted (s_drv s) @ [SubmitVerify n]"
      "read_for n (place_part D (bi_sector (bi_iter b)) b)" "workqueue st = workqueue (s_drv s)"
      "map_of (heap (s_drv s)) \<subseteq>\<^sub>m map_of (heap st)"
      "set (map bv_page (bi_io_vec n)) \<inter> dom (map_of (heap (s_drv s))) = {}" by blast
  have "sys_step K L D G s (s\<lparr>s_drv := st\<rparr>)" using G st(1) by (rule sys_step.submit)
  moreover have "system_inv R D m (s\<lparr>s_drv := st\<rparr>)"
    by (rule inv_submit [OF inv array_okD(1,2,4) [OF A] req R b st(1)])
  ultimately show ?thesis using st by (intro exI [of _ st] exI [of _ n]) (simp add: vec_pages_def)
qed

lemma read_step:
  assumes inv: "system_inv R D m s" and A: "array_ok K L D" and R: "symp R"
    and sub: "submitted (s_drv s) = SubmitVerify n # ys"
  shows "\<exists>st b. read_for n b \<and> sys_step K L D G s (s\<lparr>s_drv := st\<rparr>) \<and> system_inv R D m (s\<lparr>s_drv := st\<rparr>) \<and>
    submitted st = ys @ [SubmitHost b] \<and>
    length (workqueue st) = length (workqueue (s_drv s)) + length (bi_io_vec n) \<and>
    (\<forall>p \<in> caller_pages (submitted (s_drv s)). map_of (heap st) p = map_of (heap (s_drv s)) p)"
proof -
  let ?it = "\<lparr>bi_sector = 0, bi_size = 0, bi_idx = 0, bi_bvec_done = 0\<rparr>"
  let ?h = "fill_segs (s_disks s (bi_bdev n)) (unat (bi_sector (bi_iter n)) * 512) (bi_io_vec n) (heap (s_drv s))"
  let ?d = "(s_drv s)\<lparr>submitted := ys, heap := ?h\<rparr>"
  note parts = inv [unfolded system_inv_def]
  obtain b where n: "read_for n b" and b: "bio_shape D b" using parts by (auto simp: shape_inv_def sub)
  have bn: "bi_private n = Some b" "list_all2 same_shape (bi_io_vec n) (bi_io_vec b)"
    using n by (simp_all add: read_for_def)
  have "completed_read (n\<lparr>bi_iter := ?it\<rparr>) b" using n by (simp add: completed_read_def read_for_def whole_bio_def)
  moreover have used: "used_pages s \<subseteq> dom (map_of (heap (s_drv s)))" using parts by (simp add: page_inv_def)
  then have "pages_present (heap ?d) (bi_io_vec (n\<lparr>bi_iter := ?it\<rparr>))" "pages_present (heap ?d) (bi_io_vec b)"
    by (auto simp: pages_present_def used_pages_def owned_pages_def sub bn(1) vec_pages_def)
  moreover have "whole_bio b" using b by (simp add: bio_shape_def)
  ultimately obtain st ws where st: "pciev_read_bio_endio K (n\<lparr>bi_iter := ?it\<rparr>) ?d = Some (Ret st)"
    "workqueue st = workqueue (s_drv s) @ ws" "submitted st = ys @ [SubmitHost b]"
    "works_for ?h (heap st) (bi_sector (bi_iter b)) (zip (bi_io_vec n) (bi_io_vec b)) ws"
    "map_of ?h \<subseteq>\<^sub>m map_of (heap st)"
    using read_endio_live [OF array_okD(1,2) [OF A], of b "n\<lparr>bi_iter := ?it\<rparr>" ?d] by auto
  have len: "length ws = length (bi_io_vec n)"
    using works_for_length [OF st(4)] bn(2) by (simp add: list_all2_lengthD)
  have step: "sys_step K L D G s (s\<lparr>s_drv := st\<rparr>)"
    by (rule sys_step.read_done [of s "[]" n ys ?it ?h K st]) (simp_all add: sub st(1))
  have "system_inv R D m (s\<lparr>s_drv := st\<rparr>)"
    by (rule inv_read_done [OF inv array_okD(1,2) [OF A] R, of "[]" n ys ?it ?h st]) (simp_all add: sub st(1))
  moreover have "map_of (heap st) p = map_of (heap (s_drv s)) p" if p: "p \<in> caller_pages (submitted (s_drv s))" for p
  proof -
    have "set (owned_pages (submitted (s_drv s)) (tasks s)) \<inter> caller_pages (submitted (s_drv s)) = {}"
      using parts by (simp add: page_inv_def)
    then have "p \<notin> set (map bv_page (bi_io_vec n))" using p by (auto simp: owned_pages_def sub vec_pages_def)
    then have "map_of ?h p = map_of (heap (s_drv s)) p" by (rule map_of_fill_segs_other)
    moreover have "p \<in> dom (map_of ?h)" using p used by (auto simp: used_pages_def)
    ultimately show ?thesis using st(5) unfolding map_le_def by metis
  qed
  ultimately show ?thesis using n step st(2,3) len by (intro exI [of _ st] exI [of _ b]) simp
qed

section \<open>The work gets done\<close>

fun pc_rank :: "dev_pc \<Rightarrow> nat" where
  "pc_rank DevIdle = 8" | "pc_rank DevTaken = 7" | "pc_rank (DevFetched off n) = 6"
| "pc_rank (DevLoaded off n) = 5" | "pc_rank (DevSummed off n) = 4" | "pc_rank DevStored = 3"

definition dev_rank :: "dev_pc \<Rightarrow> mmio \<Rightarrow> nat" where
  "dev_rank pc mm = (if busy pc mm then pc_rank pc else 0)"

fun sub_rank :: "submission \<Rightarrow> nat" where
  "sub_rank (SubmitVerify n) = 2 + 10 * length (bi_io_vec n)"
| "sub_rank (SubmitHost b) = 1"

definition work_left :: "sys \<Rightarrow> nat" where
  "work_left s = sum_list (map sub_rank (submitted (s_drv s))) + 10 * length (workqueue (s_drv s)) +
     9 * length (s_workers s) + dev_rank (s_pc s) (s_mmio s) + length (d_irqs (s_dev s))"

text \<open>The requests the device has got and will get from the work under way.\<close>

definition posts_due :: "sys \<Rightarrow> nat" where
  "posts_due s = s_posts s + length (tasks s) +
     sum_list (map (\<lambda>n. length (bi_io_vec n)) (concat (map sub_reads (submitted (s_drv s)))))"

lemma dev_step_rank:
  assumes E: "block_io E" "blk_call_succeeds E" and L: "irq_layer_ok L" and ok: "dev_ok pc mm disk"
    and busy: "busy pc mm"
  shows "\<exists>pc' d' mm' disk'. dev_step L E (pc, d, mm, disk) = Some (Ret (pc', d', mm', disk')) \<and>
    dev_rank pc' mm' + length (d_irqs d') < dev_rank pc mm + length (d_irqs d)"
proof (cases pc)
  case DevIdle
  then have "\<not> io_num (mm_bar mm) \<le> io_done (mm_bar mm)"
    using ok busy by (auto simp: busy_def word_le_nat_alt word_unat_eq_iff)
  with busy show ?thesis by (simp add: DevIdle dev_rank_def busy_def)
next
  case DevTaken
  then show ?thesis by (simp add: dev_rank_def busy_def)
next
  case (DevFetched off n)
  then show ?thesis using block_io.submit_read [OF E] by (simp add: dev_rank_def busy_def)
next
  case (DevLoaded off n)
  have "xor_loop off n 0 (mm_chunks mm) = Some (xor_region (unat off) (unat n) (mm_chunks mm))"
    using ok by (intro xor_loop_range) (simp_all add: DevLoaded request_ok_def)
  then show ?thesis by (simp add: DevLoaded dev_rank_def busy_def)
next
  case (DevSummed off n)
  then show ?thesis using block_io.submit_write [OF E] by (simp add: dev_rank_def busy_def)
next
  case DevStored
  then show ?thesis using ok by (simp add: pciev_signal_irq_ok [OF L] irq_raised_def dev_rank_def busy_def)
qed

text \<open>A step that brings the work forward.\<close>

definition good_step :: "kernel \<Rightarrow> irq_layer \<Rightarrow> praid_dev \<Rightarrow> sys \<Rightarrow> sys \<Rightarrow> bool" where
  "good_step K L D s t \<longleftrightarrow> sys_step K L D (\<lambda>_ _. False) s t \<and> work_left t < work_left s \<and> posts_due t \<le> posts_due s"

lemma step_read:
  assumes inv: "system_inv disjoint_bios D m s" and A: "array_ok K L D"
    and sub: "submitted (s_drv s) = SubmitVerify n # ys"
  shows "\<exists>t. good_step K L D s t"
  using read_step [OF inv A symp_disjoint_bios sub, of "\<lambda>_ _. False"]
  by (fastforce simp: good_step_def work_left_def posts_due_def tasks_def sub)

lemma step_write:
  assumes "submitted (s_drv s) = SubmitHost b # ys"
  shows "\<exists>t. good_step K L D s t"
proof -
  let ?t = "s\<lparr>s_drv := (s_drv s)\<lparr>submitted := [] @ ys\<rparr>, s_disks := (s_disks s)(bi_bdev b :=
      write_segs (heap (s_drv s)) (unat (bi_sector (bi_iter b)) * 512) (bi_io_vec b) (s_disks s (bi_bdev b)))\<rparr>"
  have "sys_step K L D (\<lambda>_ _. False) s ?t" by (rule sys_step.write_done) (simp_all add: assms)
  then show ?thesis
    by (intro exI [of _ ?t]) (simp add: good_step_def work_left_def posts_due_def tasks_def assms)
qed

lemma worker_posts:
  assumes inv: "system_inv disjoint_bios D m s" and A: "array_ok K L D" and w: "s_workers s = w # ys"
  shows "\<exists>st co cn. verify_work_post K w (s_drv s, s_mmio s) = Ret (st, posted (s_mmio s) w co cn) \<and> same_rest (s_drv s) st"
proof -
  note inv = inv [unfolded system_inv_def]
  have "ys = []" using token_worker [of s "[]" w ys] inv w by auto
  then have "distinct (work_pages (workqueue (s_drv s)) @ [w_page_new w, w_page_old w])"
    "{w_page_new w, w_page_old w} \<subseteq> dom (map_of (heap (s_drv s)))"
    using inv by (auto simp: page_inv_def used_pages_def owned_pages_def tasks_def w)
  then obtain cn co where c: "map_of (heap (s_drv s)) (w_page_new w) = Some cn"
    "map_of (heap (s_drv s)) (w_page_old w) = Some co" "w_page_new w \<noteq> w_page_old w" by auto
  show ?thesis using verify_work_post_ok [OF array_okD(6) [OF A] c] by blast
qed

lemma step_post:
  assumes inv: "system_inv disjoint_bios D m s" and A: "array_ok K L D" and w: "s_workers s = w # ys"
  shows "\<exists>t. good_step K L D s t"
proof -
  have tok: "ys = []" "s_pc s = DevIdle" "\<not> busy DevIdle (s_mmio s)" "d_irqs (s_dev s) = []"
    using token_worker [of s "[]" w ys] inv w by (auto simp: system_inv_def)
  obtain st co cn where st: "verify_work_post K w (s_drv s, s_mmio s) = Ret (st, posted (s_mmio s) w co cn)"
    "same_rest (s_drv s) st"
    using worker_posts [OF assms] by blast
  let ?t = "s\<lparr>s_drv := st, s_mmio := posted (s_mmio s) w co cn, s_workers := [] @ ys, s_posts := Suc (s_posts s)\<rparr>"
  have "sys_step K L D (\<lambda>_ _. False) s ?t" by (rule sys_step.work_post [of s "[]" w ys K]) (simp_all add: w st(1))
  then show ?thesis using st(2) tok
    by (intro exI [of _ ?t])
       (auto simp: good_step_def work_left_def posts_due_def tasks_def w same_rest_def same_io_def dev_rank_def)
qed

lemma step_irq:
  assumes "d_irqs (s_dev s) = i # is"
  shows "\<exists>t. good_step K L D s t"
proof -
  let ?t = "s\<lparr>s_dev := (s_dev s)\<lparr>d_irqs := is\<rparr>, s_drv := pcievdrv_interrupt (s_drv s)\<rparr>"
  have "sys_step K L D (\<lambda>_ _. False) s ?t" by (rule sys_step.irq) (simp add: assms)
  then show ?thesis
    by (intro exI [of _ ?t])
       (simp add: good_step_def work_left_def posts_due_def tasks_def assms pcievdrv_interrupt_def up_def)
qed

lemma step_device:
  assumes inv: "system_inv disjoint_bios D m s" and A: "array_ok K L D" and busy: "busy (s_pc s) (s_mmio s)"
  shows "\<exists>t. good_step K L D s t"
proof -
  have "dev_ok (s_pc s) (s_mmio s) (s_parity s)" using inv by (simp add: system_inv_def device_inv_def)
  from dev_step_rank [OF ref_io.block_io_axioms ref_blk_call_succeeds array_okD(3) [OF A] this busy, of "s_dev s"]
  obtain pc d mm disk where st: "dev_step L ref_blk_call (s_pc s, s_dev s, s_mmio s, s_parity s) = Some (Ret (pc, d, mm, disk))"
    "dev_rank pc mm + length (d_irqs d) < dev_rank (s_pc s) (s_mmio s) + length (d_irqs (s_dev s))" by blast
  let ?t = "s\<lparr>s_pc := pc, s_dev := d, s_mmio := mm, s_parity := disk\<rparr>"
  have "sys_step K L D (\<lambda>_ _. False) s ?t"
    using ref_io.block_io_axioms ref_blk_call_succeeds st(1) by (rule sys_step.dev)
  then show ?thesis using st(2)
    by (intro exI [of _ ?t]) (simp add: good_step_def work_left_def posts_due_def tasks_def)
qed

lemma start_worker:
  assumes inv: "system_inv R D m s" and free: "s_workers s = []" "d_irqs (s_dev s) = []" "\<not> busy (s_pc s) (s_mmio s)"
    and w: "workqueue (s_drv s) = w # ys"
  shows "\<exists>t. sys_step K L D G s t \<and> s_workers t = [w] \<and> t = s\<lparr>s_drv := s_drv t, s_workers := [w]\<rparr> \<and> system_inv R D m t"
proof -
  have "0 < sem (s_drv s)" using inv free by (simp add: system_inv_def token_inv_def outstanding_def)
  then have d: "down_interruptible K (s_drv s) = Some (True, (tick (s_drv s))\<lparr>sem := sem (s_drv s) - 1\<rparr>)"
    by (simp add: down_interruptible_def)
  let ?t = "s\<lparr>s_drv := (tick (s_drv s))\<lparr>sem := sem (s_drv s) - 1\<rparr>\<lparr>workqueue := [] @ ys\<rparr>,
      s_workers := s_workers s @ [w]\<rparr>"
  have "sys_step K L D G s ?t" by (rule sys_step.work_down [OF _ d]) (simp add: w)
  moreover have "system_inv R D m ?t" by (rule inv_work_down [OF inv _ d]) (simp add: w)
  ultimately show ?thesis by (intro exI [of _ ?t]) (simp add: free(1))
qed

lemma step_down:
  assumes "system_inv disjoint_bios D m s" and "s_workers s = []" and "d_irqs (s_dev s) = []"
    and "\<not> busy (s_pc s) (s_mmio s)" and w: "workqueue (s_drv s) = w # ys"
  shows "\<exists>t. good_step K L D s t"
proof -
  have "0 < sem (s_drv s)" using assms(1-4) by (simp add: system_inv_def token_inv_def outstanding_def)
  then have d: "down_interruptible K (s_drv s) = Some (True, (tick (s_drv s))\<lparr>sem := sem (s_drv s) - 1\<rparr>)"
    by (simp add: down_interruptible_def)
  let ?t = "s\<lparr>s_drv := (tick (s_drv s))\<lparr>sem := sem (s_drv s) - 1\<rparr>\<lparr>workqueue := [] @ ys\<rparr>,
      s_workers := s_workers s @ [w]\<rparr>"
  have "sys_step K L D (\<lambda>_ _. False) s ?t" by (rule sys_step.work_down [OF _ d]) (simp add: w)
  then show ?thesis
    by (intro exI [of _ ?t]) (simp add: good_step_def work_left_def posts_due_def tasks_def w assms(2))
qed

lemma not_quiet_step:
  assumes inv: "system_inv disjoint_bios D m s" and A: "array_ok K L D" and q: "\<not> quiet s"
  shows "\<exists>t. good_step K L D s t"
proof (cases "submitted (s_drv s)")
  case (Cons x ys)
  then show ?thesis using step_read [OF inv A] step_write by (cases x) auto
next
  case Nil
  show ?thesis
  proof (cases "s_workers s = [] \<and> d_irqs (s_dev s) = [] \<and> \<not> busy (s_pc s) (s_mmio s)")
    case True
    then have "workqueue (s_drv s) \<noteq> []" using Nil q by (auto simp: quiet_def tasks_def)
    then show ?thesis using step_down [OF inv] True by (metis list.exhaust)
  next
    case False
    then show ?thesis using step_post [OF inv A] step_irq step_device [OF inv A] by (metis list.exhaust)
  qed
qed

text \<open>From every state of the invariant the work under way can be finished.\<close>

lemma run_to_quiet:
  assumes A: "array_ok K L D"
  shows "system_inv disjoint_bios D m s \<Longrightarrow> posts_due s < 2 ^ 32 \<Longrightarrow>
    \<exists>t. sys_run K L D (\<lambda>_ _. False) s t \<and> quiet t \<and> system_inv disjoint_bios D m t"
proof (induction "work_left s" arbitrary: s rule: less_induct)
  case less
  show ?case
  proof (cases "quiet s")
    case False
    then obtain t where t: "sys_step K L D (\<lambda>_ _. False) s t" "work_left t < work_left s" "posts_due t \<le> posts_due s"
      using not_quiet_step [OF less.prems(1) A] by (auto simp: good_step_def)
    have "s_posts t < 2 ^ 32" using t(3) less.prems(2) by (simp add: posts_due_def)
    then have "system_inv disjoint_bios D m t" using sys_step_inv [OF A _ t(1) less.prems(1)] by simp
    then obtain u where "sys_run K L D (\<lambda>_ _. False) t u" "quiet u" "system_inv disjoint_bios D m u"
      using less.hyps [OF t(2)] t(3) less.prems(2) by auto
    with t(1) show ?thesis by (meson converse_rtranclp_into_rtranclp)
  qed (use less.prems in auto)
qed

section \<open>Two requests for the same place\<close>

lemma sys_step_mono:
  "sys_step K L D G s t \<Longrightarrow> (\<And>b s. G b s \<Longrightarrow> G' b s) \<Longrightarrow> sys_step K L D G' s t"
  by (erule sys_step.cases) (auto intro: sys_step.intros)

lemma sys_run_mono:
  "sys_run K L D G s t \<Longrightarrow> (\<And>b s. G b s \<Longrightarrow> G' b s) \<Longrightarrow> sys_run K L D G' s t"
  by (induction rule: rtranclp_induct) (auto intro: rtranclp.rtrancl_into_rtrancl sys_step_mono)

lemma segs_delta_disk:
  "s \<le> a \<Longrightarrow> a < s + vec_bytes es \<Longrightarrow> segs_delta h disk' s es a = segs_delta h disk s es a XOR disk a XOR disk' a"
proof (induction es arbitrary: s)
  case (Cons e es)
  show ?case
  proof (cases "a < s + unat (bv_len e)")
    case True
    then show ?thesis
      using Cons.prems segs_delta_outside [of a "s + unat (bv_len e)" es]
      by (simp add: seg_delta_def xor.assoc xor.commute xor.left_commute)
  next
    case False
    then show ?thesis using Cons by (simp add: seg_delta_def)
  qed
qed simp

text \<open>A finished write, with whatever else is under way.\<close>

definition written :: "sys \<Rightarrow> host_bio \<Rightarrow> submission list \<Rightarrow> sys" where
  "written s b ys = s\<lparr>s_drv := (s_drv s)\<lparr>submitted := ys\<rparr>, s_disks := (s_disks s)(bi_bdev b :=
     write_segs (heap (s_drv s)) (unat (bi_sector (bi_iter b)) * 512) (bi_io_vec b) (s_disks s (bi_bdev b)))\<rparr>"

lemma written_disk: "s_disks (written s b ys) (bi_bdev b) a = s_disks s (bi_bdev b) a XOR write_delta s b a"
  by (simp add: written_def write_segs_delta write_delta_def)

lemma written_mismatch:
  assumes "distinct (data_disks D)" and "bi_bdev b \<in> set (data_disks D)"
  shows "mismatch D (written s b ys) a = mismatch D s a XOR write_delta s b a"
proof -
  obtain disk where disk: "s_disks (written s b ys) = (s_disks s)(bi_bdev b := disk)"
    by (simp add: written_def)
  have "disk a = s_disks s (bi_bdev b) a XOR write_delta s b a"
    using written_disk [of s b ys a] by (simp add: disk)
  with xor_list_update [OF assms, of "s_disks s" disk a]
  have "parity_of D (written s b ys) a = parity_of D s a XOR write_delta s b a"
    by (simp add: parity_of_def disk del: fun_upd_apply)
  then show ?thesis by (simp add: mismatch_def xor.assoc) (simp add: written_def)
qed

text \<open>
  When the first of two writes to one place is done, the second one's task still counts with
  the old data: the mismatch is off by the difference the first write made, for good.
\<close>

lemma written_twice:
  assumes inv: "system_inv (\<lambda>_ _. True) D m s" and D: "distinct (data_disks D)"
    and sub: "submitted (s_drv s) = [SubmitHost p1, SubmitHost p2]"
    and same: "bi_bdev p1 = bi_bdev p2" "a \<in> bio_range p2"
  shows "\<exists>m'. system_inv disjoint_bios D m' (written s p1 [SubmitHost p2]) \<and> m' a = m a XOR write_delta s p1 a"
proof -
  let ?t = "written s p1 [SubmitHost p2]"
  let ?m = "\<lambda>x. mismatch D ?t x XOR to_come ?t x"
  note inv = inv [unfolded system_inv_def]
  have shape: "bio_shape D p1" "bio_shape D p2" using inv by (auto simp: shape_inv_def sub)
  have "token_inv ?t" "device_inv ?t"
    using inv by (simp_all add: token_inv_def device_inv_def outstanding_def written_def)
  moreover have "shape_inv disjoint_bios D ?t"
    using inv by (simp add: shape_inv_def written_def sub tasks_def)
  moreover have "page_inv ?t"
    using inv by (auto simp: page_inv_def used_pages_def owned_pages_def written_def sub tasks_def)
  moreover have "parity_inv D ?m ?t"
    by (simp add: parity_inv_def xor.assoc xor.commute xor.left_commute)
  ultimately have "system_inv disjoint_bios D ?m ?t" by (simp add: system_inv_def)
  moreover have "?m a = m a XOR write_delta s p1 a"
  proof -
    have "bi_bdev p1 \<in> set (data_disks D)" using shape(1) by (simp add: bio_shape_def)
    from written_mismatch [OF D this, of s "[SubmitHost p2]" a]
    have mt: "mismatch D ?t a = (to_come s a XOR m a) XOR write_delta s p1 a"
      using inv by (simp add: parity_inv_def)
    let ?w = "xor_list (\<lambda>w. task_delta (heap (s_drv s)) w a) (tasks s) XOR posted_delta (s_pc s) (s_mmio s) a"
    have d2: "write_delta ?t p2 a = write_delta s p2 a XOR write_delta s p1 a"
    proof -
      have "unat (bi_sector (bi_iter p2)) * 512 \<le> a" "a < unat (bi_sector (bi_iter p2)) * 512 + vec_bytes (bi_io_vec p2)"
        using same(2) bio_range_shape [OF shape(2)] by auto
      from segs_delta_disk [OF this, of "heap (s_drv s)" "s_disks ?t (bi_bdev p2)" "s_disks s (bi_bdev p2)"]
      show ?thesis
        unfolding write_delta_def same(1) [symmetric] written_disk
        by (simp add: written_def write_delta_def)
    qed
    have "to_come s a = ?w XOR write_delta s p1 a XOR write_delta s p2 a"
      by (simp add: to_come_def writes_under_way_def sub xor.assoc)
    moreover have "to_come ?t a = ?w XOR write_delta s p2 a XOR write_delta s p1 a"
      using d2 by (simp add: to_come_def writes_under_way_def xor.assoc) (simp add: written_def tasks_def)
    ultimately show ?thesis unfolding mt by (simp add: xor.assoc xor.commute xor.left_commute)
  qed
  ultimately show ?thesis by blast
qed

lemma read_for_length: "read_for n b \<Longrightarrow> length (bi_io_vec n) = length (bi_io_vec b)"
  by (auto simp: read_for_def dest: list_all2_lengthD)

lemma segs_delta_heap:
  "\<forall>p \<in> set (vec_pages es). map_of h p = map_of h' p \<Longrightarrow> segs_delta h disk s es a = segs_delta h' disk s es a"
  by (rule segs_delta_cong) (auto simp: vec_pages_def intro: page_of_cong)

text \<open>Both requests read the old data before either is written.\<close>

lemma both_read:
  assumes inv: "system_inv (\<lambda>_ _. True) D m s" and A: "array_ok K L D" and q: "quiet s"
    and req: "write_request K b1 s" "write_request K b2 s"
    and p: "p1 = place_part D (bi_sector (bi_iter b1)) b1" "p2 = place_part D (bi_sector (bi_iter b2)) b2"
  shows "\<exists>st. sys_run K L D (write_request K) s (s\<lparr>s_drv := st\<rparr>) \<and>
    system_inv (\<lambda>_ _. True) D m (s\<lparr>s_drv := st\<rparr>) \<and> submitted st = [SubmitHost p1, SubmitHost p2] \<and>
    length (workqueue st) \<le> 512 \<and>
    (\<forall>p \<in> set (vec_pages (bi_io_vec b1)). map_of (heap st) p = map_of (heap (s_drv s)) p)"
proof -
  let ?R = "\<lambda>_ _. True" and ?G = "write_request K"
  have R: "symp ?R" by (simp add: symp_def)
  have vp: "vec_pages (bi_io_vec p1) = vec_pages (bi_io_vec b1)" "vec_pages (bi_io_vec p2) = vec_pages (bi_io_vec b2)"
    "bi_io_vec p1 = bi_io_vec b1" "bi_io_vec p2 = bi_io_vec b2" by (simp_all add: p place_part_def)
  have empty: "submitted (s_drv s) = []" "workqueue (s_drv s) = []" "s_workers s = []"
    using q by (simp_all add: quiet_def tasks_def)
  have pages: "set (vec_pages (bi_io_vec b1)) \<subseteq> dom (map_of (heap (s_drv s)))"
    "set (vec_pages (bi_io_vec b2)) \<subseteq> dom (map_of (heap (s_drv s)))"
    and len: "length (bi_io_vec b1) \<le> 256" "length (bi_io_vec b2) \<le> 256"
    using req by (auto simp: write_request_def whole_bio_def)
  have s0: "\<forall>c \<in> set (concat (map sub_bios xs)). ?R x c" for xs x by simp
  from submit_step [of ?R, OF inv A req(1) R, of ?G, OF req(1) s0] obtain st1 n1 where
    s1: "sys_step K L D ?G s (s\<lparr>s_drv := st1\<rparr>)" "system_inv ?R D m (s\<lparr>s_drv := st1\<rparr>)"
    "submitted st1 = [SubmitVerify n1]" "read_for n1 p1" "workqueue st1 = []"
    "map_of (heap (s_drv s)) \<subseteq>\<^sub>m map_of (heap st1)"
    "set (vec_pages (bi_io_vec n1)) \<inter> dom (map_of (heap (s_drv s))) = {}"
    by (auto simp: empty p)
  have keep1: "\<forall>p \<in> dom (map_of (heap (s_drv s))). map_of (heap st1) p = map_of (heap (s_drv s)) p"
    using s1(6) by (auto simp: map_le_def)
  have "write_request K b2 (s\<lparr>s_drv := st1\<rparr>)"
    using req(2) pages(2) s1(7) keep1
    by (auto simp: write_request_def owned_pages_def tasks_def s1(3,5) empty dom_def)
  from submit_step [of ?R, OF s1(2) A this R, of ?G, OF this s0] obtain st2 n2 where
    s2: "sys_step K L D ?G (s\<lparr>s_drv := st1\<rparr>) (s\<lparr>s_drv := st2\<rparr>)" "system_inv ?R D m (s\<lparr>s_drv := st2\<rparr>)"
    "submitted st2 = [SubmitVerify n1, SubmitVerify n2]" "read_for n2 p2" "workqueue st2 = []"
    "map_of (heap st1) \<subseteq>\<^sub>m map_of (heap st2)"
    by (auto simp: s1(3,5) p)
  have priv: "bi_private n1 = Some p1" "bi_private n2 = Some p2" using s1(4) s2(4) by (simp_all add: read_for_def)
  have same: "b = c" if "read_for n b" "read_for n c" for n b c using that by (simp add: read_for_def)
  from read_step [OF s2(2) A R, of n1 "[SubmitVerify n2]" ?G] obtain st3 where
    s3: "sys_step K L D ?G (s\<lparr>s_drv := st2\<rparr>) (s\<lparr>s_drv := st3\<rparr>)" "system_inv ?R D m (s\<lparr>s_drv := st3\<rparr>)"
    "submitted st3 = [SubmitVerify n2, SubmitHost p1]" "length (workqueue st3) = length (bi_io_vec n1)"
    "\<forall>p \<in> caller_pages (submitted st2). map_of (heap st3) p = map_of (heap st2) p"
    using same [OF s1(4)] by (auto simp: s2(3,5))
  from read_step [OF s3(2) A R, of n2 "[SubmitHost p1]" ?G] obtain st4 where
    s4: "sys_step K L D ?G (s\<lparr>s_drv := st3\<rparr>) (s\<lparr>s_drv := st4\<rparr>)" "system_inv ?R D m (s\<lparr>s_drv := st4\<rparr>)"
    "submitted st4 = [SubmitHost p1, SubmitHost p2]"
    "length (workqueue st4) = length (bi_io_vec n1) + length (bi_io_vec n2)"
    "\<forall>p \<in> caller_pages (submitted st3). map_of (heap st4) p = map_of (heap st3) p"
    using same [OF s2(4)] by (auto simp: s3(3,4))
  have "sys_run K L D ?G s (s\<lparr>s_drv := st4\<rparr>)"
    using s1(1) s2(1) s3(1) s4(1) by (meson converse_rtranclp_into_rtranclp rtranclp.rtrancl_refl)
  moreover have "map_of (heap st4) p = map_of (heap (s_drv s)) p" if "p \<in> set (vec_pages (bi_io_vec b1))" for p
  proof -
    have d: "p \<in> dom (map_of (heap (s_drv s)))" "p \<in> dom (map_of (heap st1))"
      using that pages(1) keep1 by (auto simp: dom_def)
    then have "map_of (heap st2) p = map_of (heap (s_drv s)) p"
      using s2(6) keep1 unfolding map_le_def by metis
    then show ?thesis using s3(5) s4(5) that by (simp add: s2(3) s3(3) priv vp)
  qed
  moreover have "length (workqueue st4) \<le> 512"
    using s4(4) len read_for_length [OF s1(4)] read_for_length [OF s2(4)] by (simp add: vp)
  ultimately show ?thesis using s4(2,3) by (intro exI [of _ st4]) simp
qed

lemma overlapping_run:
  assumes A: "array_ok K L D" and start: "sys_start s" and req: "write_request K b1 s" "write_request K b2 s"
    and p: "p1 = place_part D (bi_sector (bi_iter b1)) b1" "p2 = place_part D (bi_sector (bi_iter b2)) b2"
    and same: "bi_bdev p1 = bi_bdev p2" "a \<in> bio_range p2"
  shows "\<exists>t. sys_run K L D (write_request K) s t \<and> quiet t \<and>
    mismatch D t a = mismatch D s a XOR write_delta s p1 a"
proof -
  let ?m = "mismatch D s"
  have "system_inv disjoint_bios D ?m s" using start by (rule sys_start_inv)
  then have inv: "system_inv (\<lambda>_ _. True) D ?m s" using start by (simp add: system_inv_def shape_inv_def sys_start_def)
  have q: "quiet s" using start by (simp add: quiet_def sys_start_def tasks_def busy_def)
  from both_read [OF inv A q req p] obtain st where
    st: "sys_run K L D (write_request K) s (s\<lparr>s_drv := st\<rparr>)" "system_inv (\<lambda>_ _. True) D ?m (s\<lparr>s_drv := st\<rparr>)"
    "submitted st = [SubmitHost p1, SubmitHost p2]" "length (workqueue st) \<le> 512"
    "\<forall>p \<in> set (vec_pages (bi_io_vec b1)). map_of (heap st) p = map_of (heap (s_drv s)) p" by blast
  let ?u = "s\<lparr>s_drv := st\<rparr>"
  let ?v = "written ?u p1 [SubmitHost p2]"
  from written_twice [OF st(2) array_okD(5) [OF A], of p1 p2 a] same st(3) obtain m' where
    m': "system_inv disjoint_bios D m' ?v" "m' a = ?m a XOR write_delta ?u p1 a" by auto
  have "vec_pages (bi_io_vec p1) = vec_pages (bi_io_vec b1)" by (simp add: p place_part_def)
  then have d: "write_delta ?u p1 a = write_delta s p1 a"
    using st(5) by (simp add: write_delta_def segs_delta_heap [of "bi_io_vec p1" "heap st" "heap (s_drv s)"])
  have "sys_step K L D (write_request K) ?u (?u\<lparr>s_drv := (s_drv ?u)\<lparr>submitted := [] @ [SubmitHost p2]\<rparr>,
      s_disks := (s_disks ?u)(bi_bdev p1 := write_segs (heap (s_drv ?u))
        (unat (bi_sector (bi_iter p1)) * 512) (bi_io_vec p1) (s_disks ?u (bi_bdev p1)))\<rparr>)"
    by (rule sys_step.write_done) (simp_all add: st(3))
  then have step: "sys_step K L D (write_request K) ?u ?v" by (simp add: written_def)
  have "posts_due ?v < 2 ^ 32"
    using start st(4) by (simp add: posts_due_def written_def tasks_def sys_start_def)
  from run_to_quiet [OF A m'(1) this] obtain t where
    t: "sys_run K L D (\<lambda>_ _. False) ?v t" "quiet t" "system_inv disjoint_bios D m' t" by blast
  have "mismatch D t a = to_come t a XOR m' a" using t(3) by (simp add: system_inv_def parity_inv_def)
  then have "mismatch D t a = ?m a XOR write_delta s p1 a"
    using quiet_to_come [OF t(2)] m'(2) d by simp
  moreover have "sys_run K L D (write_request K) ?v t" using sys_run_mono [OF t(1)] by blast
  then have "sys_run K L D (write_request K) s t" using st(1) step by (meson rtranclp.rtrancl_into_rtrancl rtranclp_trans)
  ultimately show ?thesis using t(2) by blast
qed

section \<open>After an error of the parity disk\<close>

text \<open>Nobody holds the token and nothing will give it back.\<close>

definition token_lost :: "sys \<Rightarrow> bool" where
  "token_lost s \<longleftrightarrow> sem (s_drv s) = 0 \<and> s_workers s = [] \<and> d_irqs (s_dev s) = [] \<and>
     s_pc s = DevIdle \<and> io_num (mm_bar (s_mmio s)) = io_done (mm_bar (s_mmio s))"

text \<open>Calls that leave the semaphore alone and take no task from the queue, whatever the kernel answers.\<close>

definition only_queues :: "drv \<Rightarrow> drv \<Rightarrow> bool" where
  "only_queues st st' \<longleftrightarrow> sem st' = sem st \<and> (\<exists>ws. workqueue st' = workqueue st @ ws)"

lemma only_queues_refl [simp]: "only_queues st st"
  and only_queues_trans: "only_queues st st' \<Longrightarrow> only_queues st' st'' \<Longrightarrow> only_queues st st''"
  by (auto simp: only_queues_def)

lemma only_queues_rest [simp]:
  "only_queues st (tick st') = only_queues st st'"
  "only_queues st (st'\<lparr>heap := h\<rparr>) = only_queues st st'"
  "only_queues st (st'\<lparr>work_structs := k\<rparr>) = only_queues st st'"
  "only_queues st (st'\<lparr>submitted := xs\<rparr>) = only_queues st st'"
  "only_queues st (st'\<lparr>bio_puts := bs\<rparr>) = only_queues st st'"
  "only_queues st (st'\<lparr>bio_chains := cs\<rparr>) = only_queues st st'"
  "only_queues st (st'\<lparr>io_errors := es\<rparr>) = only_queues st st'"
  "only_queues st (bio_put a st') = only_queues st st'"
  by (simp_all add: only_queues_def bio_put_def)

lemma free_page_queues: "free_page p st = Ret st' \<Longrightarrow> only_queues st st'"
  by (auto simp: free_page_def split: option.splits)

lemma alloc_page_queues: "alloc_page K st = (r, st') \<Longrightarrow> only_queues st st'"
  by (auto simp: alloc_page_def split: option.splits prod.splits)

lemma copy_page_queues: "copy_page_to_page K p q st = Ret st' \<Longrightarrow> only_queues st st'"
  by (auto simp: copy_page_to_page_def split: if_splits option.splits)

lemma add_verify_task_queues:
  assumes "add_verify_task K pn po sec off n st = Ret (r, st')"
  shows "only_queues st st'"
proof -
  let ?s = "(tick st)\<lparr>work_structs := Suc (work_structs st)\<rparr>"
  have "only_queues ?s st' \<or> st' = tick st"
    using assms
    by (auto simp: add_verify_task_def Let_def bind_outcome_Ret_iff only_queues_def
        dest!: alloc_page_queues free_page_queues copy_page_queues
        split: if_splits option.splits prod.splits)
  then show ?thesis by (auto simp: only_queues_def)
qed

lemma endio_loop_queues:
  assumes "endio_loop K v w it it' pos st = Some (Ret st')"
  shows "only_queues st st'"
proof -
  have "\<forall>st'. Ret st' = Ret st'' \<longrightarrow> only_queues st st'" if "endio_loop K v w it it' pos st = Some (Ret st'')" for st''
  proof (rule endio_loop.raw_induct [where P = "\<lambda>K v w it it' pos st r. \<forall>st'. Ret st' = r \<longrightarrow> only_queues st st'",
        OF _ that])
    fix f K v w it it' pos st r
    assume IH: "\<And>K v w it it' pos st r. f K v w it it' pos st = Some r \<Longrightarrow>
        \<forall>st'. Ret st' = r \<longrightarrow> only_queues st st'"
      and eq: "(if bi_size it \<noteq> 0 \<and> bi_size it' \<noteq> 0 then
        if bv_len (k_iovec K v it) \<noteq> bv_len (k_iovec K w it') \<or>
            bv_offset (k_iovec K v it) \<noteq> bv_offset (k_iovec K w it')
         then Some (Crash BugOn)
         else case add_verify_task K (bv_page (k_iovec K w it')) (bv_page (k_iovec K v it))
                     pos (ucast (bv_offset (k_iovec K w it'))) (ucast (bv_len (k_iovec K w it'))) st of
             Crash e \<Rightarrow> Some (Crash e)
           | Ret r \<Rightarrow> f K v w (k_advance K v it (bv_len (k_iovec K v it))) (k_advance K w it' (bv_len (k_iovec K w it')))
                 (pos + ucast (drop_bit KERNEL_SECTOR_SHIFT (bv_len (k_iovec K w it')))) (snd r)
      else Some (Ret st)) = Some r"
    show "\<forall>st'. Ret st' = r \<longrightarrow> only_queues st st'"
    proof (intro allI impI)
      fix st' assume r: "Ret st' = r"
      show "only_queues st st'"
      proof (cases "bi_size it \<noteq> 0 \<and> bi_size it' \<noteq> 0")
        case True
        with eq r obtain b s1 where t: "add_verify_task K (bv_page (k_iovec K w it')) (bv_page (k_iovec K v it))
            pos (ucast (bv_offset (k_iovec K w it'))) (ucast (bv_len (k_iovec K w it'))) st = Ret (b, s1)"
          and rest: "f K v w (k_advance K v it (bv_len (k_iovec K v it))) (k_advance K w it' (bv_len (k_iovec K w it')))
            (pos + ucast (drop_bit KERNEL_SECTOR_SHIFT (bv_len (k_iovec K w it')))) s1 = Some r"
          by (auto split: if_splits outcome.splits)
        from IH [OF rest] r add_verify_task_queues [OF t] show ?thesis by (blast intro: only_queues_trans)
      qed (use eq r in auto)
    qed
  qed
  with assms show ?thesis by blast
qed

lemma free_segments_queues: "free_segments bs st = Ret st' \<Longrightarrow> only_queues st st'"
  by (induction bs arbitrary: st)
     (auto simp: bind_outcome_Ret_iff dest!: free_page_queues intro: only_queues_trans)

lemma add_read_pages_queues: "add_read_pages K a n bs st = Ret (r, st') \<Longrightarrow> only_queues st st'"
proof (induction bs arbitrary: n st)
  case (Cons b bs)
  then show ?case
    by (auto simp: bind_outcome_Ret_iff split: if_splits option.splits prod.splits
        dest!: alloc_page_queues free_page_queues intro: only_queues_trans)
qed simp

lemma submit_verify_queues:
  "pcievdrv_submit_verify K b st = Some (Ret (r, st')) \<Longrightarrow> only_queues st st'"
  by (auto simp: pcievdrv_submit_verify_def Let_def bind_outcome_Ret_iff bind_eq_Some_conv
      dest!: add_read_pages_queues split: option.splits prod.splits)

lemma bind_run_Ret_iff:
  "bind_run m f = Some (Ret y) \<longleftrightarrow> (\<exists>x. m = Some (Ret x) \<and> f x = Some (Ret y))"
  by (simp add: bind_run_case split: option.split outcome.split)

lemma sum_Crash_iff:
  "(case r of Inl e \<Rightarrow> Some (Crash x) | Inr n \<Rightarrow> Some (Ret (f n))) = Some (Ret y) \<longleftrightarrow>
     (\<exists>n. r = Inr n \<and> f n = y)"
  by (cases r) auto

lemma submit_part_queues:
  assumes "submit_part K D sta tar parent st = Some (Ret st')"
  shows "only_queues st st'"
proof -
  let ?c = "chain_part parent (place_part D sta tar, st)"
  have "only_queues st (snd ?c)" by (simp add: chain_part_def split: option.split)
  moreover have "only_queues (snd ?c) st'"
    using assms
    by (cases ?c) (auto simp: submit_part_def bind_run_Ret_iff sum_Crash_iff split: if_splits
        dest!: submit_verify_queues)
  ultimately show ?thesis by (rule only_queues_trans)
qed

lemma submit_bio_queues:
  assumes "vpciedisk_submit_bio K D b st = Some (Ret st')"
  shows "only_queues st st'"
proof -
  have "\<forall>st'. Ret st' = Ret st'' \<longrightarrow> only_queues st st'" if "vpciedisk_submit_bio K D b st = Some (Ret st'')" for st''
  proof (rule vpciedisk_submit_bio.raw_induct [where P = "\<lambda>K D b st r. \<forall>st'. Ret st' = r \<longrightarrow> only_queues st st'", OF _ that])
    fix f :: "kernel \<Rightarrow> praid_dev \<Rightarrow> host_bio \<Rightarrow> drv \<Rightarrow> drv outcome option"
      and K D and b :: host_bio and st :: drv and r
    let ?s = "bi_sector (bi_iter b)"
    assume IH: "\<And>K D b st r. f K D b st = Some r \<Longrightarrow> \<forall>st'. Ret st' = r \<longrightarrow> only_queues st st'"
      and eq: "(let sta_sector = ?s; end_sector = chunk_end_sector sta_sector
      in if k_end_sector K (bi_iter b) \<le> end_sector + 1
         then submit_part K D sta_sector b None st
         else case k_split K b (end_sector - sta_sector + 1) of
           None \<Rightarrow> Some (Ret (st\<lparr>io_errors := io_errors st @ [bi_addr b]\<rparr>))
         | Some (child_bio, rest) \<Rightarrow>
             (case submit_part K D sta_sector (child_bio\<lparr>bi_private := None, bi_end_io := EndNull\<rparr>)
                     (Some (bi_addr rest)) st of
                None \<Rightarrow> None
              | Some (Crash e) \<Rightarrow> Some (Crash e)
              | Some (Ret st) \<Rightarrow> f K D rest st)) = Some r"
    show "\<forall>st'. Ret st' = r \<longrightarrow> only_queues st st'"
    proof (intro allI impI)
      fix st' assume r: "Ret st' = r"
      consider "submit_part K D ?s b None st = Some (Ret st')"
        | "st' = st\<lparr>io_errors := io_errors st @ [bi_addr b]\<rparr>"
        | c t s1 where "submit_part K D ?s (c\<lparr>bi_private := None, bi_end_io := EndNull\<rparr>) (Some (bi_addr t)) st = Some (Ret s1)"
            "f K D t s1 = Some r"
        using eq r by (auto simp: Let_def split: if_splits option.splits outcome.splits)
      then show "only_queues st st'"
      proof cases
        case 3
        from IH [OF 3(2)] r submit_part_queues [OF 3(1)] show ?thesis by (blast intro: only_queues_trans)
      qed (use submit_part_queues in auto)
    qed
  qed
  with assms show ?thesis by blast
qed

lemma read_endio_queues:
  "pciev_read_bio_endio K n st = Some (Ret st') \<Longrightarrow> only_queues st st'"
  by (auto simp: pciev_read_bio_endio_def bind_run_Ret_iff bind_eq_Some_conv Let_def
      split: option.splits if_splits dest!: endio_loop_queues free_segments_queues
      intro: only_queues_trans)

lemma token_lost_step:
  assumes lost: "token_lost s" and step: "sys_step K L D G s t"
  shows "token_lost t \<and> (\<exists>ws. workqueue (s_drv t) = workqueue (s_drv s) @ ws)"
  using step
proof (cases rule: sys_step.cases)
  case (submit b st)
  from submit_bio_queues [OF submit(3)] lost submit(1) show ?thesis by (auto simp: token_lost_def only_queues_def)
next
  case (read_done xs n ys it h st)
  from read_endio_queues [OF read_done(5)] lost read_done(1) show ?thesis
    by (auto simp: token_lost_def only_queues_def)
next
  case (work_down xs w ys st)
  then show ?thesis using lost by (auto simp: token_lost_def down_interruptible_def split: if_splits)
next
  case (dev E pc d mm disk)
  then show ?thesis using lost by (simp add: token_lost_def)
qed (use lost in \<open>auto simp: token_lost_def\<close>)

end
