(* ===== verification/Praid_Array.thy ===== *)
theory Praid_Array
  imports Praid_System
begin

text \<open>
  What the transition system of \<open>Praid_System\<close> guarantees to the users of the array: the
  parity after any run, recovery of a lost disk, mutual exclusion on the shared memory,
  ownership of pages, freedom from faults, that work gets done; and what goes wrong when two
  writes overlap or the parity disk fails.
\<close>

section \<open>A concrete array\<close>

definition example_irq :: irq_layer where
  "example_irq = \<lparr>il_virq = (\<lambda>i. 40 + i), il_retrigger = True\<rparr>"

text \<open>Three data disks, one with fours on it, and their parity.\<close>

definition example_sys :: sys where
  "example_sys = \<lparr>s_drv = example_drv, s_workers = [], s_mmio = example_mmio, s_pc = DevIdle,
     s_dev = \<lparr>d_old_bar = mm_bar example_mmio, d_msix_enabled = True, d_sts_is = False, d_irqs = []\<rparr>,
     s_parity = (\<lambda>_. 4), s_disks = (\<lambda>d _. if d = 101 then 4 else 0), s_posts = 0\<rparr>"

lemma example_array_ok: "array_ok reference_kernel example_irq example_dev"
  using ref.kernel_contract_axioms reference_kernel_live example_dev_disks
  by (simp add: array_ok_def irq_layer_ok_def example_irq_def) (simp add: data_disks_def example_dev_def)

lemma example_start: "sys_start example_sys"
  by (simp add: sys_start_def example_sys_def example_drv_def example_mmio_def)

lemma example_data_disks: "data_disks example_dev = [100, 101, 102]"
  by (simp add: data_disks_def example_dev_def)

lemma example_in_sync: "mismatch example_dev example_sys a = 0"
  by (simp add: mismatch_def parity_of_def example_data_disks) (simp add: example_sys_def)

lemma example_write_request: "write_request reference_kernel example_write example_sys"
proof -
  have "request_of example_write"
    using whole_bio_ok [OF example_write_whole]
    by (simp add: request_of_def) (simp add: example_write_def dvd_def)
  moreover have "in_one_chunk example_write"
    by (simp add: in_one_chunk_def example_write_def unat_chunk_end_sector)
  ultimately show ?thesis
    using example_write_whole
    by (simp add: write_request_def)
       (simp add: example_write_def whole_sectors_def in_page_def vec_pages_def example_sys_def
         example_drv_def owned_pages_def tasks_def dvd_def)
qed

text \<open>
  The kernel that hands out neighbouring pages will do as well: a request without a seam is a
  request for it, too.
\<close>

lemma dense_kernel_array: "array_ok dense_kernel example_irq example_dev" "\<not> pages_apart dense_kernel"
proof -
  have "kernel_live dense_kernel"
    by (simp add: kernel_live_def kmap_total_def dense_kernel_def reference_kernel_def)
  with dense_kernel_contract show "array_ok dense_kernel example_irq example_dev"
    using array_okD(3-5) [OF example_array_ok] by (simp add: array_ok_def)
  have "k_alloc_page dense_kernel 0 [(0, \<lambda>_. 0)] = Some (Suc 0, \<lambda>_. 0)" by (simp add: dense_kernel_def)
  moreover have "0 \<in> fst ` set [(0 :: nat, \<lambda>_ :: nat. 0 :: u8)]" by simp
  ultimately show "\<not> pages_apart dense_kernel" unfolding pages_apart_def by blast
qed

lemma dense_write_request: "write_request dense_kernel example_write example_sys"
proof -
  have "seam_free (bi_io_vec example_write)" by (simp add: example_write_def)
  then show ?thesis using example_write_request by (simp add: write_request_def)
qed

text \<open>A run of the example: the write is sent, and everything it causes is done.\<close>

lemma example_run:
  "\<exists>u t. sys_step reference_kernel example_irq example_dev (careful reference_kernel example_dev) example_sys u \<and>
     submitted (s_drv u) \<noteq> [] \<and>
     sys_run reference_kernel example_irq example_dev (careful reference_kernel example_dev) u t \<and> quiet t \<and> s_posts t < 2 ^ 32"
proof -
  note inv = sys_start_inv [OF example_start, of example_dev]
  have sub: "submitted (s_drv example_sys) = []" by (simp add: example_sys_def example_drv_def)
  have G: "careful reference_kernel example_dev example_write example_sys"
    by (simp add: careful_def example_write_request sub)
  from submit_step [OF inv example_array_ok example_write_request symp_disjoint_bios, of "careful reference_kernel example_dev", OF G]
  obtain st n where st: "sys_step reference_kernel example_irq example_dev (careful reference_kernel example_dev) example_sys
        (example_sys\<lparr>s_drv := st\<rparr>)"
    "system_inv disjoint_bios example_dev (mismatch example_dev example_sys) (example_sys\<lparr>s_drv := st\<rparr>)"
    "submitted st = [SubmitVerify n]" "read_for n (place_part example_dev (bi_sector (bi_iter example_write)) example_write)"
    "workqueue st = []"
    by (auto simp: sub) (simp add: example_sys_def example_drv_def)
  let ?u = "example_sys\<lparr>s_drv := st\<rparr>"
  have "length (bi_io_vec n) = 1"
    using read_for_length [OF st(4)] by (simp add: place_part_def example_write_def)
  then have "posts_due ?u < 2 ^ 32"
    by (simp add: posts_due_def tasks_def st(3,5)) (simp add: example_sys_def)
  from run_to_quiet [OF example_array_ok st(2) this] obtain t where
    t: "sys_run reference_kernel example_irq example_dev (\<lambda>_ _. False) ?u t" "quiet t"
    "system_inv disjoint_bios example_dev (mismatch example_dev example_sys) t" by blast
  have "s_posts t < 2 ^ 32"
    using t(3) unat_less [of "io_num (mm_bar (s_mmio t))"] by (simp add: system_inv_def device_inv_def)
  moreover have "sys_run reference_kernel example_irq example_dev (careful reference_kernel example_dev) ?u t"
    using sys_run_mono [OF t(1)] by blast
  ultimately show ?thesis using st(1,3) t(2) by (intro exI [of _ ?u] exI [of _ t]) simp
qed

text \<open>The example with its write read, queued and under way to its disk.\<close>

lemma example_queued:
  "\<exists>t w ys. sys_run reference_kernel example_irq example_dev (careful reference_kernel example_dev) example_sys t \<and>
     system_inv disjoint_bios example_dev (mismatch example_dev example_sys) t \<and>
     workqueue (s_drv t) = w # ys \<and> t = example_sys\<lparr>s_drv := s_drv t\<rparr> \<and> posts_due t < 2 ^ 32"
proof -
  note inv = sys_start_inv [OF example_start, of example_dev]
  have sub: "submitted (s_drv example_sys) = []" by (simp add: example_sys_def example_drv_def)
  have G: "careful reference_kernel example_dev example_write example_sys"
    by (simp add: careful_def example_write_request sub)
  from submit_step [OF inv example_array_ok example_write_request symp_disjoint_bios, of "careful reference_kernel example_dev", OF G]
  obtain st n where st: "sys_step reference_kernel example_irq example_dev (careful reference_kernel example_dev) example_sys
        (example_sys\<lparr>s_drv := st\<rparr>)"
    "system_inv disjoint_bios example_dev (mismatch example_dev example_sys) (example_sys\<lparr>s_drv := st\<rparr>)"
    "submitted st = [SubmitVerify n]" "read_for n (place_part example_dev (bi_sector (bi_iter example_write)) example_write)"
    "workqueue st = []"
    by (auto simp: sub) (simp add: example_sys_def example_drv_def)
  let ?u = "example_sys\<lparr>s_drv := st\<rparr>"
  from read_step [OF st(2) example_array_ok symp_disjoint_bios, of n "[]" "careful reference_kernel example_dev"]
  obtain st2 b where st2: "sys_step reference_kernel example_irq example_dev (careful reference_kernel example_dev) ?u (?u\<lparr>s_drv := st2\<rparr>)"
    "system_inv disjoint_bios example_dev (mismatch example_dev example_sys) (?u\<lparr>s_drv := st2\<rparr>)"
    "length (workqueue st2) = length (workqueue st) + length (bi_io_vec n)" "submitted st2 = [SubmitHost b]"
    by (auto simp: st(3))
  have "length (bi_io_vec n) = 1" using read_for_length [OF st(4)] by (simp add: place_part_def example_write_def)
  then have len: "length (workqueue st2) = 1" using st2(3) st(5) by simp
  then obtain w ys where w: "workqueue (s_drv (?u\<lparr>s_drv := st2\<rparr>)) = w # ys"
    by (cases "workqueue st2") auto
  have "posts_due (?u\<lparr>s_drv := st2\<rparr>) < 2 ^ 32"
    by (simp add: posts_due_def tasks_def st2(4) len) (simp add: example_sys_def)
  moreover have "sys_run reference_kernel example_irq example_dev (careful reference_kernel example_dev) example_sys (?u\<lparr>s_drv := st2\<rparr>)"
    using st(1) st2(1) by (meson converse_rtranclp_into_rtranclp rtranclp.rtrancl_refl)
  ultimately show ?thesis using st2(2) w
    by (intro exI [of _ "?u\<lparr>s_drv := st2\<rparr>"] exI [of _ w] exI [of _ ys]) simp
qed

section \<open>Parity\<close>

text \<open>
  C2: The parity follows the data. In every state the array can reach from start-up, as long as
  the upper layers send careful requests (as in C1: in particular no overlapping ones), memory
  and mappings do not fail, no signal arrives, the disks answer, and fewer than \<open>2\<^sup>32\<close> requests
  have been posted, each byte of the parity disk differs from the parity of the data disks by
  exactly what the queued tasks, the request with the device and the writes under way still
  account for (and by what it differed at start-up).
\<close>

theorem parity_tracks_work:
  assumes "array_ok K L D" and "sys_start s" and "sys_run K L D (careful K D) s t" and "s_posts t < 2 ^ 32"
  shows "mismatch D t a = to_come t a XOR mismatch D s a"
  using sys_run_inv [OF assms(1) _ assms(3) sys_start_inv [OF assms(2)] assms(4)]
  by (simp add: system_inv_def parity_inv_def)

theorem parity_tracks_work_witness:
  "\<exists>u. sys_run reference_kernel example_irq example_dev (careful reference_kernel example_dev) example_sys u \<and>
     submitted (s_drv u) \<noteq> [] \<and> (\<forall>a. mismatch example_dev u a = to_come u a)"
proof -
  obtain u t where u: "sys_step reference_kernel example_irq example_dev (careful reference_kernel example_dev) example_sys u"
    "submitted (s_drv u) \<noteq> []" and t: "sys_run reference_kernel example_irq example_dev (careful reference_kernel example_dev) u t"
    "s_posts t < 2 ^ 32" using example_run by blast
  have "sys_run reference_kernel example_irq example_dev (careful reference_kernel example_dev) example_sys u" using u(1) by blast
  moreover have "s_posts u < 2 ^ 32" using sys_run_posts [OF t(1)] t(2) by simp
  ultimately show ?thesis
    using parity_tracks_work [OF example_array_ok example_start, of u] u(2) by (auto simp: example_in_sync)
qed

text \<open>
  When nothing is under way any more, the parity disk differs from the parity of the data
  disks exactly where it did at start-up: an array that was in sync is in sync again after
  every run, and one that was not (the module never computes a first parity) stays out of
  sync.
\<close>

theorem parity_when_quiet:
  assumes "array_ok K L D" and "sys_start s" and "sys_run K L D (careful K D) s t" and "s_posts t < 2 ^ 32"
    and "quiet t"
  shows "mismatch D t a = mismatch D s a"
  using sys_run_inv [OF assms(1) _ assms(3) sys_start_inv [OF assms(2)] assms(4)] quiet_to_come [OF assms(5)]
  by (simp add: system_inv_def parity_inv_def)

theorem parity_when_quiet_witness:
  "\<exists>u t. sys_step reference_kernel example_irq example_dev (careful reference_kernel example_dev) example_sys u \<and>
     submitted (s_drv u) \<noteq> [] \<and>
     sys_run reference_kernel example_irq example_dev (careful reference_kernel example_dev) u t \<and> quiet t \<and>
     (\<forall>a. s_parity t a = parity_of example_dev t a)"
proof -
  obtain u t where r: "sys_step reference_kernel example_irq example_dev (careful reference_kernel example_dev) example_sys u"
    "submitted (s_drv u) \<noteq> []" "sys_run reference_kernel example_irq example_dev (careful reference_kernel example_dev) u t"
    "quiet t" "s_posts t < 2 ^ 32" using example_run by blast
  have "sys_run reference_kernel example_irq example_dev (careful reference_kernel example_dev) example_sys t"
    using r(1,3) by (rule converse_rtranclp_into_rtranclp)
  from parity_when_quiet [OF example_array_ok example_start this r(5,4)]
  have "mismatch example_dev t a = 0" for a by (simp add: example_in_sync)
  then have "s_parity t a XOR parity_of example_dev t a = 0" for a by (simp add: mismatch_def)
  then show ?thesis using r by (auto simp: xor_eq_iff)
qed

lemma xor_list_remove1: "d \<in> set ds \<Longrightarrow> xor_list f ds = f d XOR xor_list f (remove1 d ds)"
  by (induction ds) (auto simp: xor.left_commute)

lemma in_sync_at_rest:
  assumes "array_ok K L D" and "sys_start s" and "\<forall>a. mismatch D s a = 0"
    and "sys_run K L D (careful K D) s t" and "s_posts t < 2 ^ 32" and "quiet t"
  shows "s_parity t a = xor_list (\<lambda>d. s_disks t d a) (data_disks D)"
proof -
  have "mismatch D t a = 0"
    using sys_run_inv [OF assms(1) _ assms(4) sys_start_inv [OF assms(2)] assms(5)]
      quiet_to_come [OF assms(6)] assms(3)
    by (simp add: system_inv_def parity_inv_def)
  then show ?thesis by (simp add: mismatch_def parity_of_def xor_eq_iff)
qed

lemma disk_from_rest:
  assumes "array_ok K L D" and "sys_start s" and "\<forall>a. mismatch D s a = 0"
    and "sys_run K L D (careful K D) s t" and "s_posts t < 2 ^ 32" and "quiet t"
    and "d \<in> set (data_disks D)"
  shows "s_disks t d a = s_parity t a XOR xor_list (\<lambda>e. s_disks t e a) (remove1 d (data_disks D))"
  using in_sync_at_rest [OF assms(1-6), of a] xor_list_remove1 [OF assms(7), of "\<lambda>e. s_disks t e a"]
  by (simp add: xor_eq_iff)

text \<open>
  Recovery. In an array that was in sync at start-up, when nothing is under way, every
  byte of any one data disk is the exclusive or of the parity disk and the other data disks,
  whatever has been written in between.
\<close>

theorem lost_disk_recovered:
  assumes "array_ok K L D" and "sys_start s" and "\<forall>a. mismatch D s a = 0"
    and "sys_run K L D (careful K D) s t" and "s_posts t < 2 ^ 32" and "quiet t"
    and "d \<in> set (data_disks D)"
  shows "s_disks t d a = s_parity t a XOR xor_list (\<lambda>e. s_disks t e a) (remove1 d (data_disks D))"
  by (rule disk_from_rest [OF assms])

theorem lost_disk_recovered_witness:
  "\<exists>u t. sys_step reference_kernel example_irq example_dev (careful reference_kernel example_dev) example_sys u \<and>
     submitted (s_drv u) \<noteq> [] \<and>
     sys_run reference_kernel example_irq example_dev (careful reference_kernel example_dev) u t \<and> quiet t \<and>
     (\<forall>a. s_disks t 101 a = s_parity t a XOR xor_list (\<lambda>e. s_disks t e a) [100, 102])"
proof -
  obtain u t where r: "sys_step reference_kernel example_irq example_dev (careful reference_kernel example_dev) example_sys u"
    "submitted (s_drv u) \<noteq> []" "sys_run reference_kernel example_irq example_dev (careful reference_kernel example_dev) u t"
    "quiet t" "s_posts t < 2 ^ 32" using example_run by blast
  have "sys_run reference_kernel example_irq example_dev (careful reference_kernel example_dev) example_sys t"
    using r(1,3) by (rule converse_rtranclp_into_rtranclp)
  from lost_disk_recovered [OF example_array_ok example_start _ this r(5,4), of 101]
  have "s_disks t 101 a = s_parity t a XOR xor_list (\<lambda>e. s_disks t e a) (remove1 101 (data_disks example_dev))" for a
    by (simp add: example_in_sync example_data_disks)
  moreover have "remove1 101 (data_disks example_dev) = [100, 102]" by (simp add: example_data_disks)
  ultimately show ?thesis using r by auto
qed

section \<open>The shared memory and the pages\<close>

text \<open>
  C7: Mutual exclusion. In every state reached by careful requests (as in C1) while no access to the
  parity disk, no allocation and no mapping fails and no signal arrives, the semaphore, the
  workers that took it, the request with the device and the completion interrupts not yet
  delivered make exactly one: so no two workers write the calculation area at a time, and while
  one does, the device thread is at its loop and has nothing to do. (After a failed access to
  the parity disk the count is zero for good: C38.)
\<close>

theorem one_request_at_a_time:
  assumes "array_ok K L D" and "sys_start s" and "sys_run K L D (careful K D) s t" and "s_posts t < 2 ^ 32"
  shows "sem (s_drv t) + length (s_workers t) + outstanding t + length (d_irqs (s_dev t)) = 1 \<and>
    (s_workers t \<noteq> [] \<longrightarrow> s_pc t = DevIdle \<and> io_num (mm_bar (s_mmio t)) = io_done (mm_bar (s_mmio t)))"
proof -
  have tok: "token_inv t"
    using sys_run_inv [OF assms(1) _ assms(3) sys_start_inv [OF assms(2)] assms(4)] by (simp add: system_inv_def)
  moreover have "s_pc t = DevIdle \<and> io_num (mm_bar (s_mmio t)) = io_done (mm_bar (s_mmio t))"
    if ne: "s_workers t \<noteq> []"
  proof -
    obtain w ys where "s_workers t = w # ys" using ne by (meson list.exhaust)
    then have "s_workers t = [] @ w # ys" by simp
    from token_worker [OF tok this] show ?thesis by (auto simp: busy_def)
  qed
  ultimately show ?thesis by (simp add: token_inv_def)
qed

theorem one_request_at_a_time_witness:
  "\<exists>t. sys_run reference_kernel example_irq example_dev (careful reference_kernel example_dev) example_sys t \<and> t \<noteq> example_sys \<and>
     sem (s_drv t) + length (s_workers t) + outstanding t + length (d_irqs (s_dev t)) = 1"
proof -
  obtain u t where u: "sys_step reference_kernel example_irq example_dev (careful reference_kernel example_dev) example_sys u"
    "submitted (s_drv u) \<noteq> []" and t: "sys_run reference_kernel example_irq example_dev (careful reference_kernel example_dev) u t"
    "s_posts t < 2 ^ 32" using example_run by blast
  have r: "sys_run reference_kernel example_irq example_dev (careful reference_kernel example_dev) example_sys u" using u(1) by blast
  have "s_posts u < 2 ^ 32" using sys_run_posts [OF t(1)] t(2) by simp
  from one_request_at_a_time [OF example_array_ok example_start r this] r u(2)
  show ?thesis by (intro exI [of _ u]) (auto simp: example_sys_def example_drv_def)
qed

text \<open>
  C16: Every page is somebody's. In every state reached by careful requests while nothing fails (as
  in C1), the pages of the reads under way and of the queued tasks are allocated, no two of them
  are the same, and none is a page of a request of the upper layers.
\<close>

theorem pages_have_one_owner:
  assumes "array_ok K L D" and "sys_start s" and "sys_run K L D (careful K D) s t" and "s_posts t < 2 ^ 32"
  shows "distinct (owned_pages (submitted (s_drv t)) (tasks t)) \<and>
    set (owned_pages (submitted (s_drv t)) (tasks t)) \<inter> caller_pages (submitted (s_drv t)) = {} \<and>
    used_pages t \<subseteq> dom (map_of (heap (s_drv t)))"
  using sys_run_inv [OF assms(1) _ assms(3) sys_start_inv [OF assms(2)] assms(4)]
  by (simp add: system_inv_def page_inv_def)

theorem pages_have_one_owner_witness:
  "\<exists>t. sys_run reference_kernel example_irq example_dev (careful reference_kernel example_dev) example_sys t \<and> t \<noteq> example_sys \<and>
     distinct (owned_pages (submitted (s_drv t)) (tasks t))"
proof -
  obtain u t where u: "sys_step reference_kernel example_irq example_dev (careful reference_kernel example_dev) example_sys u"
    "submitted (s_drv u) \<noteq> []" and t: "sys_run reference_kernel example_irq example_dev (careful reference_kernel example_dev) u t"
    "s_posts t < 2 ^ 32" using example_run by blast
  have r: "sys_run reference_kernel example_irq example_dev (careful reference_kernel example_dev) example_sys u" using u(1) by blast
  have "s_posts u < 2 ^ 32" using sys_run_posts [OF t(1)] t(2) by simp
  from pages_have_one_owner [OF example_array_ok example_start r this] r u(2)
  show ?thesis by (intro exI [of _ u]) (auto simp: example_sys_def example_drv_def)
qed

section \<open>Progress\<close>

text \<open>
  C5: What is under way can always be finished. From every state reached by careful requests while
  nothing fails (as in C1), if fewer than \<open>2\<^sup>32\<close> tasks have been posted or are due, there are
  steps, none of them a new request, after which nothing is under way: reads complete, writes
  reach their disks, the workers get the semaphore one after the other, and the device processes
  every request. So no careful use runs into a deadlock as long as the parity disk answers; when
  it does not, C38 holds instead. (That the kernel does take these steps is its scheduling.)
\<close>

theorem work_gets_done:
  assumes "array_ok K L D" and "sys_start s" and "sys_run K L D (careful K D) s t" and "posts_due t < 2 ^ 32"
  shows "\<exists>u. sys_run K L D (\<lambda>_ _. False) t u \<and> quiet u"
proof -
  have "s_posts t < 2 ^ 32" using assms(4) by (simp add: posts_due_def)
  from sys_run_inv [OF assms(1) _ assms(3) sys_start_inv [OF assms(2)] this] assms(4)
  show ?thesis using run_to_quiet [OF assms(1)] by blast
qed

theorem work_gets_done_witness:
  "\<exists>t w u. sys_run reference_kernel example_irq example_dev (careful reference_kernel example_dev) example_sys t \<and>
     w \<in> set (workqueue (s_drv t)) \<and> \<not> quiet t \<and>
     sys_run reference_kernel example_irq example_dev (\<lambda>_ _. False) t u \<and> quiet u"
proof -
  obtain t w ys where t: "sys_run reference_kernel example_irq example_dev (careful reference_kernel example_dev) example_sys t"
    "workqueue (s_drv t) = w # ys" "posts_due t < 2 ^ 32" using example_queued by blast
  then have "w \<in> set (workqueue (s_drv t))" "\<not> quiet t" by (simp_all add: quiet_def tasks_def)
  with t(1) work_gets_done [OF example_array_ok example_start t(1,3)] show ?thesis by blast
qed

section \<open>Overlapping writes\<close>

text \<open>
  C37: Nothing orders two writes to the same place. When both have read the old data before
  either is written, the parity ends up wrong for good: if the first write changes byte
  \<open>a\<close>, then there is a run after which nothing is under way and the parity of byte \<open>a\<close> does
  not match the data disks.
\<close>

theorem overlapping_writes_break_parity:
  assumes "array_ok K L D" and "sys_start s" and "write_request K b1 s" and "write_request K b2 s"
    and "bi_bdev (place_part D (bi_sector (bi_iter b1)) b1) = bi_bdev (place_part D (bi_sector (bi_iter b2)) b2)"
    and "a \<in> bio_range (place_part D (bi_sector (bi_iter b2)) b2)"
    and "write_delta s (place_part D (bi_sector (bi_iter b1)) b1) a \<noteq> 0"
  shows "\<exists>t. sys_run K L D (write_request K) s t \<and> quiet t \<and> mismatch D t a \<noteq> mismatch D s a"
proof -
  from overlapping_run [OF assms(1-4) refl refl assms(5,6)] obtain t where
    t: "sys_run K L D (write_request K) s t" "quiet t"
    "mismatch D t a = mismatch D s a XOR write_delta s (place_part D (bi_sector (bi_iter b1)) b1) a" by blast
  have "mismatch D t a \<noteq> mismatch D s a"
  proof
    assume "mismatch D t a = mismatch D s a"
    with t(3) have "write_delta s (place_part D (bi_sector (bi_iter b1)) b1) a = 0"
      by (metis xor_cancel_left xor.comm_neutral)
    with assms(7) show False by contradiction
  qed
  with t(1,2) show ?thesis by blast
qed

theorem overlapping_writes_break_parity_witness:
  "\<exists>t. sys_run reference_kernel example_irq example_dev (write_request reference_kernel) example_sys t \<and> quiet t \<and>
     mismatch example_dev t 4096 \<noteq> 0"
proof -
  let ?p = "place_part example_dev (bi_sector (bi_iter example_write)) example_write"
  have s: "unat (sector_whole_to_i 40 3) = 8" by (simp add: unat_sector_whole_to_i)
  have "4096 \<in> bio_range ?p"
    by (simp add: bio_range_def place_part_def example_write_def example_dev_def s)
  moreover have "write_delta example_sys ?p 4096 \<noteq> 0"
    by (simp add: write_delta_def place_part_def example_write_def example_dev_def s seg_delta_def)
       (simp add: device_num_def chunk_num_def praid_const example_sys_def example_drv_def page_of_def)
  ultimately show ?thesis
    using overlapping_writes_break_parity [OF example_array_ok example_start example_write_request
        example_write_request refl, of 4096] by (simp add: example_in_sync)
qed

section \<open>An error of the parity disk\<close>

text \<open>
  The parity access the device thread is at: the read of the old parity, or the write of the
  new one.
\<close>

fun parity_access :: "dev_pc \<Rightarrow> req_op \<Rightarrow> u64 \<Rightarrow> u64 \<Rightarrow> bool" where
  "parity_access (DevFetched off n) rw off' n' \<longleftrightarrow> rw = REQ_OP_READ \<and> off' = off \<and> n' = n"
| "parity_access (DevSummed off n) rw off' n' \<longleftrightarrow> rw = REQ_OP_WRITE \<and> off' = off \<and> n' = n"
| "parity_access pc rw off' n' \<longleftrightarrow> False"

lemma parity_access_iff:
  "parity_access pc rw off n \<longleftrightarrow>
     (pc = DevFetched off n \<and> rw = REQ_OP_READ) \<or> (pc = DevSummed off n \<and> rw = REQ_OP_WRITE)"
  by (cases pc) auto

lemma failed_access_step:
  assumes "block_io E" and "parity_access pc rw off n"
    and "pciev_submit_bio E (PAGE_SIZE * 2) off n (io_sector_sta (mm_bar mm)) rw (mm_chunks mm) disk = (Some e, m, disk')"
  shows "dev_step L E (pc, d, mm, disk) = Some (Ret (DevIdle, d, mm, disk')) \<and> (rw = REQ_OP_READ \<longrightarrow> disk' = disk)"
proof (cases "rw = REQ_OP_READ")
  case True
  then have pc: "pc = DevFetched off n" using assms(2) by (simp add: parity_access_iff)
  from block_io.failed_read [OF assms(1) assms(3) [unfolded True]] have "m = mm_chunks mm" "disk' = disk" by simp_all
  then show ?thesis using assms(3) by (simp add: pc True)
next
  case False
  then have pc: "pc = DevSummed off n" and rw: "rw = REQ_OP_WRITE" using assms(2) by (auto simp: parity_access_iff)
  from failed_write [OF assms(3) [unfolded rw]] have "m = mm_chunks mm" .
  then show ?thesis using assms(3) by (simp add: pc rw)
qed

lemma token_lost_run:
  "sys_run K L D G v u \<Longrightarrow> token_lost v \<Longrightarrow>
     token_lost u \<and> s_posts u = s_posts v \<and> (\<exists>ws. workqueue (s_drv u) = workqueue (s_drv v) @ ws)"
proof (induction rule: rtranclp_induct)
  case (step u w)
  from token_lost_step [OF _ step.hyps(2)] step.IH step.prems
  have "token_lost w" "\<exists>ws. workqueue (s_drv w) = workqueue (s_drv u) @ ws" "token_lost u" by auto
  moreover have "s_posts w = s_posts u"
    using step.hyps(2) \<open>token_lost u\<close> by (cases rule: sys_step.cases) (auto simp: token_lost_def)
  ultimately show ?case using step.IH step.prems by auto
qed simp

text \<open>
  C38: One failed access to the parity disk, the read of the old parity or the write of the
  new one, stops the parity for good. In whatever call of \<open>pciev_submit_bio\<close> the error occurs,
  the device thread gives up the request without an interrupt (a failed read leaves the disk
  as it was, what a failed write leaves there is open), nobody is left who could release the
  semaphore, and in whatever follows, no worker ever gets it again: every task stays in the
  queue, and no further request reaches the device. The run up to the failure is one of
  careful requests as in C2.
\<close>

theorem parity_error_stops_workers:
  assumes "array_ok K L D" and "sys_start s" and "sys_run K L D (careful K D) s t" and "s_posts t < 2 ^ 32"
    and "block_io E" and "parity_access (s_pc t) rw off n"
    and "fst (pciev_submit_bio E (PAGE_SIZE * 2) off n (io_sector_sta (mm_bar (s_mmio t))) rw
           (mm_chunks (s_mmio t)) (s_parity t)) = Some e"
  shows "\<exists>disk. dev_step L E (s_pc t, s_dev t, s_mmio t, s_parity t) = Some (Ret (DevIdle, s_dev t, s_mmio t, disk)) \<and>
    (rw = REQ_OP_READ \<longrightarrow> disk = s_parity t) \<and>
    (\<forall>G u. sys_run K L D G (t\<lparr>s_pc := DevIdle, s_parity := disk\<rparr>) u \<longrightarrow>
       s_workers u = [] \<and> sem (s_drv u) = 0 \<and> s_posts u = s_posts t \<and>
       (\<exists>ws. workqueue (s_drv u) = workqueue (s_drv t) @ ws))"
proof -
  have inv: "token_inv t" "device_inv t"
    using sys_run_inv [OF assms(1) _ assms(3) sys_start_inv [OF assms(2)] assms(4)]
    by (simp_all add: system_inv_def)
  obtain m disk where r: "pciev_submit_bio E (PAGE_SIZE * 2) off n (io_sector_sta (mm_bar (s_mmio t))) rw
      (mm_chunks (s_mmio t)) (s_parity t) = (Some e, m, disk)"
    using assms(7) by (cases "pciev_submit_bio E (PAGE_SIZE * 2) off n (io_sector_sta (mm_bar (s_mmio t))) rw
      (mm_chunks (s_mmio t)) (s_parity t)") auto
  note step = failed_access_step [OF assms(5,6) r, of L "s_dev t"]
  let ?v = "t\<lparr>s_pc := DevIdle, s_parity := disk\<rparr>"
  have "sem (s_drv t) + length (s_workers t) + 1 + length (d_irqs (s_dev t)) = 1"
    "io_num (mm_bar (s_mmio t)) = io_done (mm_bar (s_mmio t))"
    using inv assms(6) by (auto simp: token_inv_def outstanding_def busy_def device_inv_def parity_access_iff)
  then have "token_lost ?v" by (simp add: token_lost_def)
  with token_lost_run [of K L D _ ?v] step show ?thesis
    by (intro exI [of _ disk]) (auto simp: token_lost_def)
qed

text \<open>A run to the moment at which the device reads the old parity.\<close>

lemma reach_fetched:
  assumes inv: "system_inv disjoint_bios D m s" and A: "array_ok K L D" and free: "s_workers s = []"
    "d_irqs (s_dev s) = []" "\<not> busy (s_pc s) (s_mmio s)" and w: "workqueue (s_drv s) = w # ys"
    and width: "Suc (s_posts s) < 2 ^ 32"
  shows "\<exists>t off n. sys_run K L D G s t \<and> s_pc t = DevFetched off n \<and> s_posts t < 2 ^ 32"
proof -
  obtain s1 where step1: "sys_step K L D G s s1" "s_workers s1 = [w]" "s1 = s\<lparr>s_drv := s_drv s1, s_workers := [w]\<rparr>"
    and inv1: "system_inv disjoint_bios D m s1" using start_worker [OF inv free w] by blast
  have "s_pc s1 = s_pc s" "s_mmio s1 = s_mmio s" "s_posts s1 = s_posts s" by (subst step1(3), simp)+
  with free(3) step1(2) have sw: "s_workers s1 = [w]" "s_pc s1 = DevIdle" "\<not> busy DevIdle (s_mmio s1)" "s_posts s1 = s_posts s"
    by (auto simp: busy_def)
  obtain st co cn where st: "verify_work_post K w (s_drv s1, s_mmio s1) = Ret (st, posted (s_mmio s1) w co cn)"
    using worker_posts [OF inv1 A sw(1)] by blast
  note inv1 = inv1 [unfolded system_inv_def]
  let ?mm = "posted (s_mmio s1) w co cn"
  obtain s2 where s2: "s2 = s1\<lparr>s_drv := st, s_mmio := ?mm, s_workers := [] @ [], s_posts := Suc (s_posts s1)\<rparr>" by blast
  have step2: "sys_step K L D G s1 s2"
    unfolding s2 by (rule sys_step.work_post [of s1 "[]" w "[]" K]) (simp_all add: sw st)
  have ok: "work_shape w" "dev_ok DevIdle (s_mmio s1) (s_parity s1)" "unat (io_num (mm_bar (s_mmio s1))) = s_posts s1"
    using inv1 sw(2) by (auto simp: shape_inv_def tasks_def sw(1) device_inv_def)
  have "Suc (unat (io_num (mm_bar (s_mmio s1)))) < 2 ^ 32" using ok(3) sw(4) width by simp
  note pd = posted_device [OF ok(1,2) sw(3) this, of co cn]
  have "\<not> io_num (mm_bar ?mm) \<le> io_done (mm_bar ?mm)"
    using pd(1,2) by (auto simp: busy_def word_le_nat_alt word_unat_eq_iff)
  then have d1: "dev_step L ref_blk_call (s_pc s2, s_dev s2, s_mmio s2, s_parity s2) =
      Some (Ret (DevTaken, s_dev s2, io_taken ?mm, s_parity s2))"
    using sw(2) by (simp add: s2 io_taken_def)
  obtain s3 where s3: "s3 = s2\<lparr>s_pc := DevTaken, s_dev := s_dev s2, s_mmio := io_taken ?mm, s_parity := s_parity s2\<rparr>" by blast
  have step3: "sys_step K L D G s2 s3"
    unfolding s3 by (rule sys_step.dev [OF ref_io.block_io_axioms ref_blk_call_succeeds d1])
  have d2: "dev_step L ref_blk_call (s_pc s3, s_dev s3, s_mmio s3, s_parity s3) =
      Some (Ret (DevFetched (io_offset (mm_bar (s_mmio s3))) (io_size (mm_bar (s_mmio s3))), s_dev s3, s_mmio s3, s_parity s3))"
    by (simp add: s3)
  obtain s4 where s4: "s4 = s3\<lparr>s_pc := DevFetched (io_offset (mm_bar (s_mmio s3))) (io_size (mm_bar (s_mmio s3))),
      s_dev := s_dev s3, s_mmio := s_mmio s3, s_parity := s_parity s3\<rparr>" by blast
  have step4: "sys_step K L D G s3 s4"
    unfolding s4 by (rule sys_step.dev [OF ref_io.block_io_axioms ref_blk_call_succeeds d2])
  have "sys_run K L D G s s4"
    using step1(1) step2 step3 step4 by (meson converse_rtranclp_into_rtranclp rtranclp.rtrancl_refl)
  moreover have "s_posts s4 < 2 ^ 32" using width sw(4) by (simp add: s4 s3 s2)
  ultimately show ?thesis by (intro exI [of _ s4]) (simp add: s4)
qed

lemma example_fetched:
  "\<exists>t off n. sys_run reference_kernel example_irq example_dev (careful reference_kernel example_dev) example_sys t \<and>
     s_pc t = DevFetched off n \<and> s_posts t < 2 ^ 32"
proof -
  obtain u w ys where u: "sys_run reference_kernel example_irq example_dev (careful reference_kernel example_dev) example_sys u"
    "system_inv disjoint_bios example_dev (mismatch example_dev example_sys) u" "workqueue (s_drv u) = w # ys"
    "u = example_sys\<lparr>s_drv := s_drv u\<rparr>" using example_queued by blast
  have rest: "s_workers u = s_workers example_sys" "s_pc u = s_pc example_sys" "s_dev u = s_dev example_sys"
    "s_mmio u = s_mmio example_sys" "s_posts u = s_posts example_sys" by (subst u(4), simp)+
  have "\<exists>t off n. sys_run reference_kernel example_irq example_dev (careful reference_kernel example_dev) u t \<and>
      s_pc t = DevFetched off n \<and> s_posts t < 2 ^ 32"
    by (rule reach_fetched [OF u(2) example_array_ok _ _ _ u(3)], unfold rest)
       (simp_all add: example_sys_def example_mmio_def busy_def)
  with u(1) show ?thesis by (meson rtranclp_trans)
qed

text \<open>And from there on to the moment at which it writes the new one.\<close>

lemma reach_summed:
  assumes inv: "system_inv disjoint_bios D m s" and A: "array_ok K L D" and pc: "s_pc s = DevFetched off n"
  shows "\<exists>t. sys_run K L D G s t \<and> s_pc t = DevSummed off n \<and> s_posts t = s_posts s"
proof -
  let ?m = "copy_bytes (mm_chunks (s_mmio s)) (8192 + unat off) (s_parity s)
      (unat (io_sector_sta (mm_bar (s_mmio s))) * 512) (unat n)"
  have d1: "dev_step L ref_blk_call (s_pc s, s_dev s, s_mmio s, s_parity s) =
      Some (Ret (DevLoaded off n, s_dev s, (s_mmio s)\<lparr>mm_chunks := ?m\<rparr>, s_parity s))"
    using ref_io.submit_read [OF ref_blk_call_succeeds] by (simp add: pc)
  obtain u where u: "u = s\<lparr>s_pc := DevLoaded off n, s_dev := s_dev s, s_mmio := (s_mmio s)\<lparr>mm_chunks := ?m\<rparr>, s_parity := s_parity s\<rparr>"
    by blast
  have step1: "sys_step K L D G s u"
    unfolding u by (rule sys_step.dev [OF ref_io.block_io_axioms ref_blk_call_succeeds d1])
  have "request_ok (s_mmio s)" "off = io_offset (mm_bar (s_mmio s))" "n = io_size (mm_bar (s_mmio s))"
    using inv pc by (simp_all add: system_inv_def device_inv_def)
  then have "xor_loop off n 0 (mm_chunks (s_mmio u)) = Some (xor_region (unat off) (unat n) (mm_chunks (s_mmio u)))"
    by (intro xor_loop_range) (simp_all add: request_ok_def)
  then have d2: "dev_step L ref_blk_call (s_pc u, s_dev u, s_mmio u, s_parity u) = Some (Ret (DevSummed off n, s_dev u,
      (s_mmio u)\<lparr>mm_chunks := xor_region (unat off) (unat n) (mm_chunks (s_mmio u))\<rparr>, s_parity u))"
    by (simp add: u)
  obtain t where t: "t = u\<lparr>s_pc := DevSummed off n, s_dev := s_dev u,
      s_mmio := (s_mmio u)\<lparr>mm_chunks := xor_region (unat off) (unat n) (mm_chunks (s_mmio u))\<rparr>, s_parity := s_parity u\<rparr>" by blast
  have step2: "sys_step K L D G u t"
    unfolding t by (rule sys_step.dev [OF ref_io.block_io_axioms ref_blk_call_succeeds d2])
  from step1 step2 have "sys_run K L D G s t" by (meson converse_rtranclp_into_rtranclp rtranclp.rtrancl_refl)
  then show ?thesis by (intro exI [of _ t]) (simp add: t u)
qed

lemma example_summed:
  "\<exists>t off n. sys_run reference_kernel example_irq example_dev (careful reference_kernel example_dev) example_sys t \<and>
     s_pc t = DevSummed off n \<and> s_posts t < 2 ^ 32"
proof -
  obtain u off n where u: "sys_run reference_kernel example_irq example_dev (careful reference_kernel example_dev) example_sys u"
    "s_pc u = DevFetched off n" "s_posts u < 2 ^ 32" using example_fetched by blast
  have inv: "system_inv disjoint_bios example_dev (mismatch example_dev example_sys) u"
    by (rule sys_run_inv [OF example_array_ok _ u(1) sys_start_inv [OF example_start] u(3)])
  from reach_summed [OF inv example_array_ok u(2), of "careful reference_kernel example_dev"] u(1,3)
  show ?thesis by (metis rtranclp_trans)
qed

lemma failing_access:
  "fst (pciev_submit_bio failing_blk_call buf off n sec rw m disk) = Some EIO"
  by (simp add: pciev_submit_bio_def failing_blk_call_def ref_blk_call_def)

text \<open>Both failures in the example: of the read, and of the write that follows it.\<close>

theorem parity_error_stops_workers_witness:
  "\<forall>rw. \<exists>t off n disk. sys_run reference_kernel example_irq example_dev (careful reference_kernel example_dev) example_sys t \<and>
     parity_access (s_pc t) rw off n \<and>
     dev_step example_irq failing_blk_call (s_pc t, s_dev t, s_mmio t, s_parity t) =
       Some (Ret (DevIdle, s_dev t, s_mmio t, disk)) \<and>
     (\<forall>G u. sys_run reference_kernel example_irq example_dev G (t\<lparr>s_pc := DevIdle, s_parity := disk\<rparr>) u \<longrightarrow>
       s_workers u = [] \<and> sem (s_drv u) = 0)"
proof
  fix rw
  obtain t off n where t: "sys_run reference_kernel example_irq example_dev (careful reference_kernel example_dev) example_sys t"
    "parity_access (s_pc t) rw off n" "s_posts t < 2 ^ 32"
    using example_fetched example_summed by (cases rw) (metis parity_access.simps)+
  from parity_error_stops_workers [OF example_array_ok example_start t(1,3) failing_io.block_io_axioms t(2) failing_access] t(1,2)
  show "\<exists>t off n disk. sys_run reference_kernel example_irq example_dev (careful reference_kernel example_dev) example_sys t \<and>
     parity_access (s_pc t) rw off n \<and>
     dev_step example_irq failing_blk_call (s_pc t, s_dev t, s_mmio t, s_parity t) =
       Some (Ret (DevIdle, s_dev t, s_mmio t, disk)) \<and>
     (\<forall>G u. sys_run reference_kernel example_irq example_dev G (t\<lparr>s_pc := DevIdle, s_parity := disk\<rparr>) u \<longrightarrow>
       s_workers u = [] \<and> sem (s_drv u) = 0)" by blast
qed

end
