(* ===== verification/Praid_Bits.thy ===== *)
theory Praid_Bits
  imports Praid_Prelude
begin

text \<open>
  Bit-fields in memory. The configuration space of the virtual device is a page of bytes that
  \<open>pci.c\<close> fills through structs with bit-fields. This theory has the memory side of a
  bit-field (read and write \<open>w\<close> bits at a bit position, least significant bit first, as the
  little-endian x86-64 ABI lays them out), the ABI's rules for the place of each member of a
  struct, and what sequences of member assignments do. The laws are stated once as the
  locale \<open>bit_memory\<close> and proved of the byte memory.
\<close>

named_theorems praid_bits "reading and writing bit-fields"

section \<open>The interface\<close>

definition apart :: "nat \<Rightarrow> nat \<Rightarrow> nat \<Rightarrow> nat \<Rightarrow> bool" where
  "apart p w q v \<longleftrightarrow> p + w \<le> q \<or> q + v \<le> p"

text \<open>A place is a bit position and a width; an assignment is a place and a value.\<close>

type_synonym place = "nat \<times> nat"
type_synonym assignment = "place \<times> nat"

fun apart_places :: "place \<Rightarrow> place \<Rightarrow> bool" where
  "apart_places (p, w) (q, v) = apart p w q v"

locale bit_memory =
  fixes get :: "nat \<Rightarrow> nat \<Rightarrow> 'm \<Rightarrow> nat"
    and put :: "nat \<Rightarrow> nat \<Rightarrow> nat \<Rightarrow> 'm \<Rightarrow> 'm"
  assumes get_put_same: "get p w (put p w v m) = take_bit w v"
    and get_put_apart: "apart p w q v \<Longrightarrow> get p w (put q v x m) = get p w m"
    and get_less: "get p w m < 2 ^ w"
begin

definition assign :: "assignment list \<Rightarrow> 'm \<Rightarrow> 'm" where
  "assign as m = fold (\<lambda>((p, w), v). put p w v) as m"

lemma assign_Nil [simp]: "assign [] m = m"
  by (simp add: assign_def)

lemma assign_Cons [simp]: "assign (((p, w), v) # as) m = assign as (put p w v m)"
  by (simp add: assign_def)

lemma assign_append: "assign (as @ bs) m = assign bs (assign as m)"
  by (simp add: assign_def)

lemma get_assign_apart:
  "(\<And>q. q \<in> set (map fst as) \<Longrightarrow> apart_places (p, w) q) \<Longrightarrow> get p w (assign as m) = get p w m"
proof (induction as arbitrary: m)
  case (Cons a as)
  obtain q v x where a: "a = ((q, v), x)" by (metis prod.collapse)
  have "apart_places (p, w) (q, v)" using Cons.prems [of "(q, v)"] a by simp
  then have ap: "apart p w q v" by simp
  have "get p w (assign as (put q v x m)) = get p w (put q v x m)"
    by (rule Cons.IH) (rule Cons.prems, simp)
  with a show ?case by (simp add: get_put_apart [OF ap])
qed simp

lemma get_assign:
  assumes "sorted_wrt apart_places (map fst as)" and "((p, w), v) \<in> set as"
  shows "get p w (assign as m) = take_bit w v"
  using assms
proof (induction as arbitrary: m)
  case (Cons a as)
  obtain q u x where a: "a = ((q, u), x)" by (metis prod.collapse)
  show ?case
  proof (cases "a = ((p, w), v)")
    case True
    have "get p w (assign as (put p w v m)) = get p w (put p w v m)"
      using Cons.prems(1) by (intro get_assign_apart) (auto simp: True)
    then show ?thesis by (simp add: True get_put_same)
  next
    case False
    then show ?thesis using Cons.IH Cons.prems by (auto simp: a)
  qed
qed simp

end

section \<open>Bytes as a memory of bits\<close>

definition get_bits :: "nat \<Rightarrow> nat \<Rightarrow> bytes \<Rightarrow> nat" where
  "get_bits p w m = horner_sum of_bool 2 (map (\<lambda>i. bit (m ((p + i) div 8)) ((p + i) mod 8)) [0..<w])"

definition put_bits :: "nat \<Rightarrow> nat \<Rightarrow> nat \<Rightarrow> bytes \<Rightarrow> bytes" where
  "put_bits p w v m = (\<lambda>a. if 8 * a + 8 \<le> p \<or> p + w \<le> 8 * a then m a
     else horner_sum of_bool 2
       (map (\<lambda>i. if p \<le> 8 * a + i \<and> 8 * a + i < p + w then bit v (8 * a + i - p) else bit (m a) i) [0..<8]))"

lemma bit_get_bits [praid_bits]:
  "bit (get_bits p w m) n \<longleftrightarrow> n < w \<and> bit (m ((p + n) div 8)) ((p + n) mod 8)"
  by (auto simp: get_bits_def bit_horner_sum_bit_iff)

lemma bit_put_bits [praid_bits]:
  "bit (put_bits p w v m a) i \<longleftrightarrow>
     (if i < 8 \<and> p \<le> 8 * a + i \<and> 8 * a + i < p + w then bit v (8 * a + i - p) else bit (m a) i)"
proof (cases "i < 8")
  case False
  then have "\<not> bit (x :: u8) i" for x
    using bit_imp_le_length [of x i] by auto
  with False show ?thesis by simp
next
  case True
  then show ?thesis
    by (auto simp: put_bits_def bit_horner_sum_bit_word_iff)
qed

lemma get_bits_put_same: "get_bits p w (put_bits p w v m) = take_bit w v"
  by (rule bit_eqI) (auto simp: praid_bits bit_take_bit_iff)

lemma get_bits_put_apart:
  assumes "apart p w q v"
  shows "get_bits p w (put_bits q v x m) = get_bits p w m"
proof (rule bit_eqI)
  fix n
  have "8 * ((p + n) div 8) + (p + n) mod 8 = p + n" by simp
  with assms show "bit (get_bits p w (put_bits q v x m)) n \<longleftrightarrow> bit (get_bits p w m) n"
    by (auto simp: praid_bits apart_def)
qed

lemma get_bits_less: "get_bits p w m < 2 ^ w"
proof -
  have "take_bit w (get_bits p w m) = get_bits p w m"
    by (rule bit_eqI) (auto simp: praid_bits bit_take_bit_iff)
  then show ?thesis by (simp add: take_bit_nat_eq_self_iff)
qed

interpretation bm: bit_memory get_bits put_bits
  by unfold_locales (auto simp: get_bits_put_same get_bits_put_apart get_bits_less)

lemma get_bits_part:
  assumes "i + v \<le> w"
  shows "get_bits (p + i) v m = take_bit v (drop_bit i (get_bits p w m))"
  using assms by (intro bit_eqI) (auto simp: praid_bits bit_take_bit_iff bit_drop_bit_eq ac_simps)

lemma get_bits_put_part:
  assumes "i + v \<le> w"
  shows "get_bits (p + i) v (put_bits p w x m) = take_bit v (drop_bit i x)"
  unfolding get_bits_part [OF assms] get_bits_put_same
  using assms by (intro bit_eqI) (auto simp: bit_take_bit_iff bit_drop_bit_eq)

lemma get_bits_split: "get_bits p (a + b) m = get_bits p a m + 2 ^ a * get_bits (p + a) b m"
proof -
  have "map f [0..<a + b] = map f [0..<a] @ map (\<lambda>i. f (a + i)) [0..<b]" for f :: "nat \<Rightarrow> bool"
    by (induction b) simp_all
  then show ?thesis by (simp only: get_bits_def horner_sum_append length_map length_upt minus_nat.diff_0 add.assoc)
qed

section \<open>Where the members of a struct are\<close>

text \<open>
  A member is an integer of a type of \<open>t\<close> bits, a bit-field of \<open>n\<close> bits declared with a type
  of \<open>t\<close> bits, an array, or a nested struct of such fields. The rules are those of the
  System V ABI: a bit-field goes to the next free bit unless it would cross a boundary of its
  declared type, then it starts at that boundary; everything else is aligned to its type; a
  struct is aligned as its most aligned member and padded to a multiple of that.
\<close>

datatype cfield = BitF string nat nat | IntF string nat | ArrF string nat nat

datatype cmember = One cfield | Sub string "cfield list"

fun field_type :: "cfield \<Rightarrow> nat" where
  "field_type (BitF s t n) = t"
| "field_type (IntF s t) = t"
| "field_type (ArrF s t n) = t"

fun field_name :: "cfield \<Rightarrow> string" where
  "field_name (BitF s t n) = s"
| "field_name (IntF s t) = s"
| "field_name (ArrF s t n) = s"

fun field_width :: "cfield \<Rightarrow> nat" where
  "field_width (BitF s t n) = n"
| "field_width (IntF s t) = t"
| "field_width (ArrF s t n) = t * n"

definition round_up :: "nat \<Rightarrow> nat \<Rightarrow> nat" where
  "round_up p t = (p + t - 1) div t * t"

fun field_at :: "nat \<Rightarrow> cfield \<Rightarrow> nat" where
  "field_at p (BitF s t n) = (if p div t = (p + n - 1) div t then p else round_up p t)"
| "field_at p (IntF s t) = round_up p t"
| "field_at p (ArrF s t n) = round_up p t"

definition fields_align :: "cfield list \<Rightarrow> nat" where
  "fields_align fs = foldr (\<lambda>f. max (field_type f)) fs 8"

text \<open>The members in order with their places, by the paths they are named with.\<close>

type_synonym path = "string \<times> string"

fun fields_layout :: "nat \<Rightarrow> string \<Rightarrow> cfield list \<Rightarrow> (path \<times> place) list" where
  "fields_layout p s [] = []"
| "fields_layout p s (f # fs) =
     ((s, field_name f), field_at p f, field_width f) # fields_layout (field_at p f + field_width f) s fs"

fun fields_end :: "nat \<Rightarrow> cfield list \<Rightarrow> nat" where
  "fields_end p [] = p"
| "fields_end p (f # fs) = fields_end (field_at p f + field_width f) fs"

fun member_fields :: "cmember \<Rightarrow> cfield list" where
  "member_fields (One f) = [f]"
| "member_fields (Sub s fs) = fs"

fun member_name :: "cmember \<Rightarrow> string" where
  "member_name (One f) = []"
| "member_name (Sub s fs) = s"

fun member_align :: "cmember \<Rightarrow> nat" where
  "member_align (One f) = field_type f"
| "member_align (Sub s fs) = fields_align fs"

text \<open>Where a member ends: a bit-field at its last bit, a struct after its padding.\<close>

fun member_start :: "nat \<Rightarrow> cmember \<Rightarrow> nat" where
  "member_start p (One f) = p"
| "member_start p (Sub s fs) = round_up p (fields_align fs)"

fun member_end :: "nat \<Rightarrow> cmember \<Rightarrow> nat" where
  "member_end p (One f) = fields_end p [f]"
| "member_end p (Sub s fs) = round_up (fields_end (round_up p (fields_align fs)) fs) (fields_align fs)"

fun struct_layout :: "nat \<Rightarrow> cmember list \<Rightarrow> (path \<times> place) list" where
  "struct_layout p [] = []"
| "struct_layout p (m # ms) =
     fields_layout (member_start p m) (member_name m) (member_fields m) @ struct_layout (member_end p m) ms"

fun struct_end :: "nat \<Rightarrow> cmember list \<Rightarrow> nat" where
  "struct_end p [] = p"
| "struct_end p (m # ms) = struct_end (member_end p m) ms"

text \<open>\<open>sizeof\<close>, in bytes, and the place of a member by its path.\<close>

definition sizeof :: "cmember list \<Rightarrow> nat" where
  "sizeof ms = round_up (struct_end 0 ms) (foldr (\<lambda>m. max (member_align m)) ms 8) div 8"

definition member_place :: "cmember list \<Rightarrow> path \<Rightarrow> place option" where
  "member_place ms path = map_of (struct_layout 0 ms) path"

lemmas layout_defs = sizeof_def member_place_def fields_align_def round_up_def

text \<open>Assignments to members of a struct at a byte address.\<close>

fun at_byte :: "nat \<Rightarrow> place option \<Rightarrow> nat \<Rightarrow> bytes \<Rightarrow> bytes" where
  "at_byte base (Some (p, w)) v m = put_bits (8 * base + p) w v m"
| "at_byte base None v m = m"

definition set_member :: "cmember list \<Rightarrow> nat \<Rightarrow> path \<Rightarrow> nat \<Rightarrow> bytes \<Rightarrow> bytes" where
  "set_member ms base path v m = at_byte base (member_place ms path) v m"

definition set_members :: "cmember list \<Rightarrow> nat \<Rightarrow> (path \<times> nat) list \<Rightarrow> bytes \<Rightarrow> bytes" where
  "set_members ms base as m = fold (\<lambda>(path, v). set_member ms base path v) as m"

definition get_member :: "cmember list \<Rightarrow> nat \<Rightarrow> path \<Rightarrow> bytes \<Rightarrow> nat option" where
  "get_member ms base path m = map_option (\<lambda>(p, w). get_bits (8 * base + p) w m) (member_place ms path)"

lemma set_members_Nil [simp]: "set_members ms base [] m = m"
  by (simp add: set_members_def)

lemma set_members_Cons [simp]:
  "set_members ms base ((path, v) # as) m = set_members ms base as (set_member ms base path v m)"
  by (simp add: set_members_def)

text \<open>A sequence of member assignments as the assignments to their places.\<close>

fun resolve :: "cmember list \<Rightarrow> nat \<Rightarrow> (path \<times> nat) list \<Rightarrow> assignment list" where
  "resolve ms base [] = []"
| "resolve ms base ((path, v) # as) = (case member_place ms path of
     None \<Rightarrow> resolve ms base as
   | Some (p, w) \<Rightarrow> ((8 * base + p, w), v) # resolve ms base as)"

lemma set_members_assign: "set_members ms base as m = bm.assign (resolve ms base as) m"
proof (induction as arbitrary: m)
  case (Cons a as)
  obtain path v where a: "a = (path, v)" by (metis prod.collapse)
  show ?case
    by (cases "member_place ms path")
       (auto simp: a Cons.IH set_member_def split: option.split)
qed simp

section \<open>What the layout guarantees\<close>

fun field_ok :: "cfield \<Rightarrow> bool" where
  "field_ok (BitF s t n) \<longleftrightarrow> 0 < n \<and> n \<le> t"
| "field_ok (IntF s t) \<longleftrightarrow> 0 < t"
| "field_ok (ArrF s t n) \<longleftrightarrow> 0 < t"

definition struct_ok :: "cmember list \<Rightarrow> bool" where
  "struct_ok ms \<longleftrightarrow> (\<forall>m \<in> set ms. \<forall>f \<in> set (member_fields m). field_ok f)"

lemma round_up_ge: "0 < t \<Longrightarrow> p \<le> round_up p t"
proof -
  assume t: "0 < t"
  have "p + t - 1 = (p + t - 1) div t * t + (p + t - 1) mod t" by simp
  moreover have "(p + t - 1) mod t < t" using t by simp
  ultimately show ?thesis using t unfolding round_up_def by linarith
qed

lemma field_at_ge: "field_ok f \<Longrightarrow> p \<le> field_at p f"
  by (cases f) (auto intro: round_up_ge)

lemma fields_align_pos: "0 < fields_align fs"
proof -
  have "8 \<le> foldr (\<lambda>f. max (field_type f)) fs 8" by (induction fs) auto
  then show ?thesis by (simp add: fields_align_def)
qed

text \<open>A bit-field does not cross a boundary of its declared type; everything else is aligned to its type.\<close>

fun fits_unit :: "cfield \<Rightarrow> nat \<Rightarrow> bool" where
  "fits_unit (BitF s t n) p \<longleftrightarrow> p div t = (p + n - 1) div t"
| "fits_unit (IntF s t) p \<longleftrightarrow> t dvd p"
| "fits_unit (ArrF s t n) p \<longleftrightarrow> t dvd p"

lemma field_at_fits: "field_ok f \<Longrightarrow> fits_unit f (field_at p f)"
proof (cases f)
  case (BitF s t n)
  assume ok: "field_ok f"
  have "(q * t + n - 1) div t = q * t div t" for q
  proof -
    have "q * t + n - 1 = (n - 1) + q * t" "n - 1 < t" "0 < t" using ok BitF by auto
    then show ?thesis by (metis div_less div_mult_self1 div_mult_self_is_m add.left_neutral less_not_refl)
  qed
  then show ?thesis using BitF by (simp add: round_up_def)
qed (simp_all add: round_up_def)

text \<open>Places in order, from bit \<open>p\<close> to bit \<open>e\<close>.\<close>

definition in_order :: "nat \<Rightarrow> nat \<Rightarrow> ('k \<times> place) list \<Rightarrow> bool" where
  "in_order p e ps \<longleftrightarrow> p \<le> e \<and> (\<forall>(k, q, w) \<in> set ps. p \<le> q \<and> q + w \<le> e) \<and>
     sorted_wrt (\<lambda>(k, q, w) (k', q', w'). q + w \<le> q') ps"

lemma in_order_Nil [simp]: "in_order p e [] \<longleftrightarrow> p \<le> e"
  by (simp add: in_order_def)

lemma in_order_Cons: "p \<le> q \<Longrightarrow> in_order (q + w) e ps \<Longrightarrow> in_order p e ((k, q, w) # ps)"
  by (fastforce simp: in_order_def)

lemma in_order_append: "in_order p q ps \<Longrightarrow> in_order q e rs \<Longrightarrow> in_order p e (ps @ rs)"
  by (fastforce simp: in_order_def sorted_wrt_append)

lemma in_order_wider: "in_order q e ps \<Longrightarrow> p \<le> q \<Longrightarrow> e \<le> d \<Longrightarrow> in_order p d ps"
  by (fastforce simp: in_order_def)

lemma fields_in_order: "\<forall>f \<in> set fs. field_ok f \<Longrightarrow> in_order p (fields_end p fs) (fields_layout p s fs)"
proof (induction fs arbitrary: p)
  case (Cons f fs)
  then show ?case using field_at_ge [of f p] by (auto intro: in_order_Cons)
qed simp

lemma member_in_order:
  assumes "\<forall>f \<in> set (member_fields m). field_ok f"
  shows "in_order p (member_end p m) (fields_layout (member_start p m) (member_name m) (member_fields m))"
proof (cases m)
  case (One f)
  then show ?thesis using fields_in_order [OF assms, of p] by simp
next
  case (Sub s fs)
  then show ?thesis
    using in_order_wider [OF fields_in_order [OF assms, of "round_up p (fields_align fs)"]]
      round_up_ge [OF fields_align_pos] by simp
qed

lemma struct_in_order: "struct_ok ms \<Longrightarrow> in_order p (struct_end p ms) (struct_layout p ms)"
proof (induction ms arbitrary: p)
  case (Cons m ms)
  then have "in_order (member_end p m) (struct_end p (m # ms)) (struct_layout (member_end p m) ms)"
    by (simp add: struct_ok_def)
  moreover have "in_order p (member_end p m) (fields_layout (member_start p m) (member_name m) (member_fields m))"
    using Cons.prems by (intro member_in_order) (simp add: struct_ok_def)
  ultimately show ?case by (simp add: in_order_append)
qed simp

lemma struct_end_sizeof: "struct_end 0 ms \<le> 8 * sizeof ms" if "\<forall>m \<in> set ms. 8 dvd member_align m"
proof -
  let ?a = "foldr (\<lambda>m. max (member_align m)) ms 8"
  have "8 dvd ?a \<and> 0 < ?a" using that by (induction ms) (auto simp: max_def)
  then have "struct_end 0 ms \<le> round_up (struct_end 0 ms) ?a" "8 dvd round_up (struct_end 0 ms) ?a"
    by (simp_all add: round_up_ge) (simp add: round_up_def)
  then show ?thesis by (simp add: sizeof_def)
qed

text \<open>Two members of a struct are apart, and all of them inside the struct.\<close>

lemma map_of_places_apart:
  assumes "in_order p e ps" and "map_of ps k = Some (q, w)" and "map_of ps k' = Some (q', w')" and "k \<noteq> k'"
  shows "apart q w q' w'"
  using assms
proof (induction ps arbitrary: p)
  case (Cons a ps)
  obtain j r v where a: "a = (j, r, v)" by (metis prod.collapse)
  have "in_order (r + v) e ps" using Cons.prems(1) by (fastforce simp: in_order_def a)
  note IH = Cons.IH [OF this]
  have later: "r + v \<le> q1" if "map_of ps i = Some (q1, w1)" for i q1 w1
    using Cons.prems(1) map_of_SomeD [OF that] by (fastforce simp: in_order_def a)
  show ?case using Cons.prems(2-4) IH later by (auto simp: a apart_def split: if_splits)
qed simp

lemma map_of_place_inside: "in_order p e ps \<Longrightarrow> map_of ps k = Some (q, w) \<Longrightarrow> q + w \<le> e"
  by (fastforce simp: in_order_def dest: map_of_SomeD)

lemma set_member_get:
  assumes "member_place ms path = Some (p, w)"
  shows "get_member ms base path (set_member ms base path v m) = Some (take_bit w v)"
  using assms by (simp add: get_member_def set_member_def get_bits_put_same)

lemma set_member_other:
  assumes "struct_ok ms" and "path \<noteq> other"
  shows "get_member ms base other (set_member ms base path v m) = get_member ms base other m"
proof (cases "member_place ms path")
  case (Some a)
  obtain p w where p: "member_place ms path = Some (p, w)" using Some by (cases a) simp
  show ?thesis
  proof (cases "member_place ms other")
    case (Some b)
    then obtain q u where q: "member_place ms other = Some (q, u)" by (cases b) simp
    have "apart q u p w"
      using map_of_places_apart [OF struct_in_order [OF assms(1)], of 0 other q u path p w] p q assms(2)
      by (simp add: member_place_def)
    then have "apart (8 * base + q) u (8 * base + p) w" by (auto simp: apart_def)
    then show ?thesis by (simp add: get_member_def set_member_def p q get_bits_put_apart)
  qed (simp add: get_member_def)
qed (simp add: set_member_def)

end
