(* ===== verification/Praid_Pci.thy ===== *)
theory Praid_Pci
  imports Praid_Bits
begin

text \<open>
  The PCI configuration space of the virtual device (\<open>pci.h\<close>, \<open>pci.c\<close>): the structs that
  describe it, the settings \<open>PCIEV_PCI_INIT\<close> writes, and the accessors the PCI core calls,
  with their masks of writable bits.
\<close>

section \<open>The structs of pci.h\<close>

definition pci_header :: "cmember list" where
  "pci_header = [
     Sub ''id'' [IntF ''vid'' 16, IntF ''did'' 16],
     Sub ''cmd'' [BitF ''iose'' 8 1, BitF ''mse'' 8 1, BitF ''bme'' 8 1, BitF ''sce'' 8 1,
       BitF ''mwie'' 8 1, BitF ''vga'' 8 1, BitF ''pee'' 8 1, BitF ''fixed'' 8 1,
       BitF ''see'' 8 1, BitF ''fbe'' 8 1, BitF ''id'' 8 1, BitF ''rsvd'' 8 5],
     Sub ''sts'' [BitF ''rsvd1'' 8 3, BitF ''is'' 8 1, BitF ''cl'' 8 1, BitF ''c66'' 8 1,
       BitF ''rsvd2'' 8 1, BitF ''fbc'' 8 1, BitF ''dpd'' 8 1, BitF ''devt'' 8 2,
       BitF ''sta'' 8 1, BitF ''rta'' 8 1, BitF ''rma'' 8 1, BitF ''sse'' 8 1, BitF ''dpe'' 8 1],
     One (IntF ''rid'' 8),
     Sub ''cc'' [IntF ''pi'' 8, IntF ''scc'' 8, IntF ''bcc'' 8],
     One (IntF ''cls'' 8), One (IntF ''mlt'' 8),
     Sub ''htype'' [BitF ''hl'' 8 7, BitF ''mfd'' 8 1],
     Sub ''bist'' [BitF ''cc'' 8 4, BitF ''rsvd'' 8 2, BitF ''sb'' 8 1, BitF ''bc'' 8 1],
     Sub ''mlbar'' [BitF ''rte'' 32 1, BitF ''tp'' 32 2, BitF ''pf'' 32 1, BitF ''rsvd'' 32 10,
       BitF ''ba'' 32 18],
     One (IntF ''mulbar'' 32), One (IntF ''idbar'' 32),
     One (IntF ''bar3'' 32), One (IntF ''bar4'' 32), One (IntF ''bar5'' 32),
     One (IntF ''ccptr'' 32),
     Sub ''ss'' [IntF ''ssvid'' 16, IntF ''ssid'' 16],
     One (IntF ''erom'' 32), One (IntF ''cap'' 8), One (ArrF ''rsvd'' 8 7),
     Sub ''intr'' [IntF ''iline'' 8, IntF ''ipin'' 8],
     One (IntF ''mgnt'' 8), One (IntF ''mlat'' 8)]"

definition pci_pm_cap :: "cmember list" where
  "pci_pm_cap = [
     Sub ''pid'' [IntF ''cid'' 8, IntF ''next'' 8],
     Sub ''pc'' [BitF ''vs'' 16 3, BitF ''pmec'' 16 1, BitF ''resv'' 16 1, BitF ''dsi'' 16 1,
       BitF ''auxc'' 16 3, BitF ''d1s'' 16 1, BitF ''d2s'' 16 1, BitF ''psup'' 16 5],
     Sub ''pmcs'' [BitF ''ps'' 16 2, BitF ''rsvd01'' 16 1, BitF ''nsfrst'' 16 1,
       BitF ''rsvd02'' 16 4, BitF ''pmee'' 16 1, BitF ''dse'' 16 4, BitF ''dsc'' 16 2,
       BitF ''pmes'' 16 1],
     One (ArrF ''ext'' 8 2)]"

definition pci_msix_cap :: "cmember list" where
  "pci_msix_cap = [
     Sub ''mxid'' [IntF ''cid'' 8, IntF ''next'' 8],
     Sub ''mxc'' [BitF ''ts'' 16 11, BitF ''rsvd'' 16 3, BitF ''fm'' 16 1, BitF ''mxe'' 16 1],
     Sub ''mtab'' [BitF ''tbir'' 32 3, BitF ''to'' 32 29],
     Sub ''mpba'' [BitF ''pbir'' 32 3, BitF ''pbao'' 32 29]]"

definition pcie_cap :: "cmember list" where
  "pcie_cap = [
     Sub ''pxid'' [IntF ''cid'' 8, IntF ''next'' 8],
     Sub ''pxcap'' [BitF ''ver'' 16 4, BitF ''dpt'' 16 4, BitF ''si'' 16 1, BitF ''imn'' 16 5,
       BitF ''rsvd'' 16 2],
     Sub ''pxdcap'' [BitF ''mps'' 32 3, BitF ''pfs'' 32 2, BitF ''etfs'' 32 1, BitF ''l0sl'' 32 3,
       BitF ''l1l'' 32 3, BitF ''rsvd'' 32 3, BitF ''rer'' 32 1, BitF ''rsvd2'' 32 2,
       BitF ''csplv'' 32 8, BitF ''cspls'' 32 2, BitF ''flrc'' 32 1, BitF ''rsvd3'' 32 3],
     Sub ''pxdc'' [BitF ''cere'' 16 1, BitF ''nfere'' 16 1, BitF ''fere'' 16 2, BitF ''urre'' 16 1,
       BitF ''ero'' 16 1, BitF ''mps'' 16 3, BitF ''ete'' 16 1, BitF ''pfe'' 16 1,
       BitF ''appme'' 16 1, BitF ''ens'' 16 1, BitF ''mrrs'' 16 3, BitF ''iflr'' 16 1],
     Sub ''pxds'' [BitF ''ced'' 16 1, BitF ''nfed'' 16 1, BitF ''fed'' 16 1, BitF ''urd'' 16 1,
       BitF ''apd'' 16 1, BitF ''tp'' 16 1, BitF ''rsvd'' 16 10],
     Sub ''pxlcap'' [BitF ''sls'' 32 4, BitF ''mlw'' 32 6, BitF ''aspms'' 32 2, BitF ''l0sel'' 32 3,
       BitF ''l1el'' 32 3, BitF ''cpm'' 32 1, BitF ''sderc'' 32 1, BitF ''dllla'' 32 20,
       BitF ''lbnc'' 32 1, BitF ''aoc'' 32 1, BitF ''rsvd'' 32 1, BitF ''pn'' 32 8],
     Sub ''pxlc'' [BitF ''aspmc'' 16 2, BitF ''rsvd'' 16 1, BitF ''rcb'' 16 1, BitF ''rsvd2'' 16 2,
       BitF ''ccc'' 16 1, BitF ''es'' 16 1, BitF ''ecpm'' 16 1, BitF ''hawd'' 16 1,
       BitF ''rsvd3'' 16 6],
     Sub ''pxls'' [BitF ''clc'' 16 4, BitF ''nlw'' 16 6, BitF ''rsvd'' 16 2, BitF ''scc'' 16 1,
       BitF ''rsvd2'' 16 3],
     Sub ''pxdcap2'' [BitF ''ctrs'' 32 4, BitF ''ctds'' 32 1, BitF ''arifs'' 32 1, BitF ''aors'' 32 1,
       BitF ''aocs32'' 32 1, BitF ''aocs'' 32 1, BitF ''ccs128'' 32 1, BitF ''nprpr'' 32 1,
       BitF ''ltrs'' 32 1, BitF ''tphcs'' 32 2, BitF ''rsvd'' 32 4, BitF ''obffs'' 32 2,
       BitF ''effs'' 32 1, BitF ''eetps'' 32 1, BitF ''meetp'' 32 2, BitF ''rsvd2'' 32 8],
     Sub ''pxdc2'' [BitF ''ctv'' 32 4, BitF ''ctd'' 32 1, BitF ''rsvd'' 32 5, BitF ''ltrme'' 32 1,
       BitF ''rsvd2'' 32 2, BitF ''obffe'' 32 2, BitF ''rsvd3'' 32 17]]"

definition pci_ext_cap :: "cmember list" where
  "pci_ext_cap = [One (IntF ''cid'' 16), One (BitF ''cver'' 16 4), One (BitF ''next'' 16 12)]"

lemmas pci_structs = pci_header_def pci_pm_cap_def pci_msix_cap_def pcie_cap_def pci_ext_cap_def

section \<open>Constants\<close>

named_theorems pci_const "offsets and identifiers of the configuration space"

definition PCIEV_DEVICE_ID :: nat where [pci_const]: "PCIEV_DEVICE_ID = 0x0110"
definition PCIEV_VENDOR_ID :: nat where [pci_const]: "PCIEV_VENDOR_ID = 0x0c51"
definition PCIEV_SUBSYSTEM_ID :: nat where [pci_const]: "PCIEV_SUBSYSTEM_ID = 0x370d"
definition PCIEV_SUBSYSTEM_VENDOR_ID :: nat where [pci_const]: "PCIEV_SUBSYSTEM_VENDOR_ID = PCIEV_VENDOR_ID"
definition PCIEV_INTX_IRQ :: nat where [pci_const]: "PCIEV_INTX_IRQ = 15"
definition NR_MAX_IO_QUEUE :: nat where [pci_const]: "NR_MAX_IO_QUEUE = 72"

definition OFFS_PCI_HDR :: nat where [pci_const]: "OFFS_PCI_HDR = 0x0"
definition OFFS_PCI_PM_CAP :: nat where [pci_const]: "OFFS_PCI_PM_CAP = 0x40"
definition OFFS_PCI_MSIX_CAP :: nat where [pci_const]: "OFFS_PCI_MSIX_CAP = 0x50"
definition OFFS_PCIE_CAP :: nat where [pci_const]: "OFFS_PCIE_CAP = 0x60"
definition PCI_CFG_SPACE_SIZE :: nat where [pci_const]: "PCI_CFG_SPACE_SIZE = 0x100"
definition OFFS_PCI_EXT_CAP :: nat where [pci_const]: "OFFS_PCI_EXT_CAP = PCI_CFG_SPACE_SIZE"

text \<open>From the kernel's \<open>pci_regs.h\<close>.\<close>

definition PCI_COMMAND :: nat where [pci_const]: "PCI_COMMAND = 0x04"
definition PCI_STATUS :: nat where [pci_const]: "PCI_STATUS = 0x06"
definition PCI_BIST :: nat where [pci_const]: "PCI_BIST = 0x0f"
definition PCI_BASE_ADDRESS_0 :: nat where [pci_const]: "PCI_BASE_ADDRESS_0 = 0x10"
definition PCI_INTERRUPT_LINE :: nat where [pci_const]: "PCI_INTERRUPT_LINE = 0x3c"
definition PCI_MSIX_FLAGS :: nat where [pci_const]: "PCI_MSIX_FLAGS = 2"
definition PCI_COMMAND_INTX_DISABLE :: u32 where [pci_const]: "PCI_COMMAND_INTX_DISABLE = 0x400"
definition PCI_BIST_START :: u32 where [pci_const]: "PCI_BIST_START = 0x40"
definition PCI_MSIX_FLAGS_ENABLE :: u32 where [pci_const]: "PCI_MSIX_FLAGS_ENABLE = 0x8000"
definition PCI_MSIX_FLAGS_MASKALL :: u32 where [pci_const]: "PCI_MSIX_FLAGS_MASKALL = 0x4000"
definition PCI_EXP_FLAGS :: nat where [pci_const]: "PCI_EXP_FLAGS = 2"

section \<open>The settings\<close>

definition PCI_HEADER_SETTINGS :: "u64 \<Rightarrow> nat \<Rightarrow> bytes \<Rightarrow> bytes" where
  "PCI_HEADER_SETTINGS base_pa pcihdr = set_members pci_header pcihdr
     [((''id'', ''did''), PCIEV_DEVICE_ID), ((''id'', ''vid''), PCIEV_VENDOR_ID),
      ((''cmd'', ''mse''), 1), ((''sts'', ''cl''), 1),
      ((''htype'', ''mfd''), 0), ((''htype'', ''hl''), 0),
      (('''', ''rid''), 0x01),
      ((''cc'', ''bcc''), 0x00), ((''cc'', ''scc''), 0x00), ((''cc'', ''pi''), 0x00),
      ((''mlbar'', ''tp''), 0x04 div 2),
      ((''mlbar'', ''ba''), unat (drop_bit 14 (base_pa AND 0xFFFFFFFF))),
      (('''', ''mulbar''), unat (drop_bit 32 base_pa)),
      ((''ss'', ''ssid''), PCIEV_SUBSYSTEM_ID), ((''ss'', ''ssvid''), PCIEV_SUBSYSTEM_VENDOR_ID),
      (('''', ''erom''), 0x0),
      (('''', ''cap''), OFFS_PCI_PM_CAP),
      ((''intr'', ''ipin''), 0), ((''intr'', ''iline''), PCIEV_INTX_IRQ)]"

definition PCI_PMCAP_SETTINGS :: "nat \<Rightarrow> bytes \<Rightarrow> bytes" where
  "PCI_PMCAP_SETTINGS pmcap = set_members pci_pm_cap pmcap
     [((''pid'', ''cid''), 0x01), ((''pid'', ''next''), OFFS_PCI_MSIX_CAP),
      ((''pc'', ''vs''), 3), ((''pmcs'', ''ps''), 0x0800 div 2 ^ 16)]"

definition PCI_MSIXCAP_SETTINGS :: "nat \<Rightarrow> bytes \<Rightarrow> bytes" where
  "PCI_MSIXCAP_SETTINGS msixcap = set_members pci_msix_cap msixcap
     [((''mxid'', ''cid''), 0x11), ((''mxid'', ''next''), OFFS_PCIE_CAP),
      ((''mxc'', ''ts''), 127), ((''mxc'', ''mxe''), 1),
      ((''mtab'', ''tbir''), 0), ((''mtab'', ''to''), 0x400),
      ((''mpba'', ''pbir''), 0), ((''mpba'', ''pbao''), 0x1000)]"

definition PCI_PCIECAP_SETTINGS :: "nat \<Rightarrow> bytes \<Rightarrow> bytes" where
  "PCI_PCIECAP_SETTINGS pciecap = set_members pcie_cap pciecap
     [((''pxid'', ''cid''), 0x10), ((''pxid'', ''next''), 0x0),
      ((''pxcap'', ''ver''), PCI_EXP_FLAGS), ((''pxcap'', ''imn''), 0), ((''pxcap'', ''dpt''), 0),
      ((''pxdcap'', ''mps''), 1), ((''pxdcap'', ''pfs''), 0), ((''pxdcap'', ''etfs''), 1), ((''pxdcap'', ''l0sl''), 6),
      ((''pxdcap'', ''l1l''), 2), ((''pxdcap'', ''rer''), 1), ((''pxdcap'', ''csplv''), 0), ((''pxdcap'', ''cspls''), 0),
      ((''pxdcap'', ''flrc''), 1)]"

text \<open>The six extended capabilities: offset from the base, identifier, next.\<close>

definition ext_caps :: "(nat \<times> nat \<times> nat) list" where
  "ext_caps =
     [(0, 0x01, PCI_CFG_SPACE_SIZE + 0x50), (0x50, 0x02, PCI_CFG_SPACE_SIZE + 0x80),
      (0x80, 0x04, PCI_CFG_SPACE_SIZE + 0x90), (0x90, 0x0e, PCI_CFG_SPACE_SIZE + 0x170),
      (0x170, 0x03, PCI_CFG_SPACE_SIZE + 0x1a0), (0x1a0, 0x19, 0)]"

definition PCI_EXTCAP_SETTINGS :: "nat \<Rightarrow> bytes \<Rightarrow> bytes" where
  "PCI_EXTCAP_SETTINGS ext_cap_base m =
     fold (\<lambda>(off, cid, nxt). set_members pci_ext_cap (ext_cap_base + off)
             [(('''', ''cid''), cid), (('''', ''cver''), 1), (('''', ''next''), nxt)]) ext_caps m"

text \<open>The part of \<open>PCIEV_PCI_INIT\<close> before the bus is created.\<close>

definition pci_settings :: "u64 \<Rightarrow> bytes \<Rightarrow> bytes" where
  "pci_settings memmap_start m =
     PCI_EXTCAP_SETTINGS OFFS_PCI_EXT_CAP (PCI_PCIECAP_SETTINGS OFFS_PCIE_CAP
       (PCI_MSIXCAP_SETTINGS OFFS_PCI_MSIX_CAP (PCI_PMCAP_SETTINGS OFFS_PCI_PM_CAP
         (PCI_HEADER_SETTINGS memmap_start OFFS_PCI_HDR m))))"

section \<open>The accessors\<close>

text \<open>
  The part of the device the accessors work on: the configuration space, the flag of the
  command register, and the flag in the \<open>pci_dev\<close> the PCI core made for the device, if it
  has made one.
\<close>

record pci_vdev =
  virtDev :: bytes
  intx_disabled :: bool
  pdev_msix_enabled :: "bool option"

text \<open>\<open>memcpy\<close> of \<open>n\<close> bytes of the space into an integer of the caller.\<close>

definition load_bytes :: "bytes \<Rightarrow> nat \<Rightarrow> nat \<Rightarrow> u32 \<Rightarrow> u32" where
  "load_bytes m where_at n val = (val AND NOT (mask (8 * n))) OR word_of_nat (get_bits (8 * where_at) (8 * n) m)"

definition store_bytes :: "bytes \<Rightarrow> nat \<Rightarrow> nat \<Rightarrow> u32 \<Rightarrow> bytes" where
  "store_bytes m where_at n val = put_bits (8 * where_at) (8 * n) (unat val) m"

definition pciev_pci_read :: "pci_vdev \<Rightarrow> nat \<Rightarrow> nat \<Rightarrow> nat \<Rightarrow> u32 \<Rightarrow> int \<times> u32" where
  "pciev_pci_read s devfn where_at n val =
     (if devfn \<noteq> 0 then (1, val) else (0, load_bytes (virtDev s) where_at n val))"

text \<open>The mask of writable bits, and what a write changes besides them.\<close>

definition pci_mask :: "nat \<Rightarrow> u32" where
  "pci_mask where_at =
     (if where_at < OFFS_PCI_PM_CAP then
        (if where_at = PCI_COMMAND then PCI_COMMAND_INTX_DISABLE
         else if where_at = PCI_STATUS then 0xF200
         else if where_at = PCI_BIST then PCI_BIST_START
         else if where_at = PCI_BASE_ADDRESS_0 then 0xFFFFC000
         else if where_at = PCI_INTERRUPT_LINE then 0xFF
         else 0)
      else if where_at < OFFS_PCI_MSIX_CAP then NOT 0
      else if where_at < OFFS_PCIE_CAP then
        (if where_at - OFFS_PCI_MSIX_CAP = PCI_MSIX_FLAGS
         then PCI_MSIX_FLAGS_MASKALL OR PCI_MSIX_FLAGS_ENABLE else 0)
      else NOT 0)"

definition pci_write_effect :: "nat \<Rightarrow> u32 \<Rightarrow> u32 \<Rightarrow> pci_vdev \<Rightarrow> pci_vdev" where
  "pci_write_effect where_at val new s =
     (if where_at = PCI_COMMAND \<and> (val XOR new) AND PCI_COMMAND_INTX_DISABLE \<noteq> 0 then
        (if new AND PCI_COMMAND_INTX_DISABLE \<noteq> 0 then s\<lparr>intx_disabled := True\<rparr>
         else s\<lparr>intx_disabled := False,
                virtDev := set_member pci_header OFFS_PCI_HDR (''sts'', ''is'') 0 (virtDev s)\<rparr>)
      else if where_at = OFFS_PCI_MSIX_CAP + PCI_MSIX_FLAGS \<and> pdev_msix_enabled s \<noteq> None \<and>
              (val XOR new) AND PCI_MSIX_FLAGS_ENABLE \<noteq> 0
      then s\<lparr>pdev_msix_enabled := Some (new AND PCI_MSIX_FLAGS_ENABLE \<noteq> 0)\<rparr>
      else s)"

definition pciev_pci_write :: "pci_vdev \<Rightarrow> nat \<Rightarrow> nat \<Rightarrow> nat \<Rightarrow> u32 \<Rightarrow> int \<times> pci_vdev" where
  "pciev_pci_write s devfn where_at n new =
     (let val = load_bytes (virtDev s) where_at n 0;
          s = pci_write_effect where_at val new s;
          val = (val AND NOT (pci_mask where_at)) OR (new AND pci_mask where_at)
      in (0, s\<lparr>virtDev := store_bytes (virtDev s) where_at n val\<rparr>))"

text \<open>The device as \<open>VDEV_INIT\<close> and \<open>PCIEV_PCI_INIT\<close> leave it before the bus is scanned.\<close>

definition pci_vdev_start :: "u64 \<Rightarrow> pci_vdev" where
  "pci_vdev_start base_pa =
     \<lparr>virtDev = pci_settings base_pa (\<lambda>a. 0), intx_disabled = False, pdev_msix_enabled = None\<rparr>"

end
