(* ===== verification/Praid_Config.thy ===== *)
theory Praid_Config
  imports Praid_Pci
begin

text \<open>
  What the configuration space promises: the bits a write can change, the values the settings
  leave in every register, the capability lists, the base address and its sizing protocol,
  and the flags kept outside the space.
\<close>

section \<open>Bits of the configuration space\<close>

definition cfg_bit :: "bytes \<Rightarrow> nat \<Rightarrow> bool" where
  "cfg_bit m p = bit (m (p div 8)) (p mod 8)"

text \<open>
  An access as the PCI core makes them, of one, two or four bytes at a multiple of its size,
  and the bits that such a write can change.
\<close>

definition aligned_access :: "nat \<Rightarrow> nat \<Rightarrow> bool" where
  "aligned_access where_at n \<longleftrightarrow> n \<in> {1, 2, 4} \<and> n dvd where_at"

definition writable :: "nat \<Rightarrow> bool" where
  "writable p \<longleftrightarrow> p \<in> {42, 51, 57, 60, 61, 62, 63, 126} \<or> (142 \<le> p \<and> p < 160) \<or> (480 \<le> p \<and> p < 488) \<or>
     (512 \<le> p \<and> p < 640) \<or> p \<in> {670, 671} \<or> 768 \<le> p"

lemma bit_u32_iff:
  assumes "\<And>j. j < 32 \<Longrightarrow> bit w j = P j" and "\<And>j. P j \<Longrightarrow> j < 32"
  shows "bit (w :: u32) i = P i"
  using assms bit_imp_le_length [of w i] by auto

lemma bit_mask_command: "bit (0x400 :: u32) i \<longleftrightarrow> i = 10"
  by (rule bit_u32_iff) (auto simp: less_Suc_eq numeral_eq_Suc)
lemma bit_mask_status: "bit (0xF200 :: u32) i \<longleftrightarrow> i \<in> {9, 12, 13, 14, 15}"
  by (rule bit_u32_iff) (auto simp: less_Suc_eq numeral_eq_Suc)
lemma bit_mask_bist: "bit (0x40 :: u32) i \<longleftrightarrow> i = 6"
  by (rule bit_u32_iff) (auto simp: less_Suc_eq numeral_eq_Suc)
lemma bit_mask_line: "bit (0xFF :: u32) i \<longleftrightarrow> i < 8"
  by (rule bit_u32_iff) (auto simp: less_Suc_eq numeral_eq_Suc)
lemma bit_mask_bar: "bit (0xFFFFC000 :: u32) i \<longleftrightarrow> 14 \<le> i \<and> i < 32"
  by (rule bit_u32_iff) (auto simp: less_Suc_eq numeral_eq_Suc)
lemma bit_mask_msix: "bit (0xC000 :: u32) i \<longleftrightarrow> i = 14 \<or> i = 15"
  by (rule bit_u32_iff) (auto simp: less_Suc_eq numeral_eq_Suc)
lemma msix_mask: "PCI_MSIX_FLAGS_MASKALL OR PCI_MSIX_FLAGS_ENABLE = 0xC000" by (simp add: pci_const)

lemmas bit_masks = bit_mask_command bit_mask_status bit_mask_bist bit_mask_line bit_mask_bar bit_mask_msix
lemma aligned_below: "aligned_access a n \<Longrightarrow> a < 4 * b \<Longrightarrow> i < 8 * n \<Longrightarrow> 8 * a + i < 32 * b"
  by (auto simp: aligned_access_def dvd_def)

lemma mask_writable:
  assumes al: "aligned_access a n" and i: "i < 8 * n" and b: "bit (pci_mask a) i"
  shows "writable (8 * a + i)"
proof (cases "a < 0x40")
  case True
  then show ?thesis using b 
  by (auto simp: pci_mask_def pci_const writable_def bit_masks simp del: bit_numeral_word_iff split: if_splits)
next
  case hdr: False
  show ?thesis
  proof (cases "a < 0x50")
    case True
    then show ?thesis using hdr aligned_below [OF al, of "0x14", OF _ i] by (simp add: writable_def)
  next
    case False
    then show ?thesis using b hdr
      by (auto simp: pci_mask_def pci_const writable_def bit_masks simp del: bit_numeral_word_iff split: if_splits)
  qed
qed

lemma cfg_bit_get: "bit (get_bits p w m) i \<longleftrightarrow> i < w \<and> cfg_bit m (p + i)"
  by (simp add: praid_bits cfg_bit_def)

lemma cfg_bit_put: "cfg_bit (put_bits p w v m) q \<longleftrightarrow> (if p \<le> q \<and> q < p + w then bit v (q - p) else cfg_bit m q)"
  by (simp add: praid_bits cfg_bit_def)

lemma header_is_place: "member_place pci_header (''sts'', ''is'') = Some (51, 1)"
  by (simp add: member_place_def pci_header_def fields_align_def round_up_def)

lemma load_bit: "n \<le> 4 \<Longrightarrow> bit (load_bytes m a n 0) i \<longleftrightarrow> i < 8 * n \<and> cfg_bit m (8 * a + i)"
  by (auto simp: load_bytes_def bit_simps cfg_bit_get)

lemma effect_bit: "q \<noteq> 51 \<or> a \<noteq> PCI_COMMAND \<Longrightarrow> cfg_bit (virtDev (pci_write_effect a val new s)) q = cfg_bit (virtDev s) q"
  by (auto simp: pci_write_effect_def set_member_def header_is_place pci_const cfg_bit_put)

lemma write_bit:
  assumes n: "n \<le> 4" and q: "q \<noteq> 51 \<or> a \<noteq> PCI_COMMAND \<or> (8 * a \<le> q \<and> q < 8 * a + 8 * n)"
  shows "cfg_bit (virtDev (snd (pciev_pci_write s devfn a n new))) q \<longleftrightarrow>
    (if 8 * a \<le> q \<and> q < 8 * a + 8 * n \<and> bit (pci_mask a) (q - 8 * a) then bit new (q - 8 * a) else cfg_bit (virtDev s) q)"
proof (cases "8 * a \<le> q \<and> q < 8 * a + 8 * n")
  case True
  then obtain i where q: "q = 8 * a + i" and i: "i < 8 * n" by (metis add_less_cancel_left le_Suc_ex)
  with n have "i < 32" by simp
  then show ?thesis using i n
    by (auto simp: q pciev_pci_write_def Let_def store_bytes_def cfg_bit_put load_bit bit_simps)
next
  case False
  with q have "q \<noteq> 51 \<or> a \<noteq> PCI_COMMAND" by auto
  with False show ?thesis
    by (auto simp: pciev_pci_write_def Let_def store_bytes_def cfg_bit_put effect_bit)
qed

lemma write_keeps_bit:
  assumes al: "aligned_access a n" and q: "\<not> writable q"
  shows "cfg_bit (virtDev (snd (pciev_pci_write s devfn a n new))) q = cfg_bit (virtDev s) q"
proof -
  from al have n: "n \<le> 4" by (auto simp: aligned_access_def)
  from q have q51: "q \<noteq> 51" by (auto simp: writable_def)
  have "\<not> (8 * a \<le> q \<and> q < 8 * a + 8 * n \<and> bit (pci_mask a) (q - 8 * a))"
    using mask_writable [OF al, of "q - 8 * a"] q by force
  then show ?thesis using write_bit [OF n, of q a s devfn new] q51 by presburger
qed

section \<open>What the settings write\<close>

text \<open>The places of all members, by the ABI's rules.\<close>

lemma pci_header_layout: "struct_layout 0 pci_header =
     [((''id'', ''vid''), 0, 16), ((''id'', ''did''), 16, 16), ((''cmd'', ''iose''), 32, 1),
      ((''cmd'', ''mse''), 33, 1), ((''cmd'', ''bme''), 34, 1), ((''cmd'', ''sce''), 35, 1),
      ((''cmd'', ''mwie''), 36, 1), ((''cmd'', ''vga''), 37, 1), ((''cmd'', ''pee''), 38, 1),
      ((''cmd'', ''fixed''), 39, 1), ((''cmd'', ''see''), 40, 1), ((''cmd'', ''fbe''), 41, 1),
      ((''cmd'', ''id''), 42, 1), ((''cmd'', ''rsvd''), 43, 5), ((''sts'', ''rsvd1''), 48, 3),
      ((''sts'', ''is''), 51, 1), ((''sts'', ''cl''), 52, 1), ((''sts'', ''c66''), 53, 1),
      ((''sts'', ''rsvd2''), 54, 1), ((''sts'', ''fbc''), 55, 1), ((''sts'', ''dpd''), 56, 1),
      ((''sts'', ''devt''), 57, 2), ((''sts'', ''sta''), 59, 1), ((''sts'', ''rta''), 60, 1),
      ((''sts'', ''rma''), 61, 1), ((''sts'', ''sse''), 62, 1), ((''sts'', ''dpe''), 63, 1),
      (('''', ''rid''), 64, 8), ((''cc'', ''pi''), 72, 8), ((''cc'', ''scc''), 80, 8),
      ((''cc'', ''bcc''), 88, 8), (('''', ''cls''), 96, 8), (('''', ''mlt''), 104, 8),
      ((''htype'', ''hl''), 112, 7), ((''htype'', ''mfd''), 119, 1), ((''bist'', ''cc''), 120, 4),
      ((''bist'', ''rsvd''), 124, 2), ((''bist'', ''sb''), 126, 1), ((''bist'', ''bc''), 127, 1),
      ((''mlbar'', ''rte''), 128, 1), ((''mlbar'', ''tp''), 129, 2), ((''mlbar'', ''pf''), 131, 1),
      ((''mlbar'', ''rsvd''), 132, 10), ((''mlbar'', ''ba''), 142, 18), (('''', ''mulbar''), 160, 32),
      (('''', ''idbar''), 192, 32), (('''', ''bar3''), 224, 32), (('''', ''bar4''), 256, 32),
      (('''', ''bar5''), 288, 32), (('''', ''ccptr''), 320, 32), ((''ss'', ''ssvid''), 352, 16),
      ((''ss'', ''ssid''), 368, 16), (('''', ''erom''), 384, 32), (('''', ''cap''), 416, 8),
      (('''', ''rsvd''), 424, 56), ((''intr'', ''iline''), 480, 8), ((''intr'', ''ipin''), 488, 8),
      (('''', ''mgnt''), 496, 8), (('''', ''mlat''), 504, 8)]"
  by (simp add: pci_header_def fields_align_def round_up_def)

lemma pci_pm_cap_layout: "struct_layout 0 pci_pm_cap =
     [((''pid'', ''cid''), 0, 8), ((''pid'', ''next''), 8, 8), ((''pc'', ''vs''), 16, 3),
      ((''pc'', ''pmec''), 19, 1), ((''pc'', ''resv''), 20, 1), ((''pc'', ''dsi''), 21, 1),
      ((''pc'', ''auxc''), 22, 3), ((''pc'', ''d1s''), 25, 1), ((''pc'', ''d2s''), 26, 1),
      ((''pc'', ''psup''), 27, 5), ((''pmcs'', ''ps''), 32, 2), ((''pmcs'', ''rsvd01''), 34, 1),
      ((''pmcs'', ''nsfrst''), 35, 1), ((''pmcs'', ''rsvd02''), 36, 4), ((''pmcs'', ''pmee''), 40, 1),
      ((''pmcs'', ''dse''), 41, 4), ((''pmcs'', ''dsc''), 45, 2), ((''pmcs'', ''pmes''), 47, 1),
      (('''', ''ext''), 48, 16)]"
  by (simp add: pci_pm_cap_def fields_align_def round_up_def)

lemma pci_msix_cap_layout: "struct_layout 0 pci_msix_cap =
     [((''mxid'', ''cid''), 0, 8), ((''mxid'', ''next''), 8, 8), ((''mxc'', ''ts''), 16, 11),
      ((''mxc'', ''rsvd''), 27, 3), ((''mxc'', ''fm''), 30, 1), ((''mxc'', ''mxe''), 31, 1),
      ((''mtab'', ''tbir''), 32, 3), ((''mtab'', ''to''), 35, 29), ((''mpba'', ''pbir''), 64, 3),
      ((''mpba'', ''pbao''), 67, 29)]"
  by (simp add: pci_msix_cap_def fields_align_def round_up_def)

lemma pcie_cap_layout: "struct_layout 0 pcie_cap =
     [((''pxid'', ''cid''), 0, 8), ((''pxid'', ''next''), 8, 8), ((''pxcap'', ''ver''), 16, 4),
      ((''pxcap'', ''dpt''), 20, 4), ((''pxcap'', ''si''), 24, 1), ((''pxcap'', ''imn''), 25, 5),
      ((''pxcap'', ''rsvd''), 30, 2), ((''pxdcap'', ''mps''), 32, 3), ((''pxdcap'', ''pfs''), 35, 2),
      ((''pxdcap'', ''etfs''), 37, 1), ((''pxdcap'', ''l0sl''), 38, 3), ((''pxdcap'', ''l1l''), 41, 3),
      ((''pxdcap'', ''rsvd''), 44, 3), ((''pxdcap'', ''rer''), 47, 1), ((''pxdcap'', ''rsvd2''), 48, 2),
      ((''pxdcap'', ''csplv''), 50, 8), ((''pxdcap'', ''cspls''), 58, 2), ((''pxdcap'', ''flrc''), 60, 1),
      ((''pxdcap'', ''rsvd3''), 61, 3), ((''pxdc'', ''cere''), 64, 1), ((''pxdc'', ''nfere''), 65, 1),
      ((''pxdc'', ''fere''), 66, 2), ((''pxdc'', ''urre''), 68, 1), ((''pxdc'', ''ero''), 69, 1),
      ((''pxdc'', ''mps''), 70, 3), ((''pxdc'', ''ete''), 73, 1), ((''pxdc'', ''pfe''), 74, 1),
      ((''pxdc'', ''appme''), 75, 1), ((''pxdc'', ''ens''), 76, 1), ((''pxdc'', ''mrrs''), 77, 3),
      ((''pxdc'', ''iflr''), 80, 1), ((''pxds'', ''ced''), 96, 1), ((''pxds'', ''nfed''), 97, 1),
      ((''pxds'', ''fed''), 98, 1), ((''pxds'', ''urd''), 99, 1), ((''pxds'', ''apd''), 100, 1),
      ((''pxds'', ''tp''), 101, 1), ((''pxds'', ''rsvd''), 102, 10), ((''pxlcap'', ''sls''), 128, 4),
      ((''pxlcap'', ''mlw''), 132, 6), ((''pxlcap'', ''aspms''), 138, 2), ((''pxlcap'', ''l0sel''), 140, 3),
      ((''pxlcap'', ''l1el''), 143, 3), ((''pxlcap'', ''cpm''), 146, 1), ((''pxlcap'', ''sderc''), 147, 1),
      ((''pxlcap'', ''dllla''), 160, 20), ((''pxlcap'', ''lbnc''), 180, 1), ((''pxlcap'', ''aoc''), 181, 1),
      ((''pxlcap'', ''rsvd''), 182, 1), ((''pxlcap'', ''pn''), 183, 8), ((''pxlc'', ''aspmc''), 192, 2),
      ((''pxlc'', ''rsvd''), 194, 1), ((''pxlc'', ''rcb''), 195, 1), ((''pxlc'', ''rsvd2''), 196, 2),
      ((''pxlc'', ''ccc''), 198, 1), ((''pxlc'', ''es''), 199, 1), ((''pxlc'', ''ecpm''), 200, 1),
      ((''pxlc'', ''hawd''), 201, 1), ((''pxlc'', ''rsvd3''), 202, 6), ((''pxls'', ''clc''), 208, 4),
      ((''pxls'', ''nlw''), 212, 6), ((''pxls'', ''rsvd''), 218, 2), ((''pxls'', ''scc''), 220, 1),
      ((''pxls'', ''rsvd2''), 221, 3), ((''pxdcap2'', ''ctrs''), 224, 4), ((''pxdcap2'', ''ctds''), 228, 1),
      ((''pxdcap2'', ''arifs''), 229, 1), ((''pxdcap2'', ''aors''), 230, 1), ((''pxdcap2'', ''aocs32''), 231, 1),
      ((''pxdcap2'', ''aocs''), 232, 1), ((''pxdcap2'', ''ccs128''), 233, 1), ((''pxdcap2'', ''nprpr''), 234, 1),
      ((''pxdcap2'', ''ltrs''), 235, 1), ((''pxdcap2'', ''tphcs''), 236, 2), ((''pxdcap2'', ''rsvd''), 238, 4),
      ((''pxdcap2'', ''obffs''), 242, 2), ((''pxdcap2'', ''effs''), 244, 1), ((''pxdcap2'', ''eetps''), 245, 1),
      ((''pxdcap2'', ''meetp''), 246, 2), ((''pxdcap2'', ''rsvd2''), 248, 8), ((''pxdc2'', ''ctv''), 256, 4),
      ((''pxdc2'', ''ctd''), 260, 1), ((''pxdc2'', ''rsvd''), 261, 5), ((''pxdc2'', ''ltrme''), 266, 1),
      ((''pxdc2'', ''rsvd2''), 267, 2), ((''pxdc2'', ''obffe''), 269, 2), ((''pxdc2'', ''rsvd3''), 271, 17)]"
  by (simp add: pcie_cap_def fields_align_def round_up_def)

lemma pci_ext_cap_layout: "struct_layout 0 pci_ext_cap =
     [(('''', ''cid''), 0, 16), (('''', ''cver''), 16, 4), (('''', ''next''), 20, 12)]"
  by (simp add: pci_ext_cap_def fields_align_def round_up_def)

lemmas struct_layouts = pci_header_layout pci_pm_cap_layout pci_msix_cap_layout pcie_cap_layout pci_ext_cap_layout

text \<open>The settings as assignments to places; no two of them meet.\<close>

definition header_assignments :: "u64 \<Rightarrow> assignment list" where
  "header_assignments base_pa =
     [((16, 16), 0x0110), ((0, 16), 0x0c51), ((33, 1), 1), ((52, 1), 1), ((119, 1), 0), ((112, 7), 0),
      ((64, 8), 1), ((88, 8), 0), ((80, 8), 0), ((72, 8), 0), ((129, 2), 2),
      ((142, 18), unat (drop_bit 14 (base_pa AND 0xFFFFFFFF))), ((160, 32), unat (drop_bit 32 base_pa)),
      ((368, 16), 0x370d), ((352, 16), 0x0c51), ((384, 32), 0), ((416, 8), 0x40), ((488, 8), 0), ((480, 8), 15)]"

definition capability_assignments :: "assignment list" where
  "capability_assignments =
     [((512, 8), 1), ((520, 8), 0x50), ((528, 3), 3), ((544, 2), 0),
      ((640, 8), 0x11), ((648, 8), 0x60), ((656, 11), 127), ((671, 1), 1), ((672, 3), 0),
      ((675, 29), 0x400), ((704, 3), 0), ((707, 29), 0x1000),
      ((768, 8), 0x10), ((776, 8), 0), ((784, 4), 2), ((793, 5), 0), ((788, 4), 0), ((800, 3), 1),
      ((803, 2), 0), ((805, 1), 1), ((806, 3), 6), ((809, 3), 2), ((815, 1), 1), ((818, 8), 0),
      ((826, 2), 0), ((828, 1), 1)]"

definition ext_assignments :: "assignment list" where
  "ext_assignments =
     [((2048, 16), 1), ((2064, 4), 1), ((2068, 12), 0x150),
      ((2688, 16), 2), ((2704, 4), 1), ((2708, 12), 0x180),
      ((3072, 16), 4), ((3088, 4), 1), ((3092, 12), 0x190),
      ((3200, 16), 14), ((3216, 4), 1), ((3220, 12), 0x270),
      ((4992, 16), 3), ((5008, 4), 1), ((5012, 12), 0x2a0),
      ((5376, 16), 25), ((5392, 4), 1), ((5396, 12), 0)]"

definition settings_assignments :: "u64 \<Rightarrow> assignment list" where
  "settings_assignments base_pa = header_assignments base_pa @ capability_assignments @ ext_assignments"

lemma header_settings: "PCI_HEADER_SETTINGS base_pa OFFS_PCI_HDR m = bm.assign (header_assignments base_pa) m"
  by (simp add: PCI_HEADER_SETTINGS_def set_members_assign header_assignments_def member_place_def struct_layouts pci_const)

lemma capability_settings:
  "PCI_PCIECAP_SETTINGS OFFS_PCIE_CAP (PCI_MSIXCAP_SETTINGS OFFS_PCI_MSIX_CAP
     (PCI_PMCAP_SETTINGS OFFS_PCI_PM_CAP m)) = bm.assign capability_assignments m"
  by (simp add: PCI_PMCAP_SETTINGS_def PCI_MSIXCAP_SETTINGS_def PCI_PCIECAP_SETTINGS_def set_members_assign
      capability_assignments_def member_place_def struct_layouts pci_const)

lemma ext_settings: "PCI_EXTCAP_SETTINGS OFFS_PCI_EXT_CAP m = bm.assign ext_assignments m"
  by (simp add: PCI_EXTCAP_SETTINGS_def ext_caps_def set_members_assign ext_assignments_def member_place_def
      struct_layouts pci_const)

lemma pci_settings_assign: "pci_settings base_pa m = bm.assign (settings_assignments base_pa) m"
  by (simp add: pci_settings_def header_settings capability_settings ext_settings settings_assignments_def
      bm.assign_append)

lemma settings_apart: "sorted_wrt apart_places (map fst (settings_assignments base_pa))"
  by (simp add: settings_assignments_def header_assignments_def capability_assignments_def ext_assignments_def apart_def)

lemma setting_get:
  "((p, w), v) \<in> set (settings_assignments base_pa) \<Longrightarrow> get_bits p w (pci_settings base_pa m) = take_bit w v"
  by (simp only: pci_settings_assign bm.get_assign [OF settings_apart])

lemma setting_zero:
  assumes "\<forall>q \<in> set (map fst (settings_assignments base_pa)). apart_places (p, w) q"
  shows "get_bits p w (pci_settings base_pa m) = get_bits p w m"
  using assms by (simp only: pci_settings_assign bm.get_assign_apart)

lemma get_bits_zero: "get_bits p w (\<lambda>a. 0) = 0"
  by (rule bit_eqI) (simp add: praid_bits)

lemma get_bits_cong: "(\<And>i. i < w \<Longrightarrow> cfg_bit m (p + i) = cfg_bit m' (p + i)) \<Longrightarrow> get_bits p w m = get_bits p w m'"
  by (rule bit_eqI) (auto simp: cfg_bit_get)

lemma cfg_ext: "(\<And>q. cfg_bit m q = cfg_bit m' q) \<Longrightarrow> m = m'"
proof (rule ext, rule bit_word_eqI)
  fix a n assume eq: "\<And>q. cfg_bit m q = cfg_bit m' q" and n: "n < LENGTH(8)"
  then show "bit (m a) n = bit (m' a) n"
    using eq [of "8 * a + n"] by (simp add: cfg_bit_def)
qed

subsection \<open>Sequences of writes\<close>

type_synonym cfg_access = "nat \<times> nat \<times> nat \<times> u32"

fun pci_write_all :: "cfg_access list \<Rightarrow> pci_vdev \<Rightarrow> pci_vdev" where
  "pci_write_all [] s = s"
| "pci_write_all ((devfn, a, n, new) # ws) s = pci_write_all ws (snd (pciev_pci_write s devfn a n new))"

fun access_ok :: "cfg_access \<Rightarrow> bool" where
  "access_ok (devfn, a, n, new) = (aligned_access a n \<and> unat new < 2 ^ (8 * n))"

lemma write_all_keeps_bit:
  assumes "\<forall>w \<in> set ws. access_ok w" and q: "\<not> writable q"
  shows "cfg_bit (virtDev (pci_write_all ws s)) q = cfg_bit (virtDev s) q"
  using assms(1)
proof (induction ws arbitrary: s)
  case (Cons w ws)
  obtain devfn a n new where "w = (devfn, a, n, new)" by (metis prod.collapse)
  with Cons show ?case by (simp add: write_keeps_bit [OF _ q])
qed simp

lemma write_all_keeps:
  assumes "\<forall>w \<in> set ws. access_ok w" and "\<forall>i < w. \<not> writable (p + i)"
  shows "get_bits p w (virtDev (pci_write_all ws s)) = get_bits p w (virtDev s)"
  using assms by (intro get_bits_cong) (simp add: write_all_keeps_bit)

text \<open>The flags kept outside the configuration space.\<close>

definition flags_in_sync :: "pci_vdev \<Rightarrow> bool" where
  "flags_in_sync s \<longleftrightarrow> intx_disabled s = cfg_bit (virtDev s) 42 \<and>
     (\<forall>e. pdev_msix_enabled s = Some e \<longrightarrow> e = cfg_bit (virtDev s) 671)"

lemma and_bit_u32: "(w :: u32) AND 0x400 \<noteq> 0 \<longleftrightarrow> bit w 10" "(w :: u32) AND 0x8000 \<noteq> 0 \<longleftrightarrow> bit w 15"
  by (simp_all add: bit_iff_and_push_bit_not_eq_0)

lemma bit_beyond: "unat (new :: u32) < 2 ^ k \<Longrightarrow> k \<le> i \<Longrightarrow> \<not> bit new i"
proof -
  assume "unat new < 2 ^ k" and "k \<le> i"
  have "unat (take_bit k new) = unat new mod 2 ^ k"
    unfolding unsigned_take_bit_eq by (rule take_bit_eq_mod)
  also have "\<dots> = unat new" using \<open>unat new < 2 ^ k\<close> by (rule mod_less)
  finally have "take_bit k new = new" by (simp only: word_unat_eq_iff)
  with \<open>k \<le> i\<close> show "\<not> bit new i" by (metis bit_take_bit_iff not_less)
qed

lemma write_flags:
  "intx_disabled (snd (pciev_pci_write s devfn a n new)) =
     (if a = 4 \<and> bit (load_bytes (virtDev s) a n 0) 10 \<noteq> bit new 10 then bit new 10 else intx_disabled s)"
  "pdev_msix_enabled (snd (pciev_pci_write s devfn a n new)) =
     (if a = 82 \<and> bit (load_bytes (virtDev s) a n 0) 15 \<noteq> bit new 15
      then map_option (\<lambda>e. bit new 15) (pdev_msix_enabled s) else pdev_msix_enabled s)"
   by (auto simp: pciev_pci_write_def pci_write_effect_def Let_def pci_const and_bit_u32 bit_simps)

lemma aligned_at_command: "aligned_access a n \<Longrightarrow> 8 * a \<le> 42 \<Longrightarrow> 42 < 8 * a + 8 * n \<Longrightarrow> a = 4 \<and> n \<noteq> 1 \<or> a = 5"
  by (auto simp: aligned_access_def dvd_def)

lemma aligned_at_flags: "aligned_access a n \<Longrightarrow> 8 * a \<le> 671 \<Longrightarrow> 671 < 8 * a + 8 * n \<Longrightarrow> a = 82 \<and> n = 2 \<or> a = 83 \<or> a = 80"
  by (auto simp: aligned_access_def dvd_def)

lemma write_keeps_flags:
  assumes ok: "access_ok (devfn, a, n, new)" and sync: "flags_in_sync s"
  shows "flags_in_sync (snd (pciev_pci_write s devfn a n new))"
proof -
  from ok have al: "aligned_access a n" and new: "unat new < 2 ^ (8 * n)" by simp_all
  then have n: "n \<le> 4" "n = 1 \<or> n = 2 \<or> n = 4" by (auto simp: aligned_access_def)
  have beyond: "8 * n \<le> i \<Longrightarrow> \<not> bit new i" for i by (rule bit_beyond [OF new])
  have m: "bit (pci_mask 4) 10" "pci_mask 5 = 0" "bit (pci_mask 82) 15" "pci_mask 83 = 0" "pci_mask 80 = 0"
    by (simp_all add: pci_mask_def pci_const)
  note wb = write_bit [OF n(1), of _ a s devfn new]
  have "intx_disabled (snd (pciev_pci_write s devfn a n new)) = cfg_bit (virtDev (snd (pciev_pci_write s devfn a n new))) 42"
  proof (cases "8 * a \<le> 42 \<and> 42 < 8 * a + 8 * n")
    case True
    with aligned_at_command [OF al] have "a = 4 \<and> n \<noteq> 1 \<or> a = 5" by blast
    then show ?thesis using sync n m wb [of 42]
      by (auto simp: write_flags flags_in_sync_def load_bit)
  next
    case False
    then show ?thesis using sync n beyond [of 10] wb [of 42]
      by (auto simp: write_flags flags_in_sync_def load_bit)
  qed
  moreover have "e = cfg_bit (virtDev (snd (pciev_pci_write s devfn a n new))) 671"
    if "pdev_msix_enabled (snd (pciev_pci_write s devfn a n new)) = Some e" for e
  proof (cases "8 * a \<le> 671 \<and> 671 < 8 * a + 8 * n")
    case True
    with aligned_at_flags [OF al] have "a = 82 \<and> n = 2 \<or> a = 83 \<or> a = 80" by blast
    then show ?thesis using that sync n m wb [of 671]
      by (auto simp: write_flags flags_in_sync_def load_bit split: if_splits)
  next
    case False
    then show ?thesis using that sync n beyond [of 15] wb [of 671]
      by (auto simp: write_flags flags_in_sync_def load_bit split: if_splits)
  qed
  ultimately show ?thesis by (simp add: flags_in_sync_def)
qed

lemma write_all_keeps_flags:
  "\<forall>w \<in> set ws. access_ok w \<Longrightarrow> flags_in_sync s \<Longrightarrow> flags_in_sync (pci_write_all ws s)"
proof (induction ws arbitrary: s)
  case (Cons w ws)
  obtain devfn a n new where w: "w = (devfn, a, n, new)" by (metis prod.collapse)
  show ?case unfolding w pci_write_all.simps
    by (rule Cons.IH) (use Cons.prems w in \<open>simp_all add: write_keeps_flags del: access_ok.simps\<close>)
qed simp
section \<open>Properties\<close>

lemma setting_value:
  assumes "(p, w) \<in> fst ` set (settings_assignments b)"
  shows "get_bits p w (pci_settings b m) = take_bit w (the (map_of (settings_assignments b) (p, w)))"
proof -
  from assms obtain v where "map_of (settings_assignments b) (p, w) = Some v"
    by (metis map_of_eq_None_iff not_None_eq)
  then show ?thesis by (simp add: setting_get map_of_SomeD)
qed

lemmas settings_eval = setting_value settings_assignments_def header_assignments_def
  capability_assignments_def ext_assignments_def

lemma settings_identity:
  "get_bits 0 16 (pci_settings b m) = 0x0c51" "get_bits 16 16 (pci_settings b m) = 0x0110"
  "get_bits 112 7 (pci_settings b m) = 0" "get_bits 416 8 (pci_settings b m) = 0x40"
  "get_bits 640 8 (pci_settings b m) = 0x11" "get_bits 648 8 (pci_settings b m) = 0x60"
  "get_bits 656 11 (pci_settings b m) = 127"
  "get_bits 672 3 (pci_settings b m) = 0" "get_bits 675 29 (pci_settings b m) = 0x400"
  by (simp_all add: settings_eval)

lemma settings_bar_high: "get_bits 160 32 (pci_settings b m) = unat (drop_bit 32 b)"
proof -
  have "unat (drop_bit 32 b) < 2 ^ 32"
    using unat_less [of b] by (simp add: unat_drop_bit_div)
  then show ?thesis
    by (simp add: settings_eval take_bit_nat_eq_self)
qed

definition device_identity :: "u64 \<Rightarrow> bytes \<Rightarrow> bool" where
  "device_identity base_pa m \<longleftrightarrow>
     get_member pci_header OFFS_PCI_HDR (''id'', ''vid'') m = Some PCIEV_VENDOR_ID \<and>
     get_member pci_header OFFS_PCI_HDR (''id'', ''did'') m = Some PCIEV_DEVICE_ID \<and>
     get_member pci_header OFFS_PCI_HDR (''htype'', ''hl'') m = Some 0 \<and>
     get_member pci_header OFFS_PCI_HDR ('''', ''mulbar'') m = Some (unat (drop_bit 32 base_pa)) \<and>
     get_member pci_header OFFS_PCI_HDR ('''', ''cap'') m = Some OFFS_PCI_PM_CAP \<and>
     get_member pci_msix_cap OFFS_PCI_MSIX_CAP (''mxid'', ''cid'') m = Some 0x11 \<and>
     get_member pci_msix_cap OFFS_PCI_MSIX_CAP (''mxid'', ''next'') m = Some OFFS_PCIE_CAP \<and>
     get_member pci_msix_cap OFFS_PCI_MSIX_CAP (''mxc'', ''ts'') m = Some 127 \<and>
     get_member pci_msix_cap OFFS_PCI_MSIX_CAP (''mtab'', ''to'') m = Some 0x400"

text \<open>
  C21: What identifies the device does not depend on what the host writes. After any sequence
  of aligned writes to the configuration space, vendor and device identifier, header type,
  the upper half of the base address, the pointer to the capabilities, and the identifier,
  link, table size and table offset of the MSI-X capability read as the settings left them.
\<close>

theorem config_identity_kept:
  assumes "\<forall>w \<in> set ws. access_ok w"
  shows "device_identity base_pa (virtDev (pci_write_all ws (pci_vdev_start base_pa)))"
  by (simp add: device_identity_def get_member_def member_place_def struct_layouts pci_const
      write_all_keeps [OF assms] writable_def settings_identity settings_bar_high pci_vdev_start_def)

lemma config_identity_kept_witness:
  "device_identity 0x100000000 (virtDev (pci_write_all [(0, 4, 4, 0xFFFFFFFF), (0, 0x40, 2, 0)] (pci_vdev_start 0x100000000)))"
  by (rule config_identity_kept) (simp add: aligned_access_def)

lemma start_bits: "\<not> cfg_bit (pci_settings b (\<lambda>a. 0)) 42"
proof -
  have "get_bits 34 18 (pci_settings b (\<lambda>a. 0)) = 0"
    by (subst setting_zero, simp_all add: settings_assignments_def header_assignments_def
      capability_assignments_def ext_assignments_def apart_def get_bits_zero)
  then show ?thesis using cfg_bit_get [of 34 18 "pci_settings b (\<lambda>a. 0)" 8] by simp
qed

text \<open>
  C22: The two flags the module keeps outside the configuration space stay what the registers
  say: \<open>intx_disabled\<close> is the interrupt-disable bit of the command register and the
  \<open>msix_enabled\<close> of the \<open>pci_dev\<close> is the enable bit of the MSI-X flags, after any sequence of
  aligned writes.
\<close>

theorem config_flags_mirror:
  assumes "\<forall>w \<in> set ws. access_ok w" and "flags_in_sync s"
  shows "flags_in_sync (pci_write_all ws s)"
  using assms by (rule write_all_keeps_flags)

lemma config_flags_mirror_witness:
  "flags_in_sync (pci_write_all [(0, 4, 2, 0x400), (0, 0x52, 2, 0)] (pci_vdev_start 0))"
  by (rule config_flags_mirror)
     (simp_all add: aligned_access_def flags_in_sync_def pci_vdev_start_def start_bits)

text \<open>
  C23: A configuration write changes exactly the bits of the register's mask: reading the same
  bytes back gives the old value outside the mask and the written value inside it.
\<close>

theorem pci_write_read_back:
  assumes "n \<le> 4"
  shows "pciev_pci_read (snd (pciev_pci_write s devfn a n new)) 0 a n 0 =
     (0, ((load_bytes (virtDev s) a n 0 AND NOT (pci_mask a)) OR (new AND pci_mask a)) AND mask (8 * n))"
proof -
  have "load_bytes (virtDev (snd (pciev_pci_write s devfn a n new))) a n 0 =
      ((load_bytes (virtDev s) a n 0 AND NOT (pci_mask a)) OR (new AND pci_mask a)) AND mask (8 * n)"
    using assms by (intro bit_word_eqI) (auto simp: load_bit write_bit bit_simps cong: if_cong split: if_splits)
  then show ?thesis by (simp add: pciev_pci_read_def)
qed

lemma pci_write_read_back_witness:
  "pciev_pci_read (snd (pciev_pci_write (pci_vdev_start 0) 0 0x3c 1 7)) 0 0x3c 1 0 =
     (0, ((load_bytes (virtDev (pci_vdev_start 0)) 0x3c 1 0 AND NOT (pci_mask 0x3c)) OR (7 AND pci_mask 0x3c)) AND mask (8 * 1))"
  by (rule pci_write_read_back) simp

text \<open>The lists as the PCI core walks them, with a bound on their length.\<close>

fun cap_chain :: "nat \<Rightarrow> bytes \<Rightarrow> nat \<Rightarrow> (nat \<times> nat) list option" where
  "cap_chain 0 m p = None"
| "cap_chain (Suc n) m p = (if p = 0 then Some []
     else map_option (Cons (p, get_bits (8 * p) 8 m)) (cap_chain n m (get_bits (8 * p + 8) 8 m)))"

fun ext_chain :: "nat \<Rightarrow> bytes \<Rightarrow> nat \<Rightarrow> (nat \<times> nat) list option" where
  "ext_chain 0 m p = None"
| "ext_chain (Suc n) m p = (if p = 0 then Some []
     else map_option (Cons (p, get_bits (8 * p) 16 m)) (ext_chain n m (get_bits (8 * p + 20) 12 m)))"

lemma chain_numeral:
  "cap_chain (numeral k) m p = (if p = 0 then Some []
     else map_option (Cons (p, get_bits (8 * p) 8 m)) (cap_chain (pred_numeral k) m (get_bits (8 * p + 8) 8 m)))"
  "ext_chain (numeral k) m p = (if p = 0 then Some []
     else map_option (Cons (p, get_bits (8 * p) 16 m)) (ext_chain (pred_numeral k) m (get_bits (8 * p + 20) 12 m)))"
  by (simp_all add: numeral_eq_Suc)

lemma settings_capabilities:
  "get_bits 52 (Suc 0) (pci_settings b m) = Suc 0"
  "get_bits 512 8 (pci_settings b m) = 1" "get_bits 520 8 (pci_settings b m) = 0x50"
  "get_bits 768 8 (pci_settings b m) = 0x10" "get_bits 776 8 (pci_settings b m) = 0"
  by (simp_all add: settings_eval)

lemma settings_ext:
  "get_bits 2048 16 (pci_settings b m) = 1" "get_bits 2068 12 (pci_settings b m) = 0x150"
  "get_bits 2688 16 (pci_settings b m) = 2" "get_bits 2708 12 (pci_settings b m) = 0x180"
  "get_bits 3072 16 (pci_settings b m) = 4" "get_bits 3092 12 (pci_settings b m) = 0x190"
  "get_bits 3200 16 (pci_settings b m) = 14" "get_bits 3220 12 (pci_settings b m) = 0x270"
  "get_bits 4992 16 (pci_settings b m) = 3" "get_bits 5012 12 (pci_settings b m) = 0x2a0"
  "get_bits 5376 16 (pci_settings b m) = 25" "get_bits 5396 12 (pci_settings b m) = 0"
  by (simp_all add: settings_eval)

text \<open>
  C33: The capability lists the settings build are well formed: the status register announces
  them, the list from the pointer in the header has power management, MSI-X and PCI Express
  in this order and ends, and so does the list of the six extended capabilities.
\<close>

theorem capability_lists:
  "get_member pci_header OFFS_PCI_HDR (''sts'', ''cl'') (pci_settings base_pa m) = Some 1 \<and>
   cap_chain 4 (pci_settings base_pa m) (get_bits (8 * 0x34) 8 (pci_settings base_pa m)) =
     Some [(OFFS_PCI_PM_CAP, 0x01), (OFFS_PCI_MSIX_CAP, 0x11), (OFFS_PCIE_CAP, 0x10)] \<and>
   ext_chain 7 (pci_settings base_pa m) OFFS_PCI_EXT_CAP =
     Some [(0x100, 0x01), (0x150, 0x02), (0x180, 0x04), (0x190, 0x0e), (0x270, 0x03), (0x2a0, 0x19)]"
  by (simp add: get_member_def member_place_def struct_layouts pci_const chain_numeral
      settings_identity settings_capabilities settings_ext)

subsection \<open>The base address\<close>

definition bar_base :: "bytes \<Rightarrow> u64" where
  "bar_base m = push_bit 32 (word_of_nat (get_bits 160 32 m)) OR (word_of_nat (get_bits 128 32 m) AND NOT 0xF)"

lemma get_bits_cfg: "cfg_bit m (p + i) = bit (get_bits p w m) i" if "i < w"
  using that by (simp add: cfg_bit_get)

lemma bit_low_nibble: "bit (0xF :: u64) i \<longleftrightarrow> i < 4"
  using bit_mask_iff [of 4 i, where 'a = "64 word"] by (auto simp: mask_eq_exp_minus_1)

lemma bit_bar_base: "bit (bar_base m) i \<longleftrightarrow> 4 \<le> i \<and> i < 64 \<and> cfg_bit m (128 + i)"
  by (auto simp: bar_base_def bit_simps cfg_bit_get bit_low_nibble simp del: bit_numeral_word_iff)

lemma settings_bar_low:
  "get_bits 142 18 (pci_settings b m) = unat (drop_bit 14 (b AND 0xFFFFFFFF))"
  "get_bits 129 2 (pci_settings b m) = 2"
proof -
  have "b AND 0xFFFFFFFF = b AND mask 32" by (simp add: mask_eq_exp_minus_1)
  then have "unat (drop_bit 14 (b AND 0xFFFFFFFF)) = unat b mod 2 ^ 32 div 2 ^ 14"
    by (simp only: unat_drop_bit_div unat_and_mask)
  also have "\<dots> < 2 ^ 18" by (rule div_less_iff_less_mult [THEN iffD2]) simp_all
  finally show "get_bits 142 18 (pci_settings b m) = unat (drop_bit 14 (b AND 0xFFFFFFFF))"
    by (simp add: settings_eval take_bit_nat_eq_self)
qed (simp add: settings_eval)

lemma settings_bar_zero:
  "get_bits 128 1 (pci_settings b (\<lambda>a. 0)) = 0" "get_bits 131 11 (pci_settings b (\<lambda>a. 0)) = 0"
  by (subst setting_zero, simp_all add: settings_assignments_def header_assignments_def
      capability_assignments_def ext_assignments_def apart_def get_bits_zero)+

lemma settings_bar_bit:
  assumes "n < 64"
  shows "cfg_bit (pci_settings b (\<lambda>a. 0)) (128 + n) \<longleftrightarrow> n = 2 \<or> 14 \<le> n \<and> bit b n"
proof -
  let ?m = "pci_settings b (\<lambda>a. 0)"
  have bits: "cfg_bit ?m (p + i) = bit (get_bits p w ?m) i" if "i < w" for p i w
    using that by (simp add: cfg_bit_get)
  consider "n = 0" | "n = 1" | "n = 2" | "3 \<le> n" "n < 14" | "14 \<le> n" "n < 32" | "32 \<le> n"
    by linarith
  then show ?thesis
  proof cases
    case 1 then show ?thesis using bits [of 0 1 128] settings_bar_zero [of b] by simp
  next
    case 2 then show ?thesis using bits [of 0 2 129] settings_bar_low [of b] by simp
  next
    case 3 then show ?thesis using bits [of 1 2 129] settings_bar_low [of b] by (simp add: bit_0)
  next
    case 4 then show ?thesis using bits [of "n - 3" 11 131] settings_bar_zero [of b] by simp
  next
    case 5
    have "drop_bit 14 (b AND 0xFFFFFFFF) = drop_bit 14 (b AND mask 32)" by (simp add: mask_eq_exp_minus_1)
    then have "get_bits 142 18 ?m = unat (drop_bit 14 (b AND mask 32))" by (simp only: settings_bar_low)
    with 5 show ?thesis using bits [of "n - 14" 18 142]
      by (simp only: bit_simps bit_unsigned_iff) (auto simp: bit_simps)
  next
    case 6 then show ?thesis using assms bits [of "n - 32" 32 160] settings_bar_high [of b "\<lambda>a. 0"]
      by (simp add: bit_simps bit_unsigned_iff)
  qed
qed

lemma bar_base_settings: "bar_base (pci_settings b (\<lambda>a. 0)) = b AND NOT (mask 14)"
  by (rule bit_word_eqI) (auto simp: bit_bar_base settings_bar_bit bit_simps)

text \<open>
  The base address register holds only the upper 50 bits of the reserved memory's
  address: the PCI core sees the device at \<open>memmap_start\<close> if and only if that is a multiple of
  16 KiB. Nothing checks it.
\<close>

theorem bar_base_iff_aligned:
  "bar_base (virtDev (pci_vdev_start base_pa)) = base_pa \<longleftrightarrow> 2 ^ 14 dvd unat base_pa"
proof -
  have "base_pa AND NOT (mask 14) = base_pa \<longleftrightarrow> base_pa AND mask 14 = 0"
    by (auto simp: bit_eq_iff bit_simps)
  also have "\<dots> \<longleftrightarrow> unat (base_pa AND mask 14) = 0" by (simp only: unat_eq_zero)
  also have "\<dots> \<longleftrightarrow> 2 ^ 14 dvd unat base_pa" by (simp only: unat_and_mask dvd_eq_mod_eq_0)
  finally show ?thesis by (simp add: pci_vdev_start_def bar_base_settings)
qed

lemma bit_sized: "bit (0xFFFFC004 :: u32) i \<longleftrightarrow> i = 2 \<or> 14 \<le> i \<and> i < 32"
  by (rule bit_u32_iff) (auto simp: less_Suc_eq numeral_eq_Suc)

lemma bit_all_ones: "bit (0xFFFFFFFF :: u32) i \<longleftrightarrow> i < 32"
  using bit_mask_iff [of 32 i, where 'a = "32 word"] by (auto simp: mask_eq_exp_minus_1)

text \<open>
  C34: The PCI core's sizing protocol works on the base address register: after all ones are
  written it reads as a 64-bit memory region of 16 KiB, and writing the old value back
  restores the configuration space to the last bit.
\<close>

theorem bar_sizing:
  "snd (pciev_pci_read (snd (pciev_pci_write (pci_vdev_start b) 0 PCI_BASE_ADDRESS_0 4 0xFFFFFFFF)) 0 PCI_BASE_ADDRESS_0 4 0)
     = 0xFFFFC004 \<and>
   virtDev (snd (pciev_pci_write (snd (pciev_pci_write s 0 PCI_BASE_ADDRESS_0 4 x)) 0 PCI_BASE_ADDRESS_0 4
        (load_bytes (virtDev s) PCI_BASE_ADDRESS_0 4 0))) = virtDev s"
proof
  have mask: "pci_mask 16 = 0xFFFFC000" by (simp add: pci_mask_def pci_const)
  show "snd (pciev_pci_read (snd (pciev_pci_write (pci_vdev_start b) 0 PCI_BASE_ADDRESS_0 4 0xFFFFFFFF)) 0 PCI_BASE_ADDRESS_0 4 0)
     = 0xFFFFC004"
    by (rule bit_word_eqI)
       (auto simp: pciev_pci_read_def load_bit write_bit pci_const mask bit_mask_bar bit_sized bit_all_ones
          pci_vdev_start_def settings_bar_bit simp del: bit_numeral_word_iff)
  show "virtDev (snd (pciev_pci_write (snd (pciev_pci_write s 0 PCI_BASE_ADDRESS_0 4 x)) 0 PCI_BASE_ADDRESS_0 4
        (load_bytes (virtDev s) PCI_BASE_ADDRESS_0 4 0))) = virtDev s"
    by (rule cfg_ext) (auto simp: write_bit load_bit pci_const)
qed

lemma get_one_bit: "get_bits q (Suc 0) m = of_bool (cfg_bit m q)"
  by (simp add: get_bits_def cfg_bit_def)

lemma enable_clears_status:
  assumes "flags_in_sync s" and "intx_disabled s" and "\<not> bit new 10"
  shows "cfg_bit (virtDev (pci_write_effect PCI_COMMAND (load_bytes (virtDev s) PCI_COMMAND 2 0) new s)) 51 = False"
  using assms by (simp add: pci_write_effect_def pci_const and_bit_u32 bit_simps load_bit flags_in_sync_def
      set_member_def header_is_place cfg_bit_put)

text \<open>
  Enabling INTx with a 16-bit write to the command register clears the interrupt status.
  With a 32-bit write it does not: the status bit is cleared, and then overwritten with the
  value read before.
\<close>

theorem intx_enable_status:
  assumes "flags_in_sync s" and "intx_disabled s" and "\<not> bit new 10"
  shows "\<not> intx_disabled (snd (pciev_pci_write s devfn PCI_COMMAND 2 new)) \<and>
     get_member pci_header OFFS_PCI_HDR (''sts'', ''is'') (virtDev (snd (pciev_pci_write s devfn PCI_COMMAND 2 new))) = Some 0 \<and>
     get_member pci_header OFFS_PCI_HDR (''sts'', ''is'') (virtDev (snd (pciev_pci_write s devfn PCI_COMMAND 4 new)))
      = get_member pci_header OFFS_PCI_HDR (''sts'', ''is'') (virtDev s)"
proof (intro conjI)
  show "\<not> intx_disabled (snd (pciev_pci_write s devfn PCI_COMMAND 2 new))"
    using assms by (simp add: write_flags pci_const load_bit flags_in_sync_def)
  have "cfg_bit (virtDev (snd (pciev_pci_write s devfn PCI_COMMAND 2 new))) 51 = False"
    using enable_clears_status [OF assms]
    by (simp add: pciev_pci_write_def Let_def store_bytes_def cfg_bit_put pci_const)
  then show "get_member pci_header OFFS_PCI_HDR (''sts'', ''is'') (virtDev (snd (pciev_pci_write s devfn PCI_COMMAND 2 new))) = Some 0"
    by (simp add: get_member_def header_is_place get_one_bit pci_const)
  have "cfg_bit (virtDev (snd (pciev_pci_write s devfn PCI_COMMAND 4 new))) 51 = cfg_bit (virtDev s) 51"
    by (simp add: write_bit pci_mask_def pci_const bit_mask_command del: bit_numeral_word_iff)
  then show "get_member pci_header OFFS_PCI_HDR (''sts'', ''is'') (virtDev (snd (pciev_pci_write s devfn PCI_COMMAND 4 new)))
      = get_member pci_header OFFS_PCI_HDR (''sts'', ''is'') (virtDev s)"
    by (simp add: get_member_def header_is_place get_one_bit pci_const)
qed

lemma intx_enable_status_witness:
  "\<exists>s. \<not> intx_disabled (snd (pciev_pci_write s 0 PCI_COMMAND 2 0)) \<and>
     get_member pci_header OFFS_PCI_HDR (''sts'', ''is'') (virtDev (snd (pciev_pci_write s 0 PCI_COMMAND 2 0))) = Some 0 \<and>
     get_member pci_header OFFS_PCI_HDR (''sts'', ''is'') (virtDev (snd (pciev_pci_write s 0 PCI_COMMAND 4 0)))
      = get_member pci_header OFFS_PCI_HDR (''sts'', ''is'') (virtDev s)"
proof -
  let ?s = "\<lparr>virtDev = put_bits 42 1 1 (put_bits 51 1 1 (\<lambda>a. 0)), intx_disabled = True, pdev_msix_enabled = None\<rparr>"
  have "flags_in_sync ?s" by (simp add: flags_in_sync_def cfg_bit_put bit_0)
  then show ?thesis using intx_enable_status [of ?s 0 0] by (intro exI [of _ ?s]) simp
qed

text \<open>
  The structs fit the places given to them and the registers the write accessor tells
  apart are where it looks for them. In \<open>pcie_cap\<close> one bit too many in \<open>pxdc\<close> moves the
  device status to byte 12 and the link capabilities to byte 16, where the PCI Express
  specification has them at bytes 10 and 12.
\<close>

theorem config_struct_sizes:
  "sizeof pci_header = 64 \<and> sizeof pci_pm_cap = 8 \<and> sizeof pci_msix_cap = 12 \<and>
   sizeof pcie_cap = 36 \<and> sizeof pci_ext_cap = 4 \<and>
   member_place pci_header (''cmd'', ''iose'') = Some (8 * PCI_COMMAND, 1) \<and>
   member_place pci_header (''sts'', ''rsvd1'') = Some (8 * PCI_STATUS, 3) \<and>
   member_place pci_header (''bist'', ''cc'') = Some (8 * PCI_BIST, 4) \<and>
   member_place pci_header (''mlbar'', ''rte'') = Some (8 * PCI_BASE_ADDRESS_0, 1) \<and>
   member_place pci_header (''intr'', ''iline'') = Some (8 * PCI_INTERRUPT_LINE, 8) \<and>
   member_place pci_msix_cap (''mxc'', ''ts'') = Some (8 * PCI_MSIX_FLAGS, 11) \<and>
   member_place pcie_cap (''pxdc'', ''cere'') = Some (8 * 8, 1) \<and>
   member_place pcie_cap (''pxds'', ''ced'') = Some (8 * 12, 1) \<and>
   member_place pcie_cap (''pxlcap'', ''sls'') = Some (8 * 16, 4)"
  by (simp add: member_place_def struct_layouts pci_const)
    (simp add: pci_structs sizeof_def fields_align_def round_up_def)
end
