(* ===== verification/Praid_Params.thy ===== *)
theory Praid_Params
  imports Praid_Config Praid_Block "HOL-Library.Char_ord"
begin

text \<open>
  The parameters of the module (\<open>main.c\<close>, \<open>device.c\<close>): their validation, the parsing of the
  list of minor numbers, the configurations of array and device, and the sizes derived from
  them. The kernel is built for x86 (\<open>CONFIG_X86\<close>); elsewhere \<open>__validate_configs_arch\<close>
  refuses every configuration.
\<close>

section \<open>Parameters\<close>

record params =
  memmap_start :: u64
  memmap_size :: u64
  cpu :: u32
  major :: u32
  per_size :: u64
  minors :: "string option"

text \<open>The setter of the three sizes; \<open>memparse\<close> is the kernel's.\<close>

definition set_parse_mem_param :: "(string \<Rightarrow> u64) \<Rightarrow> string \<Rightarrow> int \<times> u64" where
  "set_parse_mem_param memparse val = (0, memparse val)"

section \<open>Validation\<close>

text \<open>
  The firmware's memory map, a parameter of the model: does any part of a range of physical
  addresses have a type.
\<close>

datatype e820_type = E820_TYPE_RAM | E820_TYPE_RESERVED | E820_TYPE_RESERVED_KERN

type_synonym e820_map = "u64 \<Rightarrow> u64 \<Rightarrow> e820_type \<Rightarrow> bool"

definition validate_configs_arch :: "e820_map \<Rightarrow> params \<Rightarrow> errno option" where
  "validate_configs_arch e820__mapped_any p =
     (let resv_start_bytes = memmap_start p;
          resv_end_bytes = resv_start_bytes + memmap_size p - 1
      in if e820__mapped_any resv_start_bytes resv_end_bytes E820_TYPE_RAM \<or>
            e820__mapped_any resv_start_bytes resv_end_bytes E820_TYPE_RESERVED_KERN
         then Some EPERM
         else if \<not> e820__mapped_any resv_start_bytes resv_end_bytes E820_TYPE_RESERVED
         then Some EPERM
         else None)"

definition validate_configs :: "e820_map \<Rightarrow> params \<Rightarrow> errno option" where
  "validate_configs e820 p =
     (if memmap_start p = 0 then Some EINVAL
      else if memmap_size p = 0 then Some EINVAL
      else if memmap_size p \<le> MB 1 then Some EINVAL
      else if cpu p = 0 then Some EINVAL
      else if validate_configs_arch e820 p \<noteq> None then Some EPERM
      else if major p = 0 then Some EINVAL
      else if per_size p < MB 512 then Some EINVAL
      else None)"

section \<open>The list of minor numbers\<close>

text \<open>\<open>strsep\<close> at commas, and \<open>simple_strtol\<close> in base ten, of the kernel's library.\<close>

fun strsep :: "string \<Rightarrow> string \<times> string option" where
  "strsep [] = ([], None)"
| "strsep (c # s) = (if c = CHR '','' then ([], Some s)
     else (case strsep s of (tok, rest) \<Rightarrow> (c # tok, rest)))"

definition is_digit :: "char \<Rightarrow> bool" where
  "is_digit c \<longleftrightarrow> 48 \<le> (of_char c :: nat) \<and> (of_char c :: nat) < 58"

fun parse_digits :: "string \<Rightarrow> nat \<Rightarrow> nat" where
  "parse_digits [] n = n"
| "parse_digits (c # s) n = (if is_digit c then parse_digits s (10 * n + (of_char c - 48)) else n)"

fun simple_strtol :: "string \<Rightarrow> int" where
  "simple_strtol [] = 0"
| "simple_strtol (c # s) = (if c = CHR ''-'' then - int (parse_digits s 0) else int (parse_digits (c # s) 0))"

lemma strsep_shorter: "strsep s = (tok, Some rest) \<Longrightarrow> length rest < length s"
  by (induction s arbitrary: tok) (auto split: if_splits prod.splits)

text \<open>
  The loop over the list. The first number is the parity disk's, every other one is stored
  in the array of 32 entries; storing past its end is a fault.
\<close>

function load_minors :: "string option \<Rightarrow> bool \<Rightarrow> praid_config \<Rightarrow> praid_config option outcome" where
  "load_minors None first c = Ret (Some c)"
| "load_minors (Some s) first c =
     (let (minor, rest) = strsep s;
          minor_nr = word_of_int (simple_strtol minor)
      in bind_outcome
           (if first then Ret (c\<lparr>nvme_minor_verify := minor_nr\<rparr>)
            else if 32 \<le> unat (nr_nvme_disks c) then Crash BadPointer
            else Ret (c\<lparr>nvme_minor := (nvme_minor c)[unat (nr_nvme_disks c) := minor_nr],
                        nr_nvme_disks := nr_nvme_disks c + 1\<rparr>))
           (\<lambda>c. if 31 < nr_nvme_disks c then Ret None else load_minors rest False c))"
  by pat_completeness auto

termination
  by (relation "measure (\<lambda>(s, first, c). case s of None \<Rightarrow> 0 | Some s \<Rightarrow> Suc (length s))")
     (auto dest!: strsep_shorter [OF sym] split: option.split)

definition load_configs :: "e820_map \<Rightarrow> params \<Rightarrow> praid_config \<Rightarrow> praid_config option outcome" where
  "load_configs e820 p c =
     (if validate_configs e820 p \<noteq> None then Ret None
      else bind_outcome
        (load_minors (minors p) True
           (c\<lparr>nvme_major := major p, size_nvme_disk := per_size p, nr_nvme_disks := 0\<rparr>))
        (\<lambda>r. case r of
            None \<Rightarrow> Ret None
          | Some c \<Rightarrow>
              if memmap_size p < ucast (nr_nvme_disks c + 1) * word_of_nat CHUNK_SIZE + word_of_nat PAGE_SIZE
              then Ret None else Ret (Some c)))"

text \<open>The structure as \<open>kzalloc\<close> returns it.\<close>

definition zero_config :: praid_config where
  "zero_config = \<lparr>nr_nvme_disks = 0, size_nvme_disk = 0, nvme_major = 0, nvme_minor_verify = 0,
     nvme_minor = replicate 32 0\<rparr>"

section \<open>Derived addresses and sizes\<close>

record pciev_config =
  c_memmap_start :: u64
  c_memmap_size :: u64
  storage_start :: u64
  storage_size :: u64
  cnt_disk :: u32
  cpu_nr_dispatcher :: u32

definition zero_pciev_config :: pciev_config where
  "zero_pciev_config = \<lparr>c_memmap_start = 0, c_memmap_size = 0, storage_start = 0, storage_size = 0,
     cnt_disk = 0, cpu_nr_dispatcher = 0\<rparr>"

definition device_load_configs :: "params \<Rightarrow> pciev_config \<Rightarrow> pciev_config" where
  "device_load_configs p c = c\<lparr>c_memmap_start := memmap_start p, c_memmap_size := memmap_size p,
     storage_start := memmap_start p + BAR_CHUNK_OFFSET,
     storage_size := memmap_size p - BAR_CHUNK_OFFSET,
     cpu_nr_dispatcher := cpu p\<rparr>"

text \<open>
  In \<open>pcievdrv_probe\<close>: the driver's calculation area, from the base address the PCI core read
  from the device; in \<open>create_block_device\<close>: the size of the array in bytes and its capacity
  in sectors.
\<close>

definition chunk_sta :: "u64 \<Rightarrow> u64" where
  "chunk_sta mem_sta = mem_sta + BAR_CHUNK_OFFSET"

definition chunk_range :: nat where
  "chunk_range = 3 * CHUNK_SIZE"

definition array_size :: "praid_config \<Rightarrow> u32 \<Rightarrow> u64" where
  "array_size c disks = size_nvme_disk c * ucast disks"

definition capacity :: "u64 \<Rightarrow> u64" where
  "capacity nbytes = drop_bit KERNEL_SECTOR_SHIFT nbytes * word_of_nat (HARDSECT_SIZE div KERNEL_SECTOR_SIZE)"

section \<open>What is loaded\<close>

function tokens :: "string \<Rightarrow> string list" where
  "tokens s = (case strsep s of (tok, None) \<Rightarrow> [tok] | (tok, Some rest) \<Rightarrow> tok # tokens rest)"
  by pat_completeness auto

termination
  by (relation "measure length") (auto dest!: strsep_shorter [OF sym])

declare tokens.simps [simp del]

lemma tokens_eq:
  "strsep s = (tok, None) \<Longrightarrow> tokens s = [tok]"
  "strsep s = (tok, Some rest) \<Longrightarrow> tokens s = tok # tokens rest"
  by (simp_all add: tokens.simps [of s])

definition token_number :: "string \<Rightarrow> u32" where
  "token_number tok = word_of_int (simple_strtol tok)"

definition minor_numbers :: "params \<Rightarrow> u32 list" where
  "minor_numbers p = (case minors p of None \<Rightarrow> [] | Some s \<Rightarrow> map token_number (tokens s))"

definition store_minors :: "praid_config \<Rightarrow> u32 list \<Rightarrow> praid_config" where
  "store_minors c vs = c\<lparr>nvme_minor := take (unat (nr_nvme_disks c)) (nvme_minor c) @ vs @
       drop (unat (nr_nvme_disks c) + length vs) (nvme_minor c),
     nr_nvme_disks := nr_nvme_disks c + word_of_nat (length vs)\<rparr>"

lemma store_minors_Nil: "store_minors c [] = c"
  by (simp add: store_minors_def)

lemma unat_next: "unat (n :: u32) \<le> 31 \<Longrightarrow> unat (n + 1) = unat n + 1"
  by (intro unat_inc) simp

lemma store_minors_Cons:
  assumes "unat (nr_nvme_disks c) \<le> 31" and "length (nvme_minor c) = 32"
  shows "store_minors (c\<lparr>nvme_minor := (nvme_minor c)[unat (nr_nvme_disks c) := v],
      nr_nvme_disks := nr_nvme_disks c + 1\<rparr>) vs = store_minors c (v # vs)"
proof -
  let ?n = "unat (nr_nvme_disks c)"
  have n: "?n < length (nvme_minor c)" using assms by simp
  have "take (Suc ?n) ((nvme_minor c)[?n := v]) = take ?n (nvme_minor c) @ [v]"
    using n by (simp add: take_Suc_conv_app_nth)
  moreover have "unat (nr_nvme_disks c + 1) = Suc ?n" using unat_next [OF assms(1)] by simp
  ultimately show ?thesis by (simp add: store_minors_def add.assoc)
qed

lemma load_rest:
  assumes "unat (nr_nvme_disks c) \<le> 31" and "length (nvme_minor c) = 32"
  shows "load_minors (Some s) False c =
    Ret (if unat (nr_nvme_disks c) + length (tokens s) \<le> 31
         then Some (store_minors c (map token_number (tokens s))) else None)"
  using assms
proof (induction s arbitrary: c rule: tokens.induct)
  case (1 s)
  obtain tok rest where sep: "strsep s = (tok, rest)" by (cases "strsep s")
  let ?c = "c\<lparr>nvme_minor := (nvme_minor c)[unat (nr_nvme_disks c) := token_number tok],
      nr_nvme_disks := nr_nvme_disks c + 1\<rparr>"
  have "unat (nr_nvme_disks ?c) = unat (nr_nvme_disks c) + 1" using 1 by (simp add: unat_next)
  then have full: "31 < nr_nvme_disks ?c \<longleftrightarrow> 31 \<le> unat (nr_nvme_disks c)" and
    room: "\<not> 31 < nr_nvme_disks ?c \<Longrightarrow> unat (nr_nvme_disks ?c) \<le> 31" by (auto simp: word_less_nat_alt)
  have step: "load_minors (Some s) False c = (if 31 < nr_nvme_disks ?c then Ret None else load_minors rest False ?c)"
    using 1 sep by (simp add: token_number_def Let_def)
  have store: "store_minors ?c vs = store_minors c (token_number tok # vs)" for vs
    using 1 by (intro store_minors_Cons)
  show ?case
  proof (cases rest)
    case None
    then show ?thesis using step full sep store [of "[]"] by (auto simp: tokens_eq store_minors_Nil)
  next
    case (Some r)
    show ?thesis
    proof (cases "31 < nr_nvme_disks ?c")
      case True
      then show ?thesis using step full sep Some by (simp add: tokens_eq)
    next
      case False
      have "load_minors (Some r) False ?c = Ret (if unat (nr_nvme_disks ?c) + length (tokens r) \<le> 31
         then Some (store_minors ?c (map token_number (tokens r))) else None)"
        using sep Some room [OF False] 1 by (intro "1.IH" [OF sep [symmetric]]) auto
      with False show ?thesis using step sep Some store \<open>unat (nr_nvme_disks ?c) = _\<close>
        by (simp add: tokens_eq)
    qed
  qed
qed

definition loaded_config :: "params \<Rightarrow> praid_config" where
  "loaded_config p = zero_config\<lparr>nvme_major := major p, size_nvme_disk := per_size p,
     nvme_minor_verify := (case minor_numbers p of [] \<Rightarrow> 0 | v # vs \<Rightarrow> v),
     nr_nvme_disks := word_of_nat (length (minor_numbers p) - 1),
     nvme_minor := tl (minor_numbers p) @ replicate (32 - (length (minor_numbers p) - 1)) 0\<rparr>"

lemma tokens_not_Nil: "tokens s \<noteq> []"
  by (simp add: tokens.simps [of s] split: prod.split option.split)

lemma load_all:
  "load_minors (minors p) True (zero_config\<lparr>nvme_major := major p, size_nvme_disk := per_size p, nr_nvme_disks := 0\<rparr>) =
     Ret (if length (minor_numbers p) \<le> 32 then Some (loaded_config p) else None)"
proof (cases "minors p")
  case None
  then show ?thesis by (simp add: minor_numbers_def loaded_config_def zero_config_def)
next
  case (Some s)
  obtain tok rest where sep: "strsep s = (tok, rest)" by (cases "strsep s")
  show ?thesis
  proof (cases rest)
    case None
    with Some sep show ?thesis
      by (simp add: minor_numbers_def tokens_eq loaded_config_def token_number_def zero_config_def Let_def)
  next
    case (Some r)
    let ?c = "zero_config\<lparr>nvme_major := major p, size_nvme_disk := per_size p, nr_nvme_disks := 0,
      nvme_minor_verify := token_number tok\<rparr>"
    have nums: "minor_numbers p = token_number tok # map token_number (tokens r)"
      using \<open>minors p = Some s\<close> sep Some by (simp add: minor_numbers_def tokens_eq)
    have "load_minors (minors p) True (zero_config\<lparr>nvme_major := major p, size_nvme_disk := per_size p, nr_nvme_disks := 0\<rparr>) =
        load_minors (Some r) False ?c"
      using \<open>minors p = Some s\<close> sep Some by (simp add: token_number_def Let_def del: load_minors.simps(2))
        (simp add: load_minors.simps(2) [of s] token_number_def Let_def del: load_minors.simps(2))
    also have "\<dots> = Ret (if length (tokens r) \<le> 31 then Some (store_minors ?c (map token_number (tokens r))) else None)"
      by (subst load_rest) (simp_all add: zero_config_def)
    finally show ?thesis by (simp add: nums loaded_config_def store_minors_def zero_config_def)
  qed
qed

lemma space_check_vacuous:
  assumes "validate_configs e820 p = None" and "unat n \<le> 31"
  shows "\<not> memmap_size p < ucast (n + 1 :: u32) * word_of_nat CHUNK_SIZE + word_of_nat PAGE_SIZE"
proof -
  have "MB 1 < memmap_size p" using assms(1) by (auto simp: validate_configs_def split: if_splits)
  then have "2 ^ 20 < unat (memmap_size p)" by (simp add: word_less_nat_alt MB_def)
  moreover have "unat (ucast (n + 1) * word_of_nat CHUNK_SIZE + word_of_nat PAGE_SIZE :: u64) \<le> 33 * 4096"
  proof -
    have "unat (n + 1) = unat n + 1" using assms(2) by (rule unat_next)
    then show ?thesis using assms(2)
      by (simp add: praid_const unat_word_ariths)
  qed
  ultimately show ?thesis by (simp add: word_less_nat_alt)
qed

lemma unat_small_count: "n \<le> 32 \<Longrightarrow> unat (word_of_nat n :: u32) = n"
  by (simp add: unsigned_of_nat take_bit_eq_mod)

lemma load_configs_eq:
  "load_configs e820 p zero_config =
     Ret (if validate_configs e820 p = None \<and> length (minor_numbers p) \<le> 32 then Some (loaded_config p) else None)"
proof (cases "validate_configs e820 p = None \<and> length (minor_numbers p) \<le> 32")
  case True
  then have "length (minor_numbers p) \<le> 32" by blast
  then have "length (minor_numbers p) - 1 \<le> 31" and "length (minor_numbers p) - 1 \<le> 32" by linarith+
  then have "unat (nr_nvme_disks (loaded_config p)) \<le> 31"
    by (simp add: loaded_config_def unat_small_count del: One_nat_def)
  with True space_check_vacuous [of e820 p] show ?thesis by (simp add: load_configs_def load_all)
next
  case False
  then show ?thesis by (auto simp: load_configs_def load_all)
qed

text \<open>
  C26: The parameters decide the configuration. It is refused exactly if the validation fails or
  more than 32 numbers are listed; otherwise the first number is the parity disk's, the others
  are the data disks in order, as many as were counted. Nothing is stored past the array's 32
  entries, and the check of the reserved memory's size at the end never refuses anything.
\<close>

theorem load_configs_spec:
  "load_configs e820 p zero_config =
     Ret (if validate_configs e820 p = None \<and> length (minor_numbers p) \<le> 32 then Some (loaded_config p) else None)"
  by (rule load_configs_eq)

lemma loaded_disks:
  assumes "load_configs e820 p zero_config = Ret (Some c)"
  shows "unat (nr_nvme_disks c) \<le> length (nvme_minor c)" and "validate_configs e820 p = None"
proof -
  let ?n = "length (minor_numbers p)"
  have c: "validate_configs e820 p = None" "?n \<le> 32" "c = loaded_config p"
    using assms by (auto simp: load_configs_eq split: if_splits)
  then have "nr_nvme_disks c = word_of_nat (?n - 1)" and "length (nvme_minor c) = ?n - 1 + (32 - (?n - 1))"
    by (simp_all add: loaded_config_def)
  moreover have "unat (word_of_nat (?n - 1) :: u32) = ?n - 1" using c(2) by (intro unat_small_count) simp
  ultimately show "unat (nr_nvme_disks c) \<le> length (nvme_minor c)" by simp
  show "validate_configs e820 p = None" by (rule c(1))
qed

section \<open>Derived values\<close>

lemma storage_size_value:
  assumes "validate_configs e820 p = None"
  shows "unat (storage_size (device_load_configs p c)) = unat (memmap_size p) - 2 ^ 20"
proof -
  have "MB 1 < memmap_size p" using assms by (auto simp: validate_configs_def split: if_splits)
  then have "MB 1 \<le> memmap_size p" by simp
  then have "unat (memmap_size p - MB 1) = unat (memmap_size p) - unat (MB 1 :: u64)" by (rule unat_sub)
  then show ?thesis by (simp add: device_load_configs_def BAR_CHUNK_OFFSET_def MB_def)
qed

text \<open>
  C35: The reserved memory an accepted configuration leaves for the calculation area is what
  exceeds its first mebibyte, at least one byte and with no wrap-around. The validation does
  not ask for more, and the three chunks of the calculation area fit only if it is 12 KiB.
\<close>

theorem accepted_storage:
  assumes "validate_configs e820 p = None"
  shows "unat (storage_size (device_load_configs p c)) = unat (memmap_size p) - 2 ^ 20 \<and>
    0 < unat (storage_size (device_load_configs p c)) \<and>
    (chunk_range \<le> unat (storage_size (device_load_configs p c)) \<longleftrightarrow> 2 ^ 20 + 12288 \<le> unat (memmap_size p))"
proof -
  have "MB 1 < memmap_size p" using assms by (auto simp: validate_configs_def split: if_splits)
  then have "2 ^ 20 < unat (memmap_size p)" by (simp add: word_less_nat_alt MB_def)
  then show ?thesis using storage_size_value [OF assms, of c] by (auto simp: chunk_range_def praid_const)
qed

definition example_params :: params where
  "example_params = \<lparr>memmap_start = 0x140000000, memmap_size = 0x100001, cpu = 1, major = 259,
     per_size = 0x20000000, minors = Some ''3,0,1''\<rparr>"

definition reserved_map :: e820_map where
  "reserved_map a b t \<longleftrightarrow> t = E820_TYPE_RESERVED"

lemma example_accepted: "validate_configs reserved_map example_params = None"
  by (simp add: validate_configs_def validate_configs_arch_def example_params_def reserved_map_def MB_def Let_def)

lemma accepted_storage_witness:
  "validate_configs reserved_map example_params = None \<and>
   unat (storage_size (device_load_configs example_params zero_pciev_config)) = 1 \<and>
   \<not> chunk_range \<le> unat (storage_size (device_load_configs example_params zero_pciev_config))"
  using accepted_storage [OF example_accepted, of zero_pciev_config] example_accepted by (simp add: example_params_def)

text \<open>
  C36: Device and driver find the calculation area each in its own way: the device at
  \<open>memmap_start\<close> plus a mebibyte, the driver at the base address the PCI core read plus a
  mebibyte. They use the same memory if and only if \<open>memmap_start\<close> is a multiple of 16 KiB,
  which nothing checks.
\<close>

theorem chunk_areas_agree_iff:
  "chunk_sta (bar_base (virtDev (pci_vdev_start (memmap_start p)))) = storage_start (device_load_configs p c) \<longleftrightarrow>
     2 ^ 14 dvd unat (memmap_start p)"
  by (simp add: chunk_sta_def device_load_configs_def bar_base_iff_aligned)

lemma capacity_of_array:
  assumes "unat (size_nvme_disk c) * unat n < 2 ^ 64"
  shows "unat (capacity (array_size c n)) = unat (size_nvme_disk c) * unat n div 512"
proof -
  have "unat (array_size c n) = unat (size_nvme_disk c) * unat n"
    using assms by (simp add: array_size_def unat_word_ariths)
  then show ?thesis by (simp add: capacity_def praid_const unat_drop_bit_div)
qed

end
