(* ===== verification/Praid_Startup.thy ===== *)
theory Praid_Startup
  imports Praid_Params "HOL-Library.Multiset"
begin

text \<open>
  Start-up and shutdown: \<open>main.c\<close>, the life cycle of the virtual device (\<open>device.c\<close>, the bus
  and \<open>VDEV_INIT\<close>/\<open>VDEV_FINALIZE\<close> of \<open>pci.c\<close>), of the driver (\<open>pcievdrv_probe\<close>,
  \<open>pcievdrv_remove\<close>) and of the block device (\<open>block.c\<close>). What matters here is who holds which
  resource: every allocation, mapping, registration and thread is a token that is taken and
  given back, and giving back what is not held is a fault. A pointer field is null exactly
  while its token is not held.
\<close>

section \<open>State\<close>

datatype resource =
    RPraidDev | RBdev nat
  | RVdev | RVirtDev | RStorageMap | RVirtBus | RDevBar | ROldBar | RMsixTable | RVerifyPage | RDispatcher
  | RDriver | RPciEnabled | RRegions | RDrvBar | RWorkqueue | RChunkMap | RIrq
  | RMajor | RGendisk | RDisk

text \<open>
  Besides the tokens: the two configurations, the devices found on the virtual bus, whether
  the driver is bound to one, its semaphore and the tasks in its queue, how often
  \<open>del_gendisk\<close> was called for a disk that was never added, the registers and the device's
  copy of them, and the capacity of the disk.
\<close>

record boot =
  held :: "resource multiset"
  b_praid :: praid_dev
  b_vdev :: pciev_config
  b_devs :: nat
  b_bound :: bool
  b_sem :: nat
  b_tasks :: nat
  b_misuse :: nat
  b_bar :: pciev_bar
  b_old_bar :: pciev_bar
  b_capacity :: u64

text \<open>
  The answers of the kernel, a parameter of the model: which of the fallible calls succeed,
  the block device behind a device number, the result codes that are passed on, whether a
  signal breaks off a worker's sleep, whether the device answers what was posted to it, and
  whether a task's pages can be mapped.
\<close>

record boot_env =
  e_praid :: bool
  e_open :: "u32 \<Rightarrow> nat option"
  e_vdev :: bool
  e_virtdev :: bool
  e_storage :: bool
  e_scan :: "nat option"
  e_devbar :: bool
  e_oldbar :: bool
  e_msix :: bool
  e_page :: bool
  e_thread :: bool
  e_register :: "errno option"
  e_enable :: bool
  e_irq :: int
  e_regions :: bool
  e_drvbar :: bool
  e_workqueue :: bool
  e_chunk :: bool
  e_request_irq :: "errno option"
  e_blkdev :: bool
  e_disk :: bool
  e_queue :: bool
  e_add_disk :: bool
  e_interrupted :: bool
  e_answers :: bool
  e_kmap :: bool

text \<open>An action may not return (\<open>None\<close>), crash, or return a value and the new state.\<close>

type_synonym 'a act = "boot \<Rightarrow> ('a \<times> boot) outcome option"

definition ret :: "'a \<Rightarrow> 'a act" where
  "ret x s = Some (Ret (x, s))"

definition crash :: "fault \<Rightarrow> 'a act" where
  "crash e s = Some (Crash e)"

definition andthen :: "'a act \<Rightarrow> ('a \<Rightarrow> 'b act) \<Rightarrow> 'b act" where
  "andthen m f s = bind_run (m s) (\<lambda>(x, s). f x s)"

definition before :: "unit act \<Rightarrow> 'a act \<Rightarrow> 'a act" where
  "before m n = andthen m (\<lambda>_. n)"

definition acquire :: "resource \<Rightarrow> unit act" where
  "acquire r s = ret () (s\<lparr>held := add_mset r (held s)\<rparr>)"

definition release :: "resource \<Rightarrow> unit act" where
  "release r s = (if r \<in># held s then ret () (s\<lparr>held := held s - {#r#}\<rparr>) else crash BadPointer s)"

text \<open>\<open>if (p) free(p)\<close>, and a call that takes something only if it succeeds.\<close>

definition release_if :: "resource \<Rightarrow> unit act" where
  "release_if r s = (if r \<in># held s then release r s else ret () s)"

definition acquire_if :: "bool \<Rightarrow> resource \<Rightarrow> unit act" where
  "acquire_if ok r = (if ok then acquire r else ret ())"

fun release_all :: "resource list \<Rightarrow> unit act" where
  "release_all [] = ret ()"
| "release_all (r # rs) = before (release r) (release_all rs)"

definition modify :: "(boot \<Rightarrow> boot) \<Rightarrow> unit act" where
  "modify f s = ret () (f s)"

section \<open>The disks: nvme_blkdev_init and nvme_blkdev_final\<close>

definition MKDEV :: "u32 \<Rightarrow> u32 \<Rightarrow> u32" where
  "MKDEV ma mi = push_bit 20 ma OR mi"

text \<open>
  The loop over the data disks: the devices opened, and whether all of them could be. The
  error path puts what was opened, last first.
\<close>

fun open_disks :: "boot_env \<Rightarrow> u32 \<Rightarrow> u32 list \<Rightarrow> nat list \<Rightarrow> (bool \<times> nat list) act" where
  "open_disks E ma [] opened = ret (True, opened)"
| "open_disks E ma (mi # ms) opened = (case e_open E (MKDEV ma mi) of
     None \<Rightarrow> ret (False, opened)
   | Some b \<Rightarrow> before (acquire (RBdev b)) (open_disks E ma ms (opened @ [b])))"

definition nvme_blkdev_init :: "boot_env \<Rightarrow> errno option act" where
  "nvme_blkdev_init E s =
     (let c = config (b_praid s);
          s = s\<lparr>b_praid := (b_praid s)\<lparr>disk_cnt := nr_nvme_disks c\<rparr>\<rparr>
      in andthen (open_disks E (nvme_major c) (take (unat (nr_nvme_disks c)) (nvme_minor c)) [])
           (\<lambda>(ok, opened).
              if \<not> ok then before (release_all (map RBdev (rev opened))) (ret (Some EBUSY))
              else before (modify (\<lambda>s. s\<lparr>b_praid := (b_praid s)\<lparr>bdev := opened\<rparr>\<rparr>))
                (case e_open E (MKDEV (nvme_major c) (nvme_minor_verify c)) of
                   None \<Rightarrow> before (release_all (map RBdev (rev opened))) (ret (Some EBUSY))
                 | Some b \<Rightarrow> before (acquire (RBdev b))
                     (before (modify (\<lambda>s. s\<lparr>b_praid := (b_praid s)\<lparr>bdev_verify := b\<rparr>\<rparr>)) (ret None)))) s)"

definition nvme_blkdev_final :: "unit act" where
  "nvme_blkdev_final s = before (release (RBdev (bdev_verify (b_praid s))))
     (release_all (map RBdev (take (unat (disk_cnt (b_praid s))) (bdev (b_praid s))))) s"

section \<open>The virtual device: PCIEV_init and PCIEV_exit\<close>

text \<open>
  \<open>VDEV_INIT\<close> writes to the structure it allocates before anybody looks at the pointer; the
  configuration space it allocates besides is written by the settings.
\<close>

definition VDEV_INIT :: "boot_env \<Rightarrow> unit act" where
  "VDEV_INIT E = (if \<not> e_vdev E then crash BadPointer
     else before (acquire RVdev) (before (modify (\<lambda>s. s\<lparr>b_vdev := zero_pciev_config\<rparr>))
       (acquire_if (e_virtdev E) RVirtDev)))"

definition VDEV_FINALIZE :: "unit act" where
  "VDEV_FINALIZE = before (release_if RMsixTable) (before (release_if RDevBar)
     (before (release_if RVirtDev) (release_if RVdev)))"

definition PCIEV_STORAGE_INIT :: "boot_env \<Rightarrow> unit act" where
  "PCIEV_STORAGE_INIT E = acquire_if (e_storage E) RStorageMap"

definition PCIEV_STORAGE_FINAL :: "unit act" where
  "PCIEV_STORAGE_FINAL = release_if RStorageMap"

definition zero_bar :: pciev_bar where
  "zero_bar = \<lparr>dev_cnt = 0, io_offset = 0, io_size = 0, io_sector_sta = 0, io_num = 0, io_done = 0\<rparr>"

definition init_pciev_bar :: "boot_env \<Rightarrow> unit act" where
  "init_pciev_bar E = (if \<not> e_devbar E then crash BugOn
     else before (acquire RDevBar) (modify (\<lambda>s. s\<lparr>b_bar := zero_bar\<lparr>dev_cnt := cnt_disk (b_vdev s)\<rparr>\<rparr>)))"

text \<open>The body of the loop over the devices found on the bus.\<close>

definition attach_device :: "boot_env \<Rightarrow> unit act" where
  "attach_device E = before (init_pciev_bar E)
     (if \<not> e_oldbar E then crash BugOn
      else before (acquire ROldBar) (before (modify (\<lambda>s. s\<lparr>b_old_bar := b_bar s\<rparr>))
        (if \<not> e_msix E then crash BadPointer else acquire RMsixTable)))"

fun attach_devices :: "boot_env \<Rightarrow> nat \<Rightarrow> unit act" where
  "attach_devices E 0 = ret ()"
| "attach_devices E (Suc n) = before (attach_device E) (attach_devices E n)"

definition create_pci_bus :: "boot_env \<Rightarrow> bool act" where
  "create_pci_bus E = (case e_scan E of
     None \<Rightarrow> ret False
   | Some n \<Rightarrow> before (acquire RVirtBus) (before (modify (\<lambda>s. s\<lparr>b_devs := n\<rparr>))
       (before (attach_devices E n) (ret True))))"

definition PCIEV_PCI_INIT :: "boot_env \<Rightarrow> bool act" where
  "PCIEV_PCI_INIT E s = (if RVirtDev \<in># held s then create_pci_bus E s else crash BadPointer s)"

definition PCIEV_DISPATCHER_INIT :: "boot_env \<Rightarrow> unit act" where
  "PCIEV_DISPATCHER_INIT E = before (acquire_if (e_page E) RVerifyPage)
     (if \<not> e_thread E then crash BadPointer else acquire RDispatcher)"

definition PCIEV_DISPATCHER_FINAL :: "unit act" where
  "PCIEV_DISPATCHER_FINAL = before (release_if RDispatcher) (release RVerifyPage)"

definition PCIEV_init :: "boot_env \<Rightarrow> params \<Rightarrow> u32 \<Rightarrow> errno option act" where
  "PCIEV_init E p cnt_dev = before (VDEV_INIT E)
     (before (modify (\<lambda>s. s\<lparr>b_vdev := (device_load_configs p (b_vdev s))\<lparr>cnt_disk := cnt_dev\<rparr>\<rparr>))
     (before (PCIEV_STORAGE_INIT E)
     (andthen (PCIEV_PCI_INIT E) (\<lambda>ok.
        if \<not> ok then before VDEV_FINALIZE (ret (Some EIO))
        else before (PCIEV_DISPATCHER_INIT E) (ret None)))))"

definition PCIEV_exit :: "unit act" where
  "PCIEV_exit = before (release_if RVirtBus) (before PCIEV_DISPATCHER_FINAL
     (before PCIEV_STORAGE_FINAL VDEV_FINALIZE))"

section \<open>The driver: probe and remove\<close>

definition pcievdrv_probe :: "boot_env \<Rightarrow> errno option act" where
  "pcievdrv_probe E =
     (if \<not> e_enable E then ret (Some EIO)
      else before (acquire RPciEnabled)
     (if e_irq E < 0 then ret (Some EINVAL)
      else if \<not> e_regions E then ret (Some EINVAL)
      else before (acquire RRegions)
     (if \<not> e_drvbar E then before (release RRegions) (ret (Some ENOMEM))
      else before (acquire RDrvBar)
     (before (modify (\<lambda>s. s\<lparr>b_sem := 1\<rparr>))
     (before (acquire_if (e_workqueue E) RWorkqueue)
     (if \<not> e_chunk E
      then before (release_all [RDrvBar, RWorkqueue, RRegions]) (ret (Some ENOMEM))
      else before (acquire RChunkMap)
     (case e_request_irq E of
        Some e \<Rightarrow> before (release_all [RChunkMap, RDrvBar, RWorkqueue, RRegions]) (ret (Some e))
      | None \<Rightarrow> before (acquire RIrq) (before (modify (\<lambda>s. s\<lparr>b_bound := True\<rparr>)) (ret None)))))))))"

text \<open>
  A task as far as the resources go (\<open>do_verify_work\<close>): the worker needs the semaphore, which
  the interrupt gives back, then stores to the calculation area (if its pages can be mapped;
  otherwise it gives the semaphore back itself) and to the registers. \<open>flush_workqueue\<close> runs
  the tasks that are left.
\<close>

definition run_task :: "boot_env \<Rightarrow> unit act" where
  "run_task E s =
     (if b_sem s = 0 \<and> \<not> (RIrq \<in># held s \<and> e_answers E)
      then if e_interrupted E then ret () s else None
      else if RDrvBar \<notin># held s \<or> e_kmap E \<and> RChunkMap \<notin># held s then crash BadPointer s
      else let n = max 1 (b_sem s) in ret () (s\<lparr>b_sem := (if e_kmap E then n - 1 else n)\<rparr>))"

fun run_tasks :: "boot_env \<Rightarrow> nat \<Rightarrow> unit act" where
  "run_tasks E 0 = modify (\<lambda>s. s\<lparr>b_tasks := 0\<rparr>)"
| "run_tasks E (Suc n) = before (run_task E) (run_tasks E n)"

definition flush_workqueue :: "boot_env \<Rightarrow> unit act" where
  "flush_workqueue E s = run_tasks E (b_tasks s) s"

definition pcievdrv_remove :: "boot_env \<Rightarrow> unit act" where
  "pcievdrv_remove E = before (release_all [RIrq, RChunkMap, RDrvBar]) (before (flush_workqueue E)
     (before (release_all [RWorkqueue, RRegions, RPciEnabled]) (modify (\<lambda>s. s\<lparr>b_bound := False\<rparr>))))"

text \<open>
  Registering the driver lets the PCI core probe each device on the bus. The result of a
  probe is the core's business; what \<open>pci_register_driver\<close> returns does not depend on it.
\<close>

fun probe_devices :: "boot_env \<Rightarrow> nat \<Rightarrow> unit act" where
  "probe_devices E 0 = ret ()"
| "probe_devices E (Suc n) = andthen (pcievdrv_probe E) (\<lambda>_. probe_devices E n)"

definition pcievdrv_init :: "boot_env \<Rightarrow> errno option act" where
  "pcievdrv_init E s = (case e_register E of
     Some e \<Rightarrow> ret (Some e) s
   | None \<Rightarrow> before (acquire RDriver) (before (probe_devices E (b_devs s)) (ret None)) s)"

definition pcievdrv_exit :: "boot_env \<Rightarrow> unit act" where
  "pcievdrv_exit E s = before (if b_bound s then pcievdrv_remove E else ret ()) (release RDriver) s"

section \<open>The block device\<close>

definition del_gendisk :: "unit act" where
  "del_gendisk s = (if RDisk \<in># held s then release RDisk s else ret () (s\<lparr>b_misuse := Suc (b_misuse s)\<rparr>))"

definition create_block_device :: "boot_env \<Rightarrow> errno option act" where
  "create_block_device E =
     before (modify (\<lambda>s. s\<lparr>b_praid := (b_praid s)
        \<lparr>dev_size := array_size (config (b_praid s)) (disk_cnt (b_praid s))\<rparr>\<rparr>))
     (before (acquire_if (e_disk E) RGendisk)
     (if \<not> e_disk E \<or> \<not> e_queue E then ret (Some ENOMEM)
      else before (modify (\<lambda>s. s\<lparr>b_capacity := capacity (dev_size (b_praid s))\<rparr>))
     (if \<not> e_add_disk E
      then before del_gendisk (before (release RGendisk) (ret (Some ENOMEM)))
      else before (acquire RDisk) (ret None))))"

definition delete_block_device :: "unit act" where
  "delete_block_device s = (if RGendisk \<in># held s then before del_gendisk (release RGendisk) s else ret () s)"

definition vpciedisk_init :: "boot_env \<Rightarrow> errno option act" where
  "vpciedisk_init E = (if \<not> e_blkdev E then ret (Some EBUSY)
     else before (acquire RMajor) (andthen (create_block_device E) (\<lambda>r.
       if r \<noteq> None then before (release RMajor) (ret (Some ENOMEM)) else ret None)))"

definition vpciedisk_exit :: "unit act" where
  "vpciedisk_exit = before delete_block_device (release RMajor)"

section \<open>The module\<close>

definition lift_config :: "praid_config option outcome \<Rightarrow> bool act" where
  "lift_config r s = (case r of
     Crash e \<Rightarrow> crash e s
   | Ret None \<Rightarrow> ret False s
   | Ret (Some c) \<Rightarrow> ret True (s\<lparr>b_praid := (b_praid s)\<lparr>config := c\<rparr>\<rparr>))"

definition zero_praid :: praid_dev where
  "zero_praid = \<lparr>config = zero_config, dev_size = 0, disk_cnt = 0, bdev = [], bdev_verify = 0\<rparr>"

definition vpcie_module_init :: "boot_env \<Rightarrow> e820_map \<Rightarrow> params \<Rightarrow> errno option act" where
  "vpcie_module_init E e820 p =
     (if \<not> e_praid E then ret (Some EINVAL)
      else before (acquire RPraidDev)
     (before (modify (\<lambda>s. s\<lparr>b_praid := zero_praid\<rparr>))
     (andthen (\<lambda>s. lift_config (load_configs e820 p (config (b_praid s))) s) (\<lambda>ok.
      if \<not> ok then before (release RPraidDev) (ret (Some EINVAL))
      else andthen (nvme_blkdev_init E) (\<lambda>r.
      if r \<noteq> None then before (release RPraidDev) (ret (Some EBUSY))
      else andthen (\<lambda>s. PCIEV_init E p (disk_cnt (b_praid s)) s) (\<lambda>r.
      if r \<noteq> None then before nvme_blkdev_final (before (release RPraidDev) (ret (Some EBUSY)))
      else andthen (pcievdrv_init E) (\<lambda>r.
      if r \<noteq> None then before PCIEV_exit (before nvme_blkdev_final (before (release RPraidDev) (ret r)))
      else andthen (vpciedisk_init E) (\<lambda>r.
      if r \<noteq> None
      then before (pcievdrv_exit E) (before PCIEV_exit (before nvme_blkdev_final (before (release RPraidDev) (ret r))))
      else ret None))))))))"

definition vpcie_module_exit :: "boot_env \<Rightarrow> unit act" where
  "vpcie_module_exit E = before vpciedisk_exit (before (pcievdrv_exit E) (before PCIEV_exit
     (before nvme_blkdev_final (release RPraidDev))))"

end
