(* ===== verification/Praid_Lifecycle.thy ===== *)
theory Praid_Lifecycle
  imports Praid_Startup
begin

text \<open>
  The contract of a component that is started and stopped (locale \<open>lifecycle\<close>): which resources
  are its own, that starting and stopping leave those of the others alone, what a failed start
  and a stop may leave behind. Two components that are started one inside the other, with the
  ladder of labels the initialisation functions use, again satisfy the contract (locale
  \<open>ladder\<close> and its sublocale).
\<close>

lemmas boot_exec = andthen_def before_def ret_def crash_def acquire_def release_def release_if_def
  acquire_if_def modify_def

text \<open>A continuation is looked at only once the action before it has returned.\<close>

lemma bind_run_weak [cong]: "m = m' \<Longrightarrow> bind_run m f = bind_run m' f"
  by simp

lemma andthen_weak [cong]: "s = s' \<Longrightarrow> andthen m f s = andthen m f s'"
  by simp

lemma before_weak [cong]: "s = s' \<Longrightarrow> before m n s = before m n s'"
  by simp

section \<open>The contract of a component\<close>

definition own :: "(resource \<Rightarrow> bool) \<Rightarrow> boot \<Rightarrow> resource multiset" where
  "own P s = filter_mset P (held s)"

definition others :: "(resource \<Rightarrow> bool) \<Rightarrow> boot \<Rightarrow> resource multiset" where
  "others P s = filter_mset (\<lambda>r. \<not> P r) (held s)"

lemma held_split: "held s = own P s + others P s"
  by (simp add: own_def others_def)

locale lifecycle =
  fixes P :: "resource \<Rightarrow> bool" and pre :: "boot \<Rightarrow> bool" and start :: "errno option act"
    and stop :: "unit act" and ready :: "boot \<Rightarrow> bool" and lost left :: "resource multiset"
    and keep :: "boot \<Rightarrow> boot \<Rightarrow> bool"
  assumes start_frame: "pre s \<Longrightarrow> own P s = {#} \<Longrightarrow> start s = Some (Ret (r, t)) \<Longrightarrow> others P t = others P s \<and> keep s t"
    and start_fail: "pre s \<Longrightarrow> own P s = {#} \<Longrightarrow> start s = Some (Ret (Some e, t)) \<Longrightarrow> own P t \<subseteq># lost"
    and start_ok: "pre s \<Longrightarrow> own P s = {#} \<Longrightarrow> start s = Some (Ret (None, t)) \<Longrightarrow> ready t"
    and stop_ok: "ready s \<Longrightarrow> \<exists>t. stop s = Some (Ret ((), t)) \<and> others P t = others P s \<and> keep s t \<and> own P t \<subseteq># left"
begin

lemma failed_start_releases:
  assumes "pre s" and "held s = {#}" and "start s = Some (Ret (Some e, t))"
  shows "held t \<subseteq># lost"
proof -
  have "own P s = {#}" and "others P s = {#}" using assms(2) by (simp_all add: own_def others_def)
  with start_frame [OF assms(1) _ assms(3)] start_fail [OF assms(1) _ assms(3)]
  have "others P t = {#}" and "own P t \<subseteq># lost" by simp_all
  then show ?thesis by (subst held_split [of t P]) simp
qed

lemma start_then_stop:
  assumes "pre s" and "held s = {#}" and "start s = Some (Ret (None, t))"
  shows "\<exists>u. stop t = Some (Ret ((), u)) \<and> held u \<subseteq># left"
proof -
  have "ready t" using assms by (intro start_ok) (simp_all add: own_def)
  then obtain u where u: "stop t = Some (Ret ((), u))" "others P u = others P t" "own P u \<subseteq># left"
    using stop_ok by blast
  have "others P t = {#}" using start_frame [OF assms(1) _ assms(3)] assms(2) by (simp add: others_def own_def)
  with u have "held u \<subseteq># left" by (subst held_split [of u P]) simp
  with u(1) show ?thesis by blast
qed

end

text \<open>
  The ladder of labels of an initialisation function: start one component, then the rest; if
  the rest fails, stop the one again.
\<close>

definition nested :: "errno option act \<Rightarrow> unit act \<Rightarrow> errno option act \<Rightarrow> errno option act" where
  "nested start1 stop1 start2 = andthen start1 (\<lambda>r. if r \<noteq> None then ret r
     else andthen start2 (\<lambda>r. if r \<noteq> None then before stop1 (ret r) else ret None))"

lemma nested_cases:
  assumes "nested start1 stop1 start2 s = Some (Ret (r, t))"
  obtains (first) e where "r = Some e" "start1 s = Some (Ret (Some e, t))"
    | (second) u v e where "r = Some e" "start1 s = Some (Ret (None, u))"
        "start2 u = Some (Ret (Some e, v))" "stop1 v = Some (Ret ((), t))"
    | (good) u where "r = None" "start1 s = Some (Ret (None, u))" "start2 u = Some (Ret (None, t))"
  using assms
  by (auto simp: nested_def andthen_def before_def ret_def bind_run_case
      split: option.splits outcome.splits if_splits)

locale ladder = outer: lifecycle P1 pre1 start1 stop1 ready1 lost1 left1 keep1 +
    inner: lifecycle P2 pre2 start2 stop2 ready2 lost2 left2 keep2
  for P1 pre1 start1 stop1 ready1 lost1 left1 keep1 P2 pre2 start2 stop2 ready2 lost2 left2 keep2 +
  fixes keep :: "boot \<Rightarrow> boot \<Rightarrow> bool"
  assumes apart: "P1 r \<Longrightarrow> \<not> P2 r"
    and pre_inner: "pre1 s \<Longrightarrow> own P1 s = {#} \<Longrightarrow> start1 s = Some (Ret (None, t)) \<Longrightarrow> pre2 t"
    and ready_outer: "ready1 s \<Longrightarrow> own P1 t = own P1 s \<Longrightarrow> keep2 s t \<Longrightarrow> ready1 t"
    and keep_ladder: "keep1 s t \<Longrightarrow> keep s t" "keep2 s t \<Longrightarrow> keep s t" "keep s t \<Longrightarrow> keep t u \<Longrightarrow> keep s u"
begin

abbreviation P where "P \<equiv> \<lambda>r. P1 r \<or> P2 r"

lemma own_outer: "others P2 t = others P2 s \<Longrightarrow> own P1 t = own P1 s"
proof -
  assume "others P2 t = others P2 s"
  moreover have "own P1 u = filter_mset P1 (others P2 u)" for u
    by (simp add: own_def others_def filter_filter_mset) (metis apart)
  ultimately show ?thesis by simp
qed

lemma own_inner: "others P1 t = others P1 s \<Longrightarrow> own P2 t = own P2 s"
proof -
  assume "others P1 t = others P1 s"
  moreover have "own P2 u = filter_mset P2 (others P1 u)" for u
    by (simp add: own_def others_def filter_filter_mset) (metis apart)
  ultimately show ?thesis by simp
qed

lemma others_both:
  "others P1 t = others P1 s \<Longrightarrow> others P t = others P s"
  "others P2 t = others P2 s \<Longrightarrow> others P t = others P s"
proof -
  have "others P u = filter_mset (\<lambda>r. \<not> P2 r) (others P1 u)" "others P u = filter_mset (\<lambda>r. \<not> P1 r) (others P2 u)" for u
    by (simp_all add: others_def filter_filter_mset conj_commute)
  then show "others P1 t = others P1 s \<Longrightarrow> others P t = others P s"
    "others P2 t = others P2 s \<Longrightarrow> others P t = others P s" by metis+
qed

lemma own_both: "own P u = own P1 u + own P2 u"
proof (rule multiset_eqI)
  fix r show "count (own P u) r = count (own P1 u + own P2 u) r"
    using apart [of r] by (auto simp: own_def)
qed

lemma own_parts: "own P s = {#} \<Longrightarrow> own P1 s = {#}" "own P s = {#} \<Longrightarrow> own P2 s = {#}"
  by (simp_all add: own_both)

lemma first_started:
  assumes "pre1 s" and "own P s = {#}" and "start1 s = Some (Ret (None, u))"
  shows "ready1 u" and "pre2 u" and "own P2 u = {#}" and "others P u = others P s" and "keep1 s u"
proof -
  note fr = outer.start_frame [OF assms(1) own_parts(1) [OF assms(2)] assms(3)]
  show "ready1 u" using assms by (intro outer.start_ok own_parts)
  show "pre2 u" using assms(1) own_parts(1) [OF assms(2)] assms(3) by (rule pre_inner)
  from fr have o: "others P1 u = others P1 s" and k: "keep1 s u" by simp_all
  show "own P2 u = {#}" using own_inner [OF o] own_parts(2) [OF assms(2)] by simp
  show "others P u = others P s" by (rule others_both(1) [OF o])
  show "keep1 s u" by (rule k)
qed

lemma first_undone:
  assumes "ready1 u" and "pre2 u" and "own P2 u = {#}" and "start2 u = Some (Ret (Some e, v))"
    and "stop1 v = Some (Ret ((), t))"
  shows "others P t = others P u" and "keep u t" and "own P t \<subseteq># left1 + lost2"
proof -
  note fr2 = inner.start_frame [OF assms(2,3,4)]
  have "ready1 v" using assms(1) fr2 own_outer ready_outer by blast
  from outer.stop_ok [OF this] assms(5)
  have fr1: "others P1 t = others P1 v" "keep1 v t" "own P1 t \<subseteq># left1" by auto
  show "others P t = others P u" using fr1 fr2 others_both by metis
  show "keep u t" using fr1 fr2 keep_ladder by blast
  have "own P2 t = own P2 v" using own_inner fr1 by blast
  moreover have "own P2 v \<subseteq># lost2" using assms(2-4) by (rule inner.start_fail)
  ultimately show "own P t \<subseteq># left1 + lost2"
    using fr1 by (simp add: own_both subset_mset.add_mono)
qed

lemma nested_frame:
  assumes "pre1 s" and "own P s = {#}" and "nested start1 stop1 start2 s = Some (Ret (r, t))"
  shows "others P t = others P s \<and> keep s t"
  using assms(3)
proof (cases rule: nested_cases)
  case first
  then show ?thesis
    using outer.start_frame [OF assms(1) own_parts(1) [OF assms(2)]] others_both keep_ladder by blast
next
  case (second u v e)
  note st = first_started [OF assms(1,2) second(2)]
  note un = first_undone [OF st(1-3) second(3,4)]
  have "keep s t" using keep_ladder(1) [OF st(5)] un(2) by (rule keep_ladder(3))
  with st(4) un(1) show ?thesis by simp
next
  case (good u)
  note st = first_started [OF assms(1,2) good(2)]
  have fr: "others P2 t = others P2 u" "keep2 u t" using inner.start_frame [OF st(2,3) good(3)] by simp_all
  have "keep s t" using keep_ladder(1) [OF st(5)] keep_ladder(2) [OF fr(2)] by (rule keep_ladder(3))
  with st(4) others_both(2) [OF fr(1)] show ?thesis by simp
qed

lemma nested_fail:
  assumes "pre1 s" and "own P s = {#}" and "nested start1 stop1 start2 s = Some (Ret (Some e, t))"
  shows "own P t \<subseteq># lost1 + left1 + lost2"
  using assms(3)
proof (cases rule: nested_cases)
  case (first e')
  have none: "own P1 s = {#}" "own P2 s = {#}" using own_parts [OF assms(2)] by simp_all
  from first have "own P2 t = {#}"
    using outer.start_frame [OF assms(1) none(1)] own_inner none(2) by metis
  moreover have "own P1 t \<subseteq># lost1" using assms(1) none(1) first(2) by (rule outer.start_fail)
  ultimately show ?thesis
    using subset_mset.order_trans [of "own P1 t" lost1 "lost1 + (left1 + lost2)"] by (simp add: own_both add.assoc)
next
  case (second u v e')
  have "own P t \<subseteq># left1 + lost2"
    using first_started [OF assms(1,2) second(2)] second by (intro first_undone(3)) auto
  then show ?thesis
    using subset_mset.order_trans [of "own P t" "left1 + lost2" "lost1 + (left1 + lost2)"] by (simp add: add.assoc)
qed simp

lemma nested_ok:
  assumes "pre1 s" and "own P s = {#}" and "nested start1 stop1 start2 s = Some (Ret (None, t))"
  shows "ready1 t \<and> ready2 t"
  using assms(3)
proof (cases rule: nested_cases)
  case (good u)
  note st = first_started [OF assms(1,2) good(2)]
  have "others P2 t = others P2 u" "keep2 u t" using inner.start_frame [OF st(2,3) good(3)] by simp_all
  then have "ready1 t" using ready_outer [OF st(1)] own_outer by blast
  moreover have "ready2 t" using st(2,3) good(3) by (rule inner.start_ok)
  ultimately show ?thesis by simp
qed simp_all

lemma nested_stop:
  assumes "ready1 s" and "ready2 s"
  shows "\<exists>t. before stop2 stop1 s = Some (Ret ((), t)) \<and> others P t = others P s \<and> keep s t \<and>
      own P t \<subseteq># left1 + left2"
proof -
  obtain u where u: "stop2 s = Some (Ret ((), u))" "others P2 u = others P2 s" "keep2 s u" "own P2 u \<subseteq># left2"
    using inner.stop_ok [OF assms(2)] by blast
  have "ready1 u" using ready_outer [OF assms(1)] u own_outer by blast
  then obtain t where t: "stop1 u = Some (Ret ((), t))" "others P1 t = others P1 u" "keep1 u t" "own P1 t \<subseteq># left1"
    using outer.stop_ok by blast
  have "own P2 t = own P2 u" using own_inner t by blast
  with u t have "own P t \<subseteq># left1 + left2" by (simp add: own_both subset_mset.add_mono)
  moreover have "before stop2 stop1 s = Some (Ret ((), t))" using u t by (simp add: before_def andthen_def)
  moreover have "others P t = others P s" using u t others_both by metis
  moreover have "keep s t" using u t keep_ladder by blast
  ultimately show ?thesis by blast
qed

end

sublocale ladder \<subseteq> both: lifecycle P pre1 "nested start1 stop1 start2" "before stop2 stop1"
  "\<lambda>s. ready1 s \<and> ready2 s" "lost1 + left1 + lost2" "left1 + left2" keep
proof unfold_locales
  fix s r t assume pre: "pre1 s" and none: "own P s = {#}"
    and run: "nested start1 stop1 start2 s = Some (Ret (r, t))"
  show "others P t = others P s \<and> keep s t" using pre none run by (rule nested_frame)
next
  fix s e t assume pre: "pre1 s" and none: "own P s = {#}"
    and run: "nested start1 stop1 start2 s = Some (Ret (Some e, t))"
  show "own P t \<subseteq># lost1 + left1 + lost2" using pre none run by (rule nested_fail)
next
  fix s t assume pre: "pre1 s" and none: "own P s = {#}"
    and run: "nested start1 stop1 start2 s = Some (Ret (None, t))"
  show "ready1 t \<and> ready2 t" using pre none run by (rule nested_ok)
next
  fix s assume "ready1 s \<and> ready2 s"
  then show "\<exists>t. before stop2 stop1 s = Some (Ret ((), t)) \<and> others P t = others P s \<and> keep s t \<and>
      own P t \<subseteq># left1 + left2" by (blast intro: nested_stop)
qed

end
