(* ===== verification/Praid_Components.thy ===== *)
theory Praid_Components
  imports Praid_Lifecycle
begin

text \<open>
  The five components the module starts: its own structure and configuration, the disks, the
  virtual device, the driver and the block device. Each satisfies the contract of
  \<open>Praid_Lifecycle\<close>, with what its failed start and its stop leave behind stated exactly.
\<close>

section \<open>The components\<close>

definition boot_ok :: "boot_env \<Rightarrow> boot \<Rightarrow> bool" where
  "boot_ok E s \<longleftrightarrow> (\<forall>n. e_scan E = Some n \<longrightarrow> n \<le> 1) \<and> e_page E \<and> e_workqueue E \<and>
     \<not> b_bound s \<and> b_tasks s = 0"

definition disk_view :: "boot \<Rightarrow> u32 \<times> nat list \<times> nat" where
  "disk_view s = (disk_cnt (b_praid s), bdev (b_praid s), bdev_verify (b_praid s))"

definition regs_view :: "boot \<Rightarrow> pciev_bar \<times> pciev_bar" where
  "regs_view s = (b_bar s, b_old_bar s)"

definition with_error :: "errno \<Rightarrow> errno option act \<Rightarrow> errno option act" where
  "with_error e m = andthen m (\<lambda>r. ret (if r = None then None else Some e))"

lemma own_member: "own P s = M \<Longrightarrow> r \<in># M \<Longrightarrow> r \<in># held s"
  by (auto simp: own_def)

lemma own_not_member: "own P s = M \<Longrightarrow> P r \<Longrightarrow> r \<notin># M \<Longrightarrow> r \<notin># held s"
  by (auto simp: own_def)

lemma own_form:
  assumes "own P s = M"
  obtains rest where "held s = rest + M" "\<forall>x. x \<in># rest \<longrightarrow> \<not> P x" "filter_mset (\<lambda>r. \<not> P r) rest = rest"
    "filter_mset P rest = {#}"
proof
  show "held s = others P s + M" using held_split [of s P] assms by simp
  show "\<forall>x. x \<in># others P s \<longrightarrow> \<not> P x" by (simp add: others_def)
  show "filter_mset (\<lambda>r. \<not> P r) (others P s) = others P s" by (simp add: others_def filter_filter_mset)
  show "filter_mset P (others P s) = {#}" by (simp add: others_def)
qed

lemmas run_splits = if_splits option.splits outcome.splits prod.splits

subsection \<open>The block device\<close>

fun block_token :: "resource \<Rightarrow> bool" where
  "block_token RMajor = True" | "block_token RGendisk = True" | "block_token RDisk = True"
| "block_token _ = False"

definition block_ready :: "boot \<Rightarrow> bool" where
  "block_ready s \<longleftrightarrow> own block_token s = {#RMajor, RGendisk, RDisk#}"

definition block_keep :: "boot \<Rightarrow> boot \<Rightarrow> bool" where
  "block_keep s t \<longleftrightarrow> disk_view t = disk_view s \<and> b_bound t = b_bound s \<and> b_tasks t = b_tasks s \<and>
     b_devs t = b_devs s \<and> b_sem t = b_sem s \<and> regs_view t = regs_view s"

lemma del_mem: "r \<in># M \<Longrightarrow> filter_mset P (M - {#r#}) = (if P r then filter_mset P M - {#r#} else filter_mset P M)"
  by (auto dest!: multi_member_split)

lemmas token_simps = own_def others_def del_mem

interpretation block: lifecycle block_token "\<lambda>_. True" "vpciedisk_init E" vpciedisk_exit block_ready
    "{#RGendisk#}" "{#}" block_keep for E
proof
  fix s r t
  assume "own block_token s = {#}" "vpciedisk_init E s = Some (Ret (r, t))"
  then show "others block_token t = others block_token s \<and> block_keep s t"
    by (auto simp: vpciedisk_init_def create_block_device_def del_gendisk_def boot_exec token_simps
        block_keep_def disk_view_def regs_view_def split: run_splits)
next
  fix s e t
  assume "own block_token s = {#}" "vpciedisk_init E s = Some (Ret (Some e, t))"
  then show "own block_token t \<subseteq># {#RGendisk#}"
    by (auto simp: vpciedisk_init_def create_block_device_def del_gendisk_def boot_exec token_simps simp del: filter_mset_eq_mempty_iff split: run_splits)
next
  fix s t
  assume "own block_token s = {#}" "vpciedisk_init E s = Some (Ret (None, t))"
  then show "block_ready t"
    by (auto simp: vpciedisk_init_def create_block_device_def del_gendisk_def boot_exec token_simps
       block_ready_def simp del: filter_mset_eq_mempty_iff split: run_splits)
next
  fix s assume "block_ready s"
  then obtain rest where r: "held s = rest + {#RMajor, RGendisk, RDisk#}" "\<forall>x. x \<in># rest \<longrightarrow> \<not> block_token x"
    "filter_mset (\<lambda>r. \<not> block_token r) rest = rest" "filter_mset block_token rest = {#}"
    unfolding block_ready_def by (rule own_form)
  show "\<exists>t. vpciedisk_exit s = Some (Ret ((), t)) \<and> others block_token t = others block_token s \<and>
      block_keep s t \<and> own block_token t \<subseteq># {#}"
    by (simp add: vpciedisk_exit_def delete_block_device_def del_gendisk_def boot_exec own_def others_def r
        block_keep_def disk_view_def regs_view_def)
qed

subsection \<open>The driver\<close>

fun driver_token :: "resource \<Rightarrow> bool" where
  "driver_token RDriver = True" | "driver_token RPciEnabled = True" | "driver_token RRegions = True"
| "driver_token RDrvBar = True" | "driver_token RWorkqueue = True" | "driver_token RChunkMap = True"
| "driver_token RIrq = True" | "driver_token _ = False"

definition driver_bound :: "resource multiset" where
  "driver_bound = {#RDriver, RPciEnabled, RRegions, RDrvBar, RWorkqueue, RChunkMap, RIrq#}"

definition driver_pre :: "boot_env \<Rightarrow> boot \<Rightarrow> bool" where
  "driver_pre E s \<longleftrightarrow> boot_ok E s \<and> b_devs s \<le> 1"

definition driver_ready :: "boot \<Rightarrow> bool" where
  "driver_ready s \<longleftrightarrow> b_tasks s = 0 \<and>
     (if b_bound s then own driver_token s = driver_bound
      else own driver_token s = {#RDriver#} \<or> own driver_token s = {#RDriver, RPciEnabled#})"

definition driver_keep :: "boot \<Rightarrow> boot \<Rightarrow> bool" where
  "driver_keep s t \<longleftrightarrow> disk_view t = disk_view s \<and> b_devs t = b_devs s \<and> regs_view t = regs_view s"

text \<open>What a probe does, on every branch: all the driver holds, or nothing but the enabled device.\<close>

lemma probe_result:
  assumes "e_workqueue E" and "pcievdrv_probe E s = Some (Ret (r, t))"
  shows "r = None \<and> t = s\<lparr>held := held s + (driver_bound - {#RDriver#}), b_sem := 1, b_bound := True\<rparr> \<or>
    r \<noteq> None \<and> b_bound t = b_bound s \<and> b_tasks t = b_tasks s \<and> b_devs t = b_devs s \<and> b_praid t = b_praid s \<and>
      regs_view t = regs_view s \<and> (held t = held s \<or> held t = add_mset RPciEnabled (held s))"
  using assms
  by (auto simp: pcievdrv_probe_def boot_exec driver_bound_def regs_view_def split: run_splits)

lemma driver_init_cases:
  assumes pre: "driver_pre E s" and "pcievdrv_init E s = Some (Ret (r, t))"
  shows "r = e_register E \<and> b_tasks t = b_tasks s \<and> driver_keep s t \<and>
     (case r of Some e \<Rightarrow> t = s
      | None \<Rightarrow> (\<exists>M. held t = held s + M \<and>
          (if b_bound t then M = driver_bound else M = {#RDriver#} \<or> M = {#RDriver, RPciEnabled#})))"
proof (cases "e_register E")
  case (Some e)
  with assms have "r = Some e" and "t = s" by (auto simp: pcievdrv_init_def ret_def)
  with Some show ?thesis by (simp add: driver_keep_def)
next
  case None
  let ?s = "s\<lparr>held := add_mset RDriver (held s)\<rparr>"
  from pre have wq: "e_workqueue E" "\<not> b_bound s" "b_devs s = 0 \<or> b_devs s = 1"
    by (auto simp: driver_pre_def boot_ok_def)
  from wq(3) show ?thesis
  proof
    assume "b_devs s = 0"
    with None assms wq show ?thesis
      by (auto simp: pcievdrv_init_def boot_exec driver_keep_def disk_view_def regs_view_def)
  next
    assume one: "b_devs s = 1"
    with None assms(2) have "r = None" and "\<exists>r'. pcievdrv_probe E ?s = Some (Ret (r', t))"
      by (auto simp: pcievdrv_init_def boot_exec bind_run_case split: run_splits)
    then obtain r' where "pcievdrv_probe E ?s = Some (Ret (r', t))" by blast
    from probe_result [OF wq(1) this] None wq(2) \<open>r = None\<close> one show ?thesis
      by (auto simp: driver_keep_def disk_view_def regs_view_def driver_bound_def)
  qed
qed

interpretation driver: lifecycle driver_token "driver_pre E" "pcievdrv_init E" "pcievdrv_exit E" driver_ready
    "{#}" "{#RPciEnabled#}" driver_keep for E
proof
  fix s r t
  assume "driver_pre E s" "own driver_token s = {#}" "pcievdrv_init E s = Some (Ret (r, t))"
  from driver_init_cases [OF this(1,3)] show "others driver_token t = others driver_token s \<and> driver_keep s t"
    by (auto simp: token_simps driver_bound_def split: run_splits)
next
  fix s e t
  assume "driver_pre E s" "own driver_token s = {#}" "pcievdrv_init E s = Some (Ret (Some e, t))"
  then show "own driver_token t \<subseteq># {#}"
    using driver_init_cases [of E s "Some e" t] by simp
next
  fix s t
  assume pre: "driver_pre E s" and none: "own driver_token s = {#}" and "pcievdrv_init E s = Some (Ret (None, t))"
  from driver_init_cases [OF pre this(3)] obtain M where M: "held t = held s + M" "b_tasks t = b_tasks s"
    "if b_bound t then M = driver_bound else M = {#RDriver#} \<or> M = {#RDriver, RPciEnabled#}" by auto
  have "own driver_token t = filter_mset driver_token M" using none M(1) by (simp add: own_def)
  with M pre show "driver_ready t"
    by (auto simp: driver_ready_def driver_pre_def boot_ok_def driver_bound_def split: if_splits)
next
  fix s assume r: "driver_ready s"
  show "\<exists>t. pcievdrv_exit E s = Some (Ret ((), t)) \<and> others driver_token t = others driver_token s \<and>
      driver_keep s t \<and> own driver_token t \<subseteq># {#RPciEnabled#}"
  proof (cases "b_bound s")
    case True
    with r have own: "own driver_token s = driver_bound" and "b_tasks s = 0" by (auto simp: driver_ready_def)
    obtain rest where r: "held s = rest + driver_bound" "\<forall>x. x \<in># rest \<longrightarrow> \<not> driver_token x"
      "filter_mset (\<lambda>r. \<not> driver_token r) rest = rest" "filter_mset driver_token rest = {#}"
      using own by (rule own_form)
    show ?thesis using True \<open>b_tasks s = 0\<close>
      by (simp add: pcievdrv_exit_def pcievdrv_remove_def flush_workqueue_def boot_exec
          driver_keep_def disk_view_def regs_view_def own_def others_def r driver_bound_def)
  next
    case False
    with r obtain M where M: "M = {#RDriver#} \<or> M = {#RDriver, RPciEnabled#}" and own: "own driver_token s = M"
      by (auto simp: driver_ready_def)
    obtain rest where r: "held s = rest + M" "\<forall>x. x \<in># rest \<longrightarrow> \<not> driver_token x"
      "filter_mset (\<lambda>r. \<not> driver_token r) rest = rest" "filter_mset driver_token rest = {#}"
      using own by (rule own_form)
    from M False show ?thesis
      by (auto simp: pcievdrv_exit_def boot_exec own_def others_def driver_keep_def disk_view_def regs_view_def r)
  qed
qed

subsection \<open>The virtual device\<close>

fun device_token :: "resource \<Rightarrow> bool" where
  "device_token RVdev = True" | "device_token RVirtDev = True" | "device_token RStorageMap = True"
| "device_token RVirtBus = True" | "device_token RDevBar = True" | "device_token ROldBar = True"
| "device_token RMsixTable = True" | "device_token RVerifyPage = True" | "device_token RDispatcher = True"
| "device_token _ = False"

definition device_held :: "bool \<Rightarrow> bool \<Rightarrow> resource multiset" where
  "device_held storage found = {#RVdev, RVirtDev, RVirtBus, RVerifyPage, RDispatcher#} +
     (if storage then {#RStorageMap#} else {#}) + (if found then {#RDevBar, ROldBar, RMsixTable#} else {#})"

definition device_ready :: "boot \<Rightarrow> bool" where
  "device_ready s \<longleftrightarrow> (\<exists>storage found. own device_token s = device_held storage found)"

definition device_keep :: "boot \<Rightarrow> boot \<Rightarrow> bool" where
  "device_keep s t \<longleftrightarrow> disk_view t = disk_view s \<and> b_bound t = b_bound s \<and> b_tasks t = b_tasks s"

definition device_start :: "boot_env \<Rightarrow> params \<Rightarrow> errno option act" where
  "device_start E p = with_error EBUSY (\<lambda>s. PCIEV_init E p (disk_cnt (b_praid s)) s)"

lemma at_most_one: "n \<le> (1 :: nat) \<Longrightarrow> n = 0 \<or> n = Suc 0"
  by auto

lemmas device_exec = device_start_def with_error_def PCIEV_init_def VDEV_INIT_def PCIEV_STORAGE_INIT_def
  PCIEV_PCI_INIT_def create_pci_bus_def

lemma device_allocated: "device_start E p s = Some (Ret (r, t)) \<Longrightarrow> e_vdev E"
  by (cases "e_vdev E") (simp_all add: device_exec boot_exec)

lemma device_configured:
  assumes "device_start E p s = Some (Ret (r, t))" and "RVirtDev \<notin># held s"
  shows "e_virtdev E"
  using assms device_allocated [OF assms(1)]
  by (cases "e_virtdev E"; cases "e_storage E") (simp_all add: device_exec boot_exec)

lemma device_attached:
  assumes "device_start E p s = Some (Ret (r, t))" and "RVirtDev \<notin># held s" and "e_scan E = Some (Suc 0)"
  shows "e_devbar E \<and> e_oldbar E \<and> e_msix E"
  using assms device_allocated [OF assms(1)] device_configured [OF assms(1,2)]
  by (cases "e_devbar E"; cases "e_oldbar E"; cases "e_msix E"; cases "e_storage E")
     (simp_all add: device_exec attach_device_def init_pciev_bar_def boot_exec)

lemma device_threaded:
  assumes "device_start E p s = Some (Ret (r, t))" and "RVirtDev \<notin># held s"
    and "e_scan E = Some 0 \<or> e_scan E = Some (Suc 0)" and "e_page E"
  shows "e_thread E"
  using assms device_allocated [OF assms(1)] device_configured [OF assms(1,2)] device_attached [OF assms(1,2)]
  by (cases "e_thread E"; cases "e_storage E")
     (auto simp add: device_exec attach_device_def init_pciev_bar_def PCIEV_DISPATCHER_INIT_def boot_exec)

lemma device_start_cases:
  assumes pre: "boot_ok E s" and none: "own device_token s = {#}" and run: "device_start E p s = Some (Ret (r, t))"
  shows "(r = None \<longrightarrow> e_scan E = Some (b_devs t) \<and> b_devs t \<le> 1 \<and> (\<exists>storage found. held t = held s + device_held storage found)) \<and>
     (r \<noteq> None \<longrightarrow> held t = held s \<or> held t = add_mset RStorageMap (held s)) \<and> device_keep s t"
proof -
  from none have out: "r \<notin># held s" if "device_token r" for r using that by (auto simp: own_def)
  have ok: "e_vdev E" "e_virtdev E" using device_allocated [OF run] device_configured [OF run] out by simp_all
  from pre have page: "e_page E" by (simp add: boot_ok_def)
  show ?thesis
  proof (cases "e_scan E")
    case None
    with run ok out show ?thesis
      by (cases "e_storage E") (auto simp: device_exec VDEV_FINALIZE_def boot_exec device_keep_def disk_view_def)
  next
    case (Some n)
    with pre have n: "n = 0 \<or> n = Suc 0" by (auto simp: boot_ok_def intro: at_most_one)
    then have thread: "e_thread E" using device_threaded [OF run _ _ page] Some out by simp
    from n show ?thesis
    proof
      assume "n = 0"
      with Some run ok page thread have "held t = held s + device_held (e_storage E) False" "r = None" "b_devs t = 0"
        "device_keep s t"
        by (cases "e_storage E"; auto simp: device_exec PCIEV_DISPATCHER_INIT_def boot_exec device_keep_def
          disk_view_def device_held_def)+
      then show ?thesis using Some \<open>n = 0\<close> by auto
    next
      assume "n = Suc 0"
      with Some run ok page thread device_attached [OF run] out
      have "held t = held s + device_held (e_storage E) True" "r = None" "b_devs t = 1" "device_keep s t"
        by (cases "e_storage E"; auto simp: device_exec attach_device_def init_pciev_bar_def PCIEV_DISPATCHER_INIT_def
          boot_exec device_keep_def disk_view_def device_held_def)+
      then show ?thesis using Some \<open>n = Suc 0\<close> by auto
    qed
  qed
qed

interpretation device: lifecycle device_token "boot_ok E" "device_start E p" PCIEV_exit device_ready
    "{#RStorageMap#}" "{#ROldBar#}" device_keep for E p
proof
  fix s r t
  assume "boot_ok E s" "own device_token s = {#}" "device_start E p s = Some (Ret (r, t))"
  from device_start_cases [OF this] show "others device_token t = others device_token s \<and> device_keep s t"
    by (cases r) (auto simp: others_def device_held_def)
next
  fix s e t
  assume a: "boot_ok E s" "own device_token s = {#}" "device_start E p s = Some (Ret (Some e, t))"
  from device_start_cases [OF this] have "held t = held s \<or> held t = add_mset RStorageMap (held s)" by simp
  with a(2) show "own device_token t \<subseteq># {#RStorageMap#}" by (auto simp: own_def simp del: filter_mset_eq_mempty_iff)
next
  fix s t
  assume a: "boot_ok E s" "own device_token s = {#}" "device_start E p s = Some (Ret (None, t))"
  from device_start_cases [OF this] obtain storage found where "held t = held s + device_held storage found" by auto
  moreover have "filter_mset device_token (device_held storage found) = device_held storage found"
    by (simp add: device_held_def)
  ultimately have "own device_token t = device_held storage found" using a(2) by (simp add: own_def)
  then show "device_ready t" by (auto simp: device_ready_def)
next
  fix s assume "device_ready s"
  then obtain storage found where "own device_token s = device_held storage found" by (auto simp: device_ready_def)
  then obtain rest where r: "held s = rest + device_held storage found" "\<forall>x. x \<in># rest \<longrightarrow> \<not> device_token x"
    "filter_mset (\<lambda>r. \<not> device_token r) rest = rest" "filter_mset device_token rest = {#}"
    by (rule own_form)
  have out: "RStorageMap \<notin># rest" "RDevBar \<notin># rest" "RMsixTable \<notin># rest" using r(2) by auto
  show "\<exists>t. PCIEV_exit s = Some (Ret ((), t)) \<and> others device_token t = others device_token s \<and>
      device_keep s t \<and> own device_token t \<subseteq># {#ROldBar#}"
    by (cases storage; cases found)
       (simp_all add: PCIEV_exit_def PCIEV_DISPATCHER_FINAL_def PCIEV_STORAGE_FINAL_def VDEV_FINALIZE_def boot_exec
          device_held_def own_def others_def device_keep_def disk_view_def r out)
qed

lemma device_registers:
  assumes pre: "boot_ok E s" and none: "own device_token s = {#}" and run: "device_start E p s = Some (Ret (None, t))"
    and one: "e_scan E = Some (Suc 0)"
  shows "b_bar t = zero_bar\<lparr>dev_cnt := disk_cnt (b_praid s)\<rparr>" and "b_old_bar t = b_bar t"
proof -
  from none have out: "r \<notin># held s" if "device_token r" for r using that by (auto simp: own_def)
  have page: "e_page E" using pre by (simp add: boot_ok_def)
  note ok = device_allocated [OF run] device_configured [OF run] device_attached [OF run _ one]
    device_threaded [OF run _ _ page]
  have "b_bar t = zero_bar\<lparr>dev_cnt := disk_cnt (b_praid s)\<rparr> \<and> b_old_bar t = b_bar t"
    using one run ok page out
    by (cases "e_storage E"; auto simp: device_exec attach_device_def init_pciev_bar_def PCIEV_DISPATCHER_INIT_def boot_exec)
  then show "b_bar t = zero_bar\<lparr>dev_cnt := disk_cnt (b_praid s)\<rparr>" and "b_old_bar t = b_bar t" by simp_all
qed

subsection \<open>The disks\<close>

fun disk_token :: "resource \<Rightarrow> bool" where
  "disk_token (RBdev b) = True"
| "disk_token _ = False"

definition disk_pre :: "boot_env \<Rightarrow> boot \<Rightarrow> bool" where
  "disk_pre E s \<longleftrightarrow> boot_ok E s \<and>
     unat (nr_nvme_disks (config (b_praid s))) \<le> length (nvme_minor (config (b_praid s)))"

definition disk_ready :: "boot \<Rightarrow> bool" where
  "disk_ready s \<longleftrightarrow> own disk_token s = mset (map RBdev (bdev (b_praid s))) + {#RBdev (bdev_verify (b_praid s))#} \<and>
     length (bdev (b_praid s)) = unat (disk_cnt (b_praid s))"

definition disk_keep :: "boot \<Rightarrow> boot \<Rightarrow> bool" where
  "disk_keep s t \<longleftrightarrow> b_bound t = b_bound s \<and> b_tasks t = b_tasks s"

lemma release_all_held:
  "mset rs \<subseteq># held s \<Longrightarrow> release_all rs s = Some (Ret ((), s\<lparr>held := held s - mset rs\<rparr>))"
proof (induction rs arbitrary: s)
  case Nil
  then show ?case by (simp add: ret_def)
next
  case (Cons r rs)
  then have r: "r \<in># held s" by (simp add: insert_subset_eq_iff)
  have "mset rs \<subseteq># held s - {#r#}" using Cons.prems by (simp add: insert_subset_eq_iff)
  with Cons.IH [of "s\<lparr>held := held s - {#r#}\<rparr>"] r show ?case
    by (simp add: before_def andthen_def release_def ret_def)
qed

lemma open_disks_held:
  "\<exists>ok os. open_disks E ma ms opened s =
     Some (Ret ((ok, opened @ os), s\<lparr>held := held s + mset (map RBdev os)\<rparr>)) \<and> (ok \<longrightarrow> length os = length ms)"
proof (induction ms arbitrary: opened s)
  case Nil
  then show ?case by (auto simp: ret_def intro: exI [of _ True])
next
  case (Cons mi ms)
  show ?case
  proof (cases "e_open E (MKDEV ma mi)")
    case None
    then show ?thesis by (intro exI [of _ False] exI [of _ "[]"]) (simp add: ret_def)
  next
    case (Some b)
    from Cons.IH [of "opened @ [b]" "s\<lparr>held := add_mset (RBdev b) (held s)\<rparr>"] obtain ok os where
      o: "open_disks E ma ms (opened @ [b]) (s\<lparr>held := add_mset (RBdev b) (held s)\<rparr>) =
        Some (Ret ((ok, opened @ b # os), s\<lparr>held := held s + mset (map RBdev (b # os))\<rparr>))" "ok \<longrightarrow> length os = length ms"
      by auto
    then show ?thesis using Some
      by (intro exI [of _ ok] exI [of _ "b # os"]) (simp add: before_def andthen_def acquire_def ret_def)
  qed
qed

definition disks_opened :: "boot \<Rightarrow> nat list \<Rightarrow> nat \<Rightarrow> boot" where
  "disks_opened s os b = s\<lparr>held := held s + mset (map RBdev os) + {#RBdev b#},
     b_praid := (b_praid s)\<lparr>disk_cnt := nr_nvme_disks (config (b_praid s)), bdev := os, bdev_verify := b\<rparr>\<rparr>"

lemma nvme_init_cases:
  "(\<exists>d. nvme_blkdev_init E s = Some (Ret (Some EBUSY, s\<lparr>b_praid := d\<rparr>))) \<or>
   (\<exists>os b. nvme_blkdev_init E s = Some (Ret (None, disks_opened s os b)) \<and>
     length os = min (unat (nr_nvme_disks (config (b_praid s)))) (length (nvme_minor (config (b_praid s)))))"
proof -
  let ?c = "config (b_praid s)"
  let ?s = "s\<lparr>b_praid := (b_praid s)\<lparr>disk_cnt := nr_nvme_disks ?c\<rparr>\<rparr>"
  obtain ok os where o: "open_disks E (nvme_major ?c) (take (unat (nr_nvme_disks ?c)) (nvme_minor ?c)) [] ?s =
     Some (Ret ((ok, os), ?s\<lparr>held := held ?s + mset (map RBdev os)\<rparr>))"
    "ok \<longrightarrow> length os = length (take (unat (nr_nvme_disks ?c)) (nvme_minor ?c))"
    using open_disks_held [of E "nvme_major ?c" "take (unat (nr_nvme_disks ?c)) (nvme_minor ?c)" "[]" ?s] by auto
  have put: "release_all (map RBdev (rev os)) u = Some (Ret ((), u\<lparr>held := M\<rparr>))"
    if "held u = M + mset (map RBdev os)" for u M
    using that by (subst release_all_held) (simp_all add: rev_map)
  show ?thesis
  proof (cases "ok \<and> e_open E (MKDEV (nvme_major ?c) (nvme_minor_verify ?c)) \<noteq> None")
    case True
    then obtain b where "e_open E (MKDEV (nvme_major ?c) (nvme_minor_verify ?c)) = Some b" by auto
    with o True show ?thesis
      by (intro disjI2 exI [of _ os] exI [of _ b])
         (simp add: nvme_blkdev_init_def Let_def andthen_def before_def modify_def acquire_def ret_def min.commute disks_opened_def)
  next
    case False
    with o show ?thesis
      by (auto simp: nvme_blkdev_init_def Let_def andthen_def before_def modify_def ret_def put)
  qed
qed

definition disk_start :: "boot_env \<Rightarrow> errno option act" where
  "disk_start E = with_error EBUSY (nvme_blkdev_init E)"

lemma disk_start_cases:
  assumes "disk_start E s = Some (Ret (r, t))"
  shows "(\<exists>d. r = Some EBUSY \<and> t = s\<lparr>b_praid := d\<rparr>) \<or>
    (\<exists>os b. r = None \<and> t = disks_opened s os b \<and>
     length os = min (unat (nr_nvme_disks (config (b_praid s)))) (length (nvme_minor (config (b_praid s)))))"
proof -
  from nvme_init_cases [of E s] show ?thesis
  proof
    assume "\<exists>d. nvme_blkdev_init E s = Some (Ret (Some EBUSY, s\<lparr>b_praid := d\<rparr>))"
    with assms show ?thesis by (auto simp: disk_start_def with_error_def andthen_def ret_def)
  next
    assume "\<exists>os b. nvme_blkdev_init E s = Some (Ret (None, disks_opened s os b)) \<and>
      length os = min (unat (nr_nvme_disks (config (b_praid s)))) (length (nvme_minor (config (b_praid s))))"
    then obtain os b where o: "nvme_blkdev_init E s = Some (Ret (None, disks_opened s os b))"
      "length os = min (unat (nr_nvme_disks (config (b_praid s)))) (length (nvme_minor (config (b_praid s))))" by blast
    with assms have "r = None" "t = disks_opened s os b" by (auto simp: disk_start_def with_error_def andthen_def ret_def)
    with o(2) show ?thesis by blast
  qed
qed

lemma filter_disk_tokens:
  "filter_mset disk_token (mset (map RBdev os)) = mset (map RBdev os)"
  "filter_mset (\<lambda>r. \<not> disk_token r) (mset (map RBdev os)) = {#}"
  by (induction os) auto

interpretation disks: lifecycle disk_token "disk_pre E" "disk_start E" nvme_blkdev_final disk_ready "{#}" "{#}" disk_keep
  for E
proof
  fix s r t
  assume "disk_start E s = Some (Ret (r, t))"
  from disk_start_cases [OF this] show "others disk_token t = others disk_token s \<and> disk_keep s t"
    by (auto simp: others_def disk_keep_def disks_opened_def filter_disk_tokens simp del: mset_map)
next
  fix s e t
  assume "own disk_token s = {#}" "disk_start E s = Some (Ret (Some e, t))"
  with disk_start_cases [OF this(2)] show "own disk_token t \<subseteq># {#}" by (auto simp: own_def)
next
  fix s t
  assume "disk_pre E s" "own disk_token s = {#}" "disk_start E s = Some (Ret (None, t))"
  with disk_start_cases [OF this(3)] show "disk_ready t"
    by (auto simp: own_def disk_ready_def disk_pre_def disks_opened_def filter_disk_tokens simp del: mset_map)
next
  fix s assume ready: "disk_ready s"
  then obtain rest where r: "held s = rest + (mset (map RBdev (bdev (b_praid s))) + {#RBdev (bdev_verify (b_praid s))#})"
    "\<forall>x. x \<in># rest \<longrightarrow> \<not> disk_token x"
    "filter_mset (\<lambda>r. \<not> disk_token r) rest = rest" "filter_mset disk_token rest = {#}"
    using own_form [of disk_token s] unfolding disk_ready_def by metis
  let ?t = "s\<lparr>held := rest\<rparr>"
  have all: "take (unat (disk_cnt (b_praid s))) (bdev (b_praid s)) = bdev (b_praid s)"
    using ready by (simp add: disk_ready_def)
  have "release (RBdev (bdev_verify (b_praid s))) s =
      Some (Ret ((), s\<lparr>held := rest + mset (map RBdev (bdev (b_praid s)))\<rparr>))"
    by (simp add: release_def ret_def r(1))
  then have "nvme_blkdev_final s = Some (Ret ((), ?t))"
    by (simp add: nvme_blkdev_final_def before_def andthen_def all release_all_held)
  then show "\<exists>t. nvme_blkdev_final s = Some (Ret ((), t)) \<and> others disk_token t = others disk_token s \<and>
      disk_keep s t \<and> own disk_token t \<subseteq># {#}"
    using r by (auto simp: others_def own_def disk_keep_def filter_disk_tokens simp del: mset_map)
qed

subsection \<open>The structure of the array and its configuration\<close>

fun praid_token :: "resource \<Rightarrow> bool" where
  "praid_token RPraidDev = True"
| "praid_token _ = False"

definition praid_start :: "boot_env \<Rightarrow> e820_map \<Rightarrow> params \<Rightarrow> errno option act" where
  "praid_start E e820 p = (if \<not> e_praid E then ret (Some EINVAL)
     else before (acquire RPraidDev) (before (modify (\<lambda>s. s\<lparr>b_praid := zero_praid\<rparr>))
       (andthen (\<lambda>s. lift_config (load_configs e820 p (config (b_praid s))) s) (\<lambda>ok.
          if \<not> ok then before (release RPraidDev) (ret (Some EINVAL)) else ret None))))"

definition praid_ready :: "boot \<Rightarrow> bool" where
  "praid_ready s \<longleftrightarrow> own praid_token s = {#RPraidDev#}"

definition praid_keep :: "boot \<Rightarrow> boot \<Rightarrow> bool" where
  "praid_keep s t \<longleftrightarrow> b_bound t = b_bound s \<and> b_tasks t = b_tasks s"

lemma praid_start_cases:
  assumes "praid_start E e820 p s = Some (Ret (r, t))"
  shows "(\<exists>e d. r = Some e \<and> t = s\<lparr>b_praid := d\<rparr>) \<or>
    (\<exists>c. r = None \<and> load_configs e820 p zero_config = Ret (Some c) \<and>
       t = s\<lparr>held := add_mset RPraidDev (held s), b_praid := zero_praid\<lparr>config := c\<rparr>\<rparr>)"
proof (cases "e_praid E")
  case False
  with assms have "r = Some EINVAL" and "t = s\<lparr>b_praid := b_praid s\<rparr>"
    by (auto simp: praid_start_def ret_def)
  then show ?thesis by blast
next
  case True
  have z: "config zero_praid = zero_config" by (simp add: zero_praid_def)
  show ?thesis
  proof (cases "load_configs e820 p zero_config")
    case (Crash e)
    with assms True show ?thesis by (simp add: praid_start_def boot_exec lift_config_def z)
  next
    case (Ret r')
    then show ?thesis using assms True by (cases r') (auto simp: praid_start_def boot_exec lift_config_def z)
  qed
qed

interpretation praid: lifecycle praid_token "boot_ok E" "praid_start E e820 p" "release RPraidDev" praid_ready
    "{#}" "{#}" praid_keep for E e820 p
proof
  fix s r t
  assume "praid_start E e820 p s = Some (Ret (r, t))"
  from praid_start_cases [OF this] show "others praid_token t = others praid_token s \<and> praid_keep s t"
    by (auto simp: others_def praid_keep_def)
next
  fix s e t
  assume "own praid_token s = {#}" "praid_start E e820 p s = Some (Ret (Some e, t))"
  with praid_start_cases [OF this(2)] show "own praid_token t \<subseteq># {#}" by (auto simp: own_def)
next
  fix s t
  assume "own praid_token s = {#}" "praid_start E e820 p s = Some (Ret (None, t))"
  with praid_start_cases [OF this(2)] show "praid_ready t" by (auto simp: own_def praid_ready_def)
next
  fix s assume "praid_ready s"
  then obtain rest where r: "held s = rest + {#RPraidDev#}" "\<forall>x. x \<in># rest \<longrightarrow> \<not> praid_token x"
    "filter_mset (\<lambda>r. \<not> praid_token r) rest = rest" "filter_mset praid_token rest = {#}"
    unfolding praid_ready_def by (rule own_form)
  show "\<exists>t. release RPraidDev s = Some (Ret ((), t)) \<and> others praid_token t = others praid_token s \<and>
      praid_keep s t \<and> own praid_token t \<subseteq># {#}"
    by (simp add: release_def ret_def r others_def own_def praid_keep_def)
qed

end
