(* ===== verification/Praid_Module.thy ===== *)
theory Praid_Module
  imports Praid_Components Praid_System
begin

text \<open>
  The module: \<open>vpcie_module_init\<close> is the ladder of its five components, so that what the
  components promise adds up to what loading and unloading the module leave behind. The
  removal of the driver with tasks in its queue, the opening of the disks and the driver's
  binding are stated on their own.
\<close>

section \<open>The ladder\<close>

definition same_disks :: "boot \<Rightarrow> boot \<Rightarrow> bool" where
  "same_disks s t \<longleftrightarrow> disk_view t = disk_view s"

interpretation top: ladder driver_token "driver_pre E" "pcievdrv_init E" "pcievdrv_exit E" driver_ready "{#}" "{#RPciEnabled#}" driver_keep
    block_token "\<lambda>_. True" "vpciedisk_init E" vpciedisk_exit block_ready "{#RGendisk#}" "{#}" block_keep same_disks for E
proof
  fix r assume "driver_token r" then show "\<not> block_token r" by (cases r) simp_all
next
  fix s t assume "driver_ready s" "own driver_token t = own driver_token s" "block_keep s t"
  then show "driver_ready t" by (simp add: driver_ready_def block_keep_def)
qed (simp_all add: driver_keep_def block_keep_def same_disks_def)


abbreviation upper_token :: "resource \<Rightarrow> bool" where
  "upper_token \<equiv> \<lambda>r. driver_token r \<or> block_token r"

interpretation upper: ladder device_token "boot_ok E" "device_start E p" PCIEV_exit device_ready "{#RStorageMap#}" "{#ROldBar#}" device_keep
    upper_token "driver_pre E" "nested (pcievdrv_init E) (pcievdrv_exit E) (vpciedisk_init E)"
    "before vpciedisk_exit (pcievdrv_exit E)" "\<lambda>s. driver_ready s \<and> block_ready s"
    "{#} + {#RPciEnabled#} + {#RGendisk#}" "{#RPciEnabled#} + {#}" same_disks same_disks for E p
proof
  fix r assume "device_token r" then show "\<not> upper_token r" by (cases r) simp_all
next
  fix s t assume a: "boot_ok E s" "own device_token s = {#}" "device_start E p s = Some (Ret (None, t))"
  from device_start_cases [OF this] a(1) show "driver_pre E t"
    by (auto simp: driver_pre_def boot_ok_def device_keep_def)
next
  fix s t assume "device_ready s" "own device_token t = own device_token s" "same_disks s t"
  then show "device_ready t" by (simp add: device_ready_def)
qed (simp_all add: device_keep_def same_disks_def)

interpretation lower: ladder disk_token "disk_pre E" "disk_start E" nvme_blkdev_final disk_ready "{#}" "{#}" disk_keep
    "\<lambda>r. device_token r \<or> upper_token r" "boot_ok E"
    "nested (device_start E p) PCIEV_exit (nested (pcievdrv_init E) (pcievdrv_exit E) (vpciedisk_init E))"
    "before (before vpciedisk_exit (pcievdrv_exit E)) PCIEV_exit"
    "\<lambda>s. device_ready s \<and> driver_ready s \<and> block_ready s"
    "{#RStorageMap#} + {#ROldBar#} + ({#} + {#RPciEnabled#} + {#RGendisk#})" "{#ROldBar#} + ({#RPciEnabled#} + {#})"
    same_disks "\<lambda>_ _. True" for E p
proof
  fix r assume "disk_token r" then show "\<not> (device_token r \<or> upper_token r)" by (cases r) simp_all
next
  fix s t assume "disk_pre E s" "own disk_token s = {#}" "disk_start E s = Some (Ret (None, t))"
  with disk_start_cases [OF this(3)] show "boot_ok E t"
    by (auto simp: disk_pre_def boot_ok_def disks_opened_def)
next
  fix s t assume "disk_ready s" "own disk_token t = own disk_token s" "same_disks s t"
  then show "disk_ready t" by (simp add: disk_ready_def same_disks_def disk_view_def)
qed simp_all

interpretation module: ladder praid_token "boot_ok E" "praid_start E e820 p" "release RPraidDev" praid_ready "{#}" "{#}" praid_keep
    "\<lambda>r. disk_token r \<or> device_token r \<or> upper_token r" "disk_pre E"
    "nested (disk_start E) nvme_blkdev_final (nested (device_start E p) PCIEV_exit
       (nested (pcievdrv_init E) (pcievdrv_exit E) (vpciedisk_init E)))"
    "before (before (before vpciedisk_exit (pcievdrv_exit E)) PCIEV_exit) nvme_blkdev_final"
    "\<lambda>s. disk_ready s \<and> device_ready s \<and> driver_ready s \<and> block_ready s"
    "{#} + {#} + ({#RStorageMap#} + {#ROldBar#} + ({#} + {#RPciEnabled#} + {#RGendisk#}))"
    "{#} + ({#ROldBar#} + ({#RPciEnabled#} + {#}))" "\<lambda>_ _. True" "\<lambda>_ _. True" for E e820 p
proof
  fix r assume "praid_token r" then show "\<not> (disk_token r \<or> device_token r \<or> upper_token r)" by (cases r) simp_all
next
  fix s t assume a: "boot_ok E s" "own praid_token s = {#}" "praid_start E e820 p s = Some (Ret (None, t))"
  then obtain c where c: "load_configs e820 p zero_config = Ret (Some c)"
    "t = s\<lparr>held := add_mset RPraidDev (held s), b_praid := zero_praid\<lparr>config := c\<rparr>\<rparr>"
    using praid_start_cases [OF a(3)] by auto
  with a(1) loaded_disks(1) [OF c(1)] show "disk_pre E t" by (simp add: disk_pre_def boot_ok_def)
next
  fix s t assume "praid_ready s" "own praid_token t = own praid_token s"
  then show "praid_ready t" by (simp add: praid_ready_def)
qed simp_all

lemma before_assoc: "before (before m n) k = before m (before n k)"
  by (rule ext) (simp add: before_def andthen_def bind_run_case split: option.split outcome.split)

lemma andthen_before: "andthen (before m n) f = before m (andthen n f)"
  by (rule ext) (simp add: before_def andthen_def bind_run_case split: option.split outcome.split)

lemma andthen_assoc: "andthen (andthen m f) g = andthen m (\<lambda>x. andthen (f x) g)"
  by (rule ext) (auto simp: andthen_def bind_run_case split: option.split outcome.split)

lemma andthen_ret: "andthen (ret x) f = f x"
  by (rule ext) (simp add: andthen_def ret_def)

lemma andthen_if: "andthen (if b then m else n) f = (if b then andthen m f else andthen n f)"
  by simp

lemma with_error_then:
  "andthen (with_error e m) (\<lambda>r. if r \<noteq> None then f r else g) = andthen m (\<lambda>r. if r \<noteq> None then f (Some e) else g)"
  unfolding with_error_def andthen_assoc andthen_ret by (intro arg_cong [of _ _ "andthen m"] ext) simp

lemma module_init_ladder:
  "vpcie_module_init E e820 p = nested (praid_start E e820 p) (release RPraidDev)
     (nested (disk_start E) nvme_blkdev_final (nested (device_start E p) PCIEV_exit
       (nested (pcievdrv_init E) (pcievdrv_exit E) (vpciedisk_init E))))"
  unfolding vpcie_module_init_def nested_def praid_start_def disk_start_def device_start_def with_error_then
  by (simp add: andthen_before before_assoc andthen_assoc andthen_ret andthen_if if_distrib [of "\<lambda>m. andthen m f" for f]
      cong: if_cong)

lemma module_exit_ladder:
  "vpcie_module_exit E = before (before (before (before vpciedisk_exit (pcievdrv_exit E)) PCIEV_exit) nvme_blkdev_final)
     (release RPraidDev)"
  by (simp add: vpcie_module_exit_def before_assoc)

section \<open>Concrete kernels\<close>

text \<open>A machine on which everything succeeds, and the module before it is loaded.\<close>

definition good_env :: boot_env where
  "good_env = \<lparr>e_praid = True, e_open = (\<lambda>d. Some (unat d)), e_vdev = True, e_virtdev = True,
     e_storage = True, e_scan = Some 1, e_devbar = True, e_oldbar = True, e_msix = True, e_page = True,
     e_thread = True, e_register = None, e_enable = True, e_irq = 11, e_regions = True, e_drvbar = True,
     e_workqueue = True, e_chunk = True, e_request_irq = None, e_blkdev = True, e_disk = True,
     e_queue = True, e_add_disk = True, e_interrupted = False, e_answers = True,
     e_kmap = True\<rparr>"

definition unloaded :: boot where
  "unloaded = \<lparr>held = {#}, b_praid = zero_praid, b_vdev = zero_pciev_config, b_devs = 0, b_bound = False,
     b_sem = 0, b_tasks = 0, b_misuse = 0, b_bar = zero_bar, b_old_bar = zero_bar, b_capacity = 0\<rparr>"

lemma example_tokens: "tokens ''3,0,1'' = [''3'', ''0'', ''1'']"
  by (simp add: tokens_eq(2) [of "''3,0,1''" "''3''" "''0,1''"] tokens_eq(2) [of "''0,1''" "''0''" "''1''"]
      tokens_eq(1) [of "''1''" "''1''"])

lemma example_numbers: "minor_numbers example_params = [3, 0, 1]"
  by (simp add: minor_numbers_def example_params_def example_tokens token_number_def is_digit_def)

lemma example_config:
  "load_configs reserved_map example_params zero_config = Ret (Some (loaded_config example_params))"
  by (simp add: load_configs_eq example_accepted example_numbers)

lemma example_disks:
  "nr_nvme_disks (loaded_config example_params) = 2" "nvme_major (loaded_config example_params) = 259"
  "nvme_minor_verify (loaded_config example_params) = 3"
  "nvme_minor (loaded_config example_params) = 0 # 1 # replicate 30 0"
  "size_nvme_disk (loaded_config example_params) = 0x20000000"
  by (simp_all add: loaded_config_def example_numbers zero_config_def) (simp_all add: example_params_def)

lemma MKDEV_examples: "MKDEV 259 3 = 0x10300003" "MKDEV 259 0 = 0x10300000" "MKDEV 259 1 = 0x10300001"
  by (simp_all add: MKDEV_def)

lemmas run_env = good_env_def unloaded_def example_config example_disks MKDEV_examples boot_exec

lemmas run_module = vpcie_module_init_def lift_config_def nvme_blkdev_init_def PCIEV_init_def
  VDEV_INIT_def PCIEV_STORAGE_INIT_def PCIEV_PCI_INIT_def create_pci_bus_def attach_device_def init_pciev_bar_def
  PCIEV_DISPATCHER_INIT_def pcievdrv_init_def pcievdrv_probe_def vpciedisk_init_def create_block_device_def
  del_gendisk_def

lemma zero_praid_config: "config zero_praid = zero_config"
  by (simp add: zero_praid_def)

lemma good_boot: "boot_ok (good_env\<lparr>e_irq := i, e_queue := q\<rparr>) unloaded" "boot_ok good_env unloaded" "held unloaded = {#}"
  by (simp_all add: boot_ok_def good_env_def unloaded_def)

section \<open>Loading and unloading\<close>

lemma init_failure:
  assumes "boot_ok E s" and "held s = {#}" and "vpcie_module_init E e820 p s = Some (Ret (Some e, t))"
  shows "held t \<subseteq># {#RStorageMap, ROldBar, RPciEnabled, RGendisk#}"
  using module.both.failed_start_releases [OF assms(1,2) assms(3) [unfolded module_init_ladder]]
  by (simp add: add_mset_commute)

text \<open>
  C19: If loading the module fails, at whichever of its steps, everything taken before is given
  back, with four exceptions: the mapping of the reserved memory, the copy of the registers, the
  PCI device that a failed probe leaves enabled, and the disk structure without a queue.
\<close>

theorem module_init_failure_releases:
  assumes "boot_ok E s" and "held s = {#}" and "vpcie_module_init E e820 p s = Some (Ret (Some e, t))"
  shows "held t \<subseteq># {#RStorageMap, ROldBar, RPciEnabled, RGendisk#}"
  using assms by (rule init_failure)

lemma module_init_failure_releases_witness:
  "\<exists>t. vpcie_module_init (good_env\<lparr>e_irq := - 1, e_queue := False\<rparr>) reserved_map example_params unloaded =
       Some (Ret (Some ENOMEM, t)) \<and>
     held t = {#ROldBar, RPciEnabled, RGendisk#} \<and> held t \<subseteq># {#RStorageMap, ROldBar, RPciEnabled, RGendisk#}"
proof -
  obtain t where t: "vpcie_module_init (good_env\<lparr>e_irq := - 1, e_queue := False\<rparr>) reserved_map example_params unloaded =
       Some (Ret (Some ENOMEM, t))" and "held t = {#ROldBar, RPciEnabled, RGendisk#}"
    by (simp add: run_module run_env zero_praid_config Let_def pcievdrv_exit_def PCIEV_exit_def VDEV_FINALIZE_def
        PCIEV_DISPATCHER_FINAL_def PCIEV_STORAGE_FINAL_def nvme_blkdev_final_def)
  with module_init_failure_releases [OF good_boot(1) good_boot(3) t] t show ?thesis by blast
qed

text \<open>
  C20: A module that has been loaded can be unloaded, provided no task is left in the queue:
  \<open>vpcie_module_exit\<close> gives back everything that is held and nothing that is not, with two
  exceptions: the copy of the registers, and the enabled device when the driver is not bound.
\<close>

theorem module_init_then_exit:
  assumes "boot_ok E s" and "held s = {#}" and "vpcie_module_init E e820 p s = Some (Ret (None, t))"
  shows "\<exists>u. vpcie_module_exit E t = Some (Ret ((), u)) \<and> held u \<subseteq># {#ROldBar, RPciEnabled#}"
  using module.both.start_then_stop [OF assms(1,2) assms(3) [unfolded module_init_ladder]]
  by (simp add: module_exit_ladder add_mset_commute [of RPciEnabled ROldBar])

lemma module_init_then_exit_witness:
  "\<exists>t u. vpcie_module_init good_env reserved_map example_params unloaded = Some (Ret (None, t)) \<and>
     vpcie_module_exit good_env t = Some (Ret ((), u)) \<and> held u \<subseteq># {#ROldBar, RPciEnabled#}"
proof -
  obtain t where t: "vpcie_module_init good_env reserved_map example_params unloaded = Some (Ret (None, t))"
    by (simp add: run_module run_env zero_praid_config Let_def)
  from module_init_then_exit [OF good_boot(2) good_boot(3) t] t show ?thesis by blast
qed

lemma nested_good:
  assumes "nested start1 stop1 start2 s = Some (Ret (None, t))"
  obtains u where "start1 s = Some (Ret (None, u))" and "start2 u = Some (Ret (None, t))"
  using assms by (cases rule: nested_cases) auto

definition probe_succeeds :: "boot_env \<Rightarrow> bool" where
  "probe_succeeds E \<longleftrightarrow> e_enable E \<and> 0 \<le> e_irq E \<and> e_regions E \<and> e_drvbar E \<and> e_chunk E \<and> e_request_irq E = None"

lemma probe_bound:
  assumes "e_workqueue E" and "\<not> b_bound s" and "pcievdrv_probe E s = Some (Ret (r, t))"
  shows "b_bound t \<longleftrightarrow> probe_succeeds E"
  using assms by (auto simp: pcievdrv_probe_def boot_exec probe_succeeds_def split: run_splits)

lemma driver_bound_iff:
  assumes "driver_pre E s" and "pcievdrv_init E s = Some (Ret (None, t))"
  shows "b_bound t \<longleftrightarrow> b_devs s = 1 \<and> probe_succeeds E"
proof -
  have pre: "e_workqueue E" "\<not> b_bound s" "b_devs s = 0 \<or> b_devs s = Suc 0"
    using assms(1) by (auto simp: driver_pre_def boot_ok_def)
  let ?s = "s\<lparr>held := add_mset RDriver (held s)\<rparr>"
  from pre(3) show ?thesis
  proof
    assume "b_devs s = 0"
    with assms(2) pre(2) show ?thesis by (auto simp: pcievdrv_init_def boot_exec split: run_splits)
  next
    assume one: "b_devs s = Suc 0"
    with assms(2) obtain r where "pcievdrv_probe E ?s = Some (Ret (r, t))"
      by (auto simp: pcievdrv_init_def boot_exec bind_run_case split: run_splits)
    with probe_bound [OF pre(1), of ?s] pre(2) one show ?thesis by simp
  qed
qed

text \<open>The stages of a successful load, with what holds between them.\<close>

lemma loaded_stages:
  assumes "boot_ok E s" and "held s = {#}" and "vpcie_module_init E e820 p s = Some (Ret (None, t))"
  obtains a b c d where
    "praid_start E e820 p s = Some (Ret (None, a))"
    "disk_pre E a" "disk_start E a = Some (Ret (None, b))"
    "boot_ok E b" "own device_token b = {#}" "device_start E p b = Some (Ret (None, c))"
    "driver_pre E c" "pcievdrv_init E c = Some (Ret (None, d))" "driver_keep c d" "block_keep d t"
proof -
  obtain a where a: "praid_start E e820 p s = Some (Ret (None, a))" and
    ra: "nested (disk_start E) nvme_blkdev_final (nested (device_start E p) PCIEV_exit
       (nested (pcievdrv_init E) (pcievdrv_exit E) (vpciedisk_init E))) a = Some (Ret (None, t))"
    using assms(3) unfolding module_init_ladder by (rule nested_good)
  from ra obtain b where b: "disk_start E a = Some (Ret (None, b))" and
    rb: "nested (device_start E p) PCIEV_exit (nested (pcievdrv_init E) (pcievdrv_exit E) (vpciedisk_init E)) b =
      Some (Ret (None, t))" by (rule nested_good)
  from rb obtain c where c: "device_start E p b = Some (Ret (None, c))" and
    rc: "nested (pcievdrv_init E) (pcievdrv_exit E) (vpciedisk_init E) c = Some (Ret (None, t))" by (rule nested_good)
  from rc obtain d where d: "pcievdrv_init E c = Some (Ret (None, d))" and t: "vpciedisk_init E d = Some (Ret (None, t))"
    by (rule nested_good)
  have none: "own P s = {#}" for P using assms(2) by (simp add: own_def)
  note A = module.first_started [OF assms(1) none a]
  note B = lower.first_started [OF A(2) A(3) b]
  note C = upper.first_started [OF B(2) B(3) c]
  note D = top.first_started [OF C(2) C(3) d]
  have "own device_token b = {#}" using B(3) by (simp add: upper.own_both)
  moreover have "block_keep d t" using block.start_frame [OF _ D(3) t] by simp
  ultimately show thesis using that a A(2) b B(2) c C(2) d D(5) by blast
qed

text \<open>
  Loading the module succeeds whether or not the driver could be bound to the device: after
  a successful load it is bound if and only if the bus had the device and every call of its
  probe function succeeded. Without it, verification never gets a worker's request.
\<close>

theorem module_init_ignores_probe:
  assumes "boot_ok E s" and "held s = {#}" and "vpcie_module_init E e820 p s = Some (Ret (None, t))"
  shows "b_bound t \<longleftrightarrow> e_scan E = Some 1 \<and> probe_succeeds E"
  using assms
proof (rule loaded_stages)
  fix a b c d
  assume dev: "boot_ok E b" "own device_token b = {#}" "device_start E p b = Some (Ret (None, c))"
    and drv: "driver_pre E c" "pcievdrv_init E c = Some (Ret (None, d))" and blk: "block_keep d t"
  have "e_scan E = Some (b_devs c)" using device_start_cases [OF dev] by simp
  then show ?thesis using driver_bound_iff [OF drv] blk by (simp add: block_keep_def)
qed

lemma module_init_ignores_probe_witness:
  "\<exists>t. vpcie_module_init (good_env\<lparr>e_irq := - 1\<rparr>) reserved_map example_params unloaded = Some (Ret (None, t)) \<and> \<not> b_bound t"
proof -
  obtain t where t: "vpcie_module_init (good_env\<lparr>e_irq := - 1\<rparr>) reserved_map example_params unloaded = Some (Ret (None, t))"
    by (simp add: run_module run_env zero_praid_config Let_def)
  moreover have "boot_ok (good_env\<lparr>e_irq := - 1\<rparr>) unloaded" by (simp add: boot_ok_def good_env_def unloaded_def)
  ultimately have "b_bound t \<longleftrightarrow> e_scan (good_env\<lparr>e_irq := - 1\<rparr>) = Some 1 \<and> probe_succeeds (good_env\<lparr>e_irq := - 1\<rparr>)"
    using module_init_ignores_probe [OF _ good_boot(3) t] by blast
  with t show ?thesis by (simp add: probe_succeeds_def good_env_def)
qed

section \<open>The disks\<close>

definition data_devices :: "praid_config \<Rightarrow> u32 list" where
  "data_devices c = map (MKDEV (nvme_major c)) (take (unat (nr_nvme_disks c)) (nvme_minor c))"

definition parity_device :: "praid_config \<Rightarrow> u32" where
  "parity_device c = MKDEV (nvme_major c) (nvme_minor_verify c)"

lemma open_disks_good:
  "open_disks E ma ms opened s =
     (let ds = map (MKDEV ma) ms; os = map (the \<circ> e_open E) (takeWhile (\<lambda>d. e_open E d \<noteq> None) ds)
      in Some (Ret ((list_all (\<lambda>d. e_open E d \<noteq> None) ds, opened @ os), s\<lparr>held := held s + mset (map RBdev os)\<rparr>)))"
proof (induction ms arbitrary: opened s)
  case Nil
  then show ?case by (simp add: ret_def)
next
  case (Cons mi ms)
  then show ?case by (auto simp: boot_exec Let_def split: option.split)
qed

lemma nvme_init_result:
  "\<exists>d. nvme_blkdev_init E s = Some (Ret
     (if list_all (\<lambda>n. e_open E n \<noteq> None) (parity_device (config (b_praid s)) # data_devices (config (b_praid s)))
      then (None, disks_opened s (map (the \<circ> e_open E) (data_devices (config (b_praid s))))
                    (the (e_open E (parity_device (config (b_praid s))))))
      else (Some EBUSY, s\<lparr>b_praid := d\<rparr>)))"
proof -
  let ?c = "config (b_praid s)"
  let ?ds = "data_devices ?c" and ?v = "parity_device ?c"
  have put: "release_all (map RBdev (rev os)) u = Some (Ret ((), u\<lparr>held := M\<rparr>))"
    if "held u = M + mset (map RBdev os)" for u M os
    using that by (subst release_all_held) (simp_all add: rev_map)
  have all: "takeWhile (\<lambda>d. e_open E d \<noteq> None) ds = ds" if "list_all (\<lambda>d. e_open E d \<noteq> None) ds" for ds
    using that by (simp add: list_all_iff takeWhile_eq_all_conv)
  show ?thesis
  proof (cases "list_all (\<lambda>d. e_open E d \<noteq> None) ?ds")
    case True
    note a = all [OF True]
    show ?thesis
      using True by (cases "e_open E ?v")
        (auto simp: nvme_blkdev_init_def open_disks_good Let_def andthen_def before_def modify_def acquire_def ret_def
          put a disks_opened_def data_devices_def [symmetric] parity_device_def [symmetric] simp del: not_None_eq map_map)
  next
    case False
    then show ?thesis
      by (auto simp: nvme_blkdev_init_def open_disks_good Let_def andthen_def before_def modify_def ret_def put
          data_devices_def [symmetric]
          simp del: map_map)
  qed
qed

text \<open>
  Opening the disks is all or nothing. If every device number, the data disks' and the
  parity disk's, has a block device, all are open afterwards, in order; otherwise the call fails with \<open>EBUSY\<close> and what had been opened is closed.
\<close>

theorem disks_all_or_nothing:
  "\<exists>d. nvme_blkdev_init E s = Some (Ret
     (if list_all (\<lambda>n. e_open E n \<noteq> None) (parity_device (config (b_praid s)) # data_devices (config (b_praid s)))
      then (None, disks_opened s (map (the \<circ> e_open E) (data_devices (config (b_praid s))))
                    (the (e_open E (parity_device (config (b_praid s))))))
      else (Some EBUSY, s\<lparr>b_praid := d\<rparr>)))"
  by (rule nvme_init_result)

lemma disk_start_opened:
  assumes "disk_start E s = Some (Ret (None, t))"
  shows "t = disks_opened s (map (the \<circ> e_open E) (data_devices (config (b_praid s))))
      (the (e_open E (parity_device (config (b_praid s)))))" and
    "\<forall>n \<in> set (data_devices (config (b_praid s))). e_open E n \<noteq> None" and
    "e_open E (parity_device (config (b_praid s))) \<noteq> None"
proof -
  obtain d where d: "nvme_blkdev_init E s = Some (Ret
     (if list_all (\<lambda>n. e_open E n \<noteq> None) (parity_device (config (b_praid s)) # data_devices (config (b_praid s)))
      then (None, disks_opened s (map (the \<circ> e_open E) (data_devices (config (b_praid s))))
                    (the (e_open E (parity_device (config (b_praid s))))))
      else (Some EBUSY, s\<lparr>b_praid := d\<rparr>)))" using nvme_init_result [of E s] by blast
  have "list_all (\<lambda>n. e_open E n \<noteq> None) (parity_device (config (b_praid s)) # data_devices (config (b_praid s)))"
    by (rule ccontr) (use assms d in \<open>simp only: disk_start_def with_error_def andthen_def if_False, simp add: ret_def\<close>)
  with assms d show "t = disks_opened s (map (the \<circ> e_open E) (data_devices (config (b_praid s))))
      (the (e_open E (parity_device (config (b_praid s)))))"
    and "\<forall>n \<in> set (data_devices (config (b_praid s))). e_open E n \<noteq> None"
    and "e_open E (parity_device (config (b_praid s))) \<noteq> None"
    by (simp_all add: disk_start_def with_error_def andthen_def ret_def list_all_iff)
qed

section \<open>The array it starts\<close>

lemma driver_bound_sem:
  assumes "driver_pre E s" and "pcievdrv_init E s = Some (Ret (None, t))" and "b_bound t"
  shows "b_sem t = 1"
proof -
  have pre: "e_workqueue E" "\<not> b_bound s" "b_devs s = Suc 0"
    using assms(1) driver_bound_iff [OF assms(1,2)] assms(3) by (auto simp: driver_pre_def boot_ok_def)
  let ?s = "s\<lparr>held := add_mset RDriver (held s)\<rparr>"
  obtain r where "pcievdrv_probe E ?s = Some (Ret (r, t))"
    using assms(2) pre(3) by (auto simp: pcievdrv_init_def boot_exec bind_run_case split: run_splits)
  from probe_result [OF pre(1) this] assms(3) pre(2) show ?thesis by auto
qed

text \<open>
  The parts at work (\<open>Praid_System\<close>) as the loaded module leaves them, with whatever the memory
  and the disks hold.
\<close>

definition system_of :: "boot \<Rightarrow> heap \<Rightarrow> bytes \<Rightarrow> bytes \<Rightarrow> (nat \<Rightarrow> bytes) \<Rightarrow> sys" where
  "system_of t h chunks parity disks =
     \<lparr>s_drv = \<lparr>heap = h, ticks = 0, workqueue = [], work_structs = b_tasks t, sem = b_sem t, submitted = [],
        bio_puts = [], bio_chains = [], io_errors = []\<rparr>,
      s_workers = [], s_mmio = \<lparr>mm_bar = b_bar t, mm_chunks = chunks\<rparr>, s_pc = DevIdle,
      s_dev = \<lparr>d_old_bar = b_old_bar t, d_msix_enabled = False, d_sts_is = False, d_irqs = []\<rparr>,
      s_parity = parity, s_disks = disks, s_posts = 0\<rparr>"

lemma disks_of_config:
  assumes "length (minor_numbers p) \<le> 32" and "config D = loaded_config p"
    and "disk_cnt D = nr_nvme_disks (config D)" and "length (bdev D) = unat (disk_cnt D)"
  shows "disks_ok D \<longleftrightarrow> 2 \<le> length (minor_numbers p)"
proof -
  have "unat (disk_cnt D) = length (minor_numbers p) - 1"
    using assms by (simp add: loaded_config_def unat_small_count del: One_nat_def)
  moreover have "disk_cnt D = 0 \<longleftrightarrow> unat (disk_cnt D) = 0" by (simp add: unat_eq_0)
  ultimately show ?thesis using assms(4) by (auto simp: disks_ok_def)
qed

lemma loaded_array:
  assumes "boot_ok E s" and "held s = {#}" and "vpcie_module_init E e820 p s = Some (Ret (None, t))" and "b_bound t"
  shows "sys_start (system_of t h chunks parity disks)"
    and "dev_cnt (b_bar t) = disk_cnt (b_praid t)" and "b_old_bar t = b_bar t"
    and "disks_ok (b_praid t) \<longleftrightarrow> 2 \<le> length (minor_numbers p)"
    and "data_disks (b_praid t) = map (the \<circ> e_open E) (data_devices (loaded_config p))"
    and "\<forall>n \<in> set (data_devices (loaded_config p)). e_open E n \<noteq> None"
    and "e_open E (parity_device (loaded_config p)) = Some (bdev_verify (b_praid t))"
proof -
  obtain a b c d where pr: "praid_start E e820 p s = Some (Ret (None, a))"
    and dsk: "disk_pre E a" "disk_start E a = Some (Ret (None, b))"
    and dev: "boot_ok E b" "own device_token b = {#}" "device_start E p b = Some (Ret (None, c))"
    and drv: "driver_pre E c" "pcievdrv_init E c = Some (Ret (None, d))"
    and keep: "driver_keep c d" "block_keep d t"
    using loaded_stages [OF assms(1-3)] by blast
  have bound: "b_bound d" using keep(2) assms(4) by (simp add: block_keep_def)
  have "e_scan E = Some (b_devs c)" "device_keep b c" using device_start_cases [OF dev] by simp_all
  then have "e_scan E = Some (Suc 0)" using driver_bound_iff [OF drv] bound by simp
  note regs = device_registers [OF dev this]
  have kept: "b_bar t = b_bar c" "b_old_bar t = b_old_bar c" "b_sem t = 1" "disk_view t = disk_view b"
    using keep driver_bound_sem [OF drv bound] \<open>device_keep b c\<close>
    by (simp_all add: driver_keep_def block_keep_def device_keep_def regs_view_def)
  obtain cf where cf: "load_configs e820 p zero_config = Ret (Some cf)" "config (b_praid a) = cf"
    using praid_start_cases [OF pr] by (auto simp: zero_praid_def)
  then have c: "cf = loaded_config p" and few: "length (minor_numbers p) \<le> 32"
    by (auto simp: load_configs_eq split: if_splits)
  note open_b = disk_start_opened [OF dsk(2), unfolded cf(2) c]
  have "length (data_devices cf) = unat (nr_nvme_disks cf)"
    using dsk(1) cf(2) by (simp add: disk_pre_def data_devices_def)
  then have len: "length (bdev (b_praid b)) = unat (disk_cnt (b_praid b))"
    using cf(2) by (simp add: open_b(1) disks_opened_def c)
  have "disks_ok (b_praid b) \<longleftrightarrow> 2 \<le> length (minor_numbers p)"
    using few len cf c by (intro disks_of_config) (simp_all add: open_b(1) disks_opened_def)
  moreover have same: "disk_cnt (b_praid t) = disk_cnt (b_praid b)" "bdev (b_praid t) = bdev (b_praid b)"
      "bdev_verify (b_praid t) = bdev_verify (b_praid b)"
    using kept(4) by (simp_all add: disk_view_def)
  ultimately show "disks_ok (b_praid t) \<longleftrightarrow> 2 \<le> length (minor_numbers p)" by (simp add: disks_ok_def)
  show "sys_start (system_of t h chunks parity disks)" "dev_cnt (b_bar t) = disk_cnt (b_praid t)" "b_old_bar t = b_bar t"
    using kept(1-3) regs same(1) by (simp_all add: sys_start_def system_of_def zero_bar_def)
  show "data_disks (b_praid t) = map (the \<circ> e_open E) (data_devices (loaded_config p))"
    using len by (simp add: data_disks_def same) (simp add: open_b(1) disks_opened_def)
  show "\<forall>n \<in> set (data_devices (loaded_config p)). e_open E n \<noteq> None" by (rule open_b(2))
  show "e_open E (parity_device (loaded_config p)) = Some (bdev_verify (b_praid t))"
    using open_b(3) by (auto simp: same(3)) (simp add: open_b(1) disks_opened_def)
qed

text \<open>
  C18: From loading to running. When the module has been loaded and its driver is bound, its
  parts are in a start state of the array: the semaphore is free, the registers count no
  request, and the device's copy of the number of disks is the register's. The array can serve
  requests if and only if at least two minor numbers were given.
\<close>

theorem loaded_module_starts_array:
  assumes "boot_ok E s" and "held s = {#}" and "vpcie_module_init E e820 p s = Some (Ret (None, t))" and "b_bound t"
  shows "sys_start (system_of t h chunks parity disks) \<and>
    dev_cnt (b_bar t) = disk_cnt (b_praid t) \<and> b_old_bar t = b_bar t \<and>
    (disks_ok (b_praid t) \<longleftrightarrow> 2 \<le> length (minor_numbers p))"
  using loaded_array [OF assms] by simp

lemma loaded_module_starts_array_witness:
  "\<exists>t. vpcie_module_init good_env reserved_map example_params unloaded = Some (Ret (None, t)) \<and> b_bound t \<and>
     sys_start (system_of t [] (\<lambda>_. 0) (\<lambda>_. 0) (\<lambda>_ _. 0)) \<and> disks_ok (b_praid t)"
proof -
  obtain t where t: "vpcie_module_init good_env reserved_map example_params unloaded = Some (Ret (None, t))" "b_bound t"
    by (simp add: run_module run_env zero_praid_config Let_def)
  from loaded_module_starts_array [OF good_boot(2) good_boot(3) t] t show ?thesis
    by (auto simp: example_numbers)
qed

section \<open>Its parts\<close>

lemma remove_result:
  assumes "own driver_token s = driver_bound"
  shows "pcievdrv_remove E s =
    (if b_tasks s = 0 \<or> b_sem s = 0 \<and> e_interrupted E
     then Some (Ret ((), s\<lparr>held := add_mset RDriver (others driver_token s), b_tasks := 0, b_bound := False\<rparr>))
     else if 0 < b_sem s then Some (Crash BadPointer) else None)"
proof -
  obtain rest where r: "held s = rest + driver_bound" "\<forall>x. x \<in># rest \<longrightarrow> \<not> driver_token x"
    "filter_mset (\<lambda>r. \<not> driver_token r) rest = rest" "filter_mset driver_token rest = {#}"
    using assms by (rule own_form)
  let ?u = "s\<lparr>held := rest + {#RDriver, RPciEnabled, RRegions, RWorkqueue#}\<rparr>"
  have free: "release_all [RIrq, RChunkMap, RDrvBar] s = Some (Ret ((), ?u))"
    by (subst release_all_held) (simp_all add: r driver_bound_def)
  have out: "RIrq \<notin># rest" "RDrvBar \<notin># rest" using r(2) by auto
  have tasks: "run_tasks E n ?u = (if n = 0 \<or> b_sem s = 0 \<and> e_interrupted E then Some (Ret ((), ?u\<lparr>b_tasks := 0\<rparr>))
      else if 0 < b_sem s then Some (Crash BadPointer) else None)" for n
    by (induction n) (simp_all add: run_task_def boot_exec out)
  have others: "others driver_token s = rest" by (simp add: others_def r driver_bound_def)
  have "release_all [RWorkqueue, RRegions, RPciEnabled] (?u\<lparr>b_tasks := 0\<rparr>) =
      Some (Ret ((), s\<lparr>held := add_mset RDriver rest, b_tasks := 0\<rparr>))"
    by (subst release_all_held) (simp_all add: r)
  then show ?thesis
    by (simp add: pcievdrv_remove_def before_def andthen_def free flush_workqueue_def tasks [simplified] others modify_def ret_def
        del: release_all.simps)
qed

text \<open>
  C32: Unbinding the driver while tasks are queued. The queue is flushed after the interrupt, the
  calculation area and the registers are gone: the removal gives everything back if no task is
  left (or a signal drops those that wait), it is a fault if a task can take the semaphore, and
  it never returns if the tasks wait for the semaphore.
\<close>

theorem remove_with_pending_tasks:
  assumes "own driver_token s = driver_bound"
  shows "pcievdrv_remove E s =
    (if b_tasks s = 0 \<or> b_sem s = 0 \<and> e_interrupted E
     then Some (Ret ((), s\<lparr>held := add_mset RDriver (others driver_token s), b_tasks := 0, b_bound := False\<rparr>))
     else if 0 < b_sem s then Some (Crash BadPointer) else None)"
  using assms by (rule remove_result)

definition bound_with_task :: "nat \<Rightarrow> boot" where
  "bound_with_task n = unloaded\<lparr>held := driver_bound, b_bound := True, b_sem := n, b_tasks := 1\<rparr>"

lemma remove_with_pending_tasks_witness:
  "own driver_token (bound_with_task 1) = driver_bound \<and> own driver_token (bound_with_task 0) = driver_bound \<and>
   pcievdrv_remove good_env (bound_with_task 1) = Some (Crash BadPointer) \<and>
   pcievdrv_remove good_env (bound_with_task 0) = None"
proof -
  have own: "own driver_token (bound_with_task n) = driver_bound" for n
    by (simp add: bound_with_task_def own_def driver_bound_def)
  show ?thesis
    using remove_with_pending_tasks [OF own, of good_env 1] remove_with_pending_tasks [OF own, of good_env 0] own
    by (simp add: bound_with_task_def good_env_def unloaded_def)
qed

text \<open>
  If the disk cannot be added it is deleted all the same, although it never was added, before
  its structure is cleaned up.
\<close>

lemma failed_add_disk_deletes:
  assumes "e_blkdev E" "e_disk E" "e_queue E" "\<not> e_add_disk E" and "RDisk \<notin># held s"
  shows "\<exists>t. vpciedisk_init E s = Some (Ret (Some ENOMEM, t)) \<and> held t = held s \<and> b_misuse t = Suc (b_misuse s)"
  using assms by (simp add: vpciedisk_init_def create_block_device_def del_gendisk_def boot_exec)

end
