(* ===== verification/Praid_Posting.thy ===== *)
theory Praid_Posting
  imports Praid_Array
begin

text \<open>
  The worker store by store. \<open>Praid_System\<close> lets a worker post its request in one step; here
  \<open>verify_work_post\<close> (\<open>pciedrv.c\<close>, lines 42 to 57) is taken apart into single stores, between
  which the device thread and the interrupt handler may run, and every outcome of the
  interleaving is shown to be one of the system with the single step.
\<close>

section \<open>The worker in steps\<close>

datatype post_pc = PostOld | PostNew | PostFailed | PostOffset | PostSize | PostSector | PostNum
  | PostFreeNew | PostFreeOld | PostDone

definition bar_update :: "(pciev_bar \<Rightarrow> pciev_bar) \<Rightarrow> mmio \<Rightarrow> mmio" where
  "bar_update f mm = mm\<lparr>mm_bar := f (mm_bar mm)\<rparr>"

fun post_step :: "kernel \<Rightarrow> verify_work \<Rightarrow> post_pc \<Rightarrow> drv \<times> mmio \<Rightarrow> (post_pc \<times> drv \<times> mmio) outcome" where
  "post_step K w PostOld (st, mm) = bind_outcome
     (copy_page_to_buffer K (w_page_old w) (PTR_BAR_TO_CHUNK_O 0) (w_offset w) (w_size w) st (mm_chunks mm))
     (\<lambda>(ok, st, m). Ret (if ok then PostNew else PostFailed, st, mm\<lparr>mm_chunks := m\<rparr>))"
| "post_step K w PostNew (st, mm) = bind_outcome
     (copy_page_to_buffer K (w_page_new w) (PTR_BAR_TO_CHUNK_N 0) (w_offset w) (w_size w) st (mm_chunks mm))
     (\<lambda>(ok, st, m). Ret (if ok then PostOffset else PostFailed, st, mm\<lparr>mm_chunks := m\<rparr>))"
| "post_step K w PostFailed (st, mm) = Ret (PostOffset, up st, mm)"
| "post_step K w PostOffset (st, mm) = Ret (PostSize, st, bar_update (\<lambda>b. b\<lparr>io_offset := w_offset w\<rparr>) mm)"
| "post_step K w PostSize (st, mm) = Ret (PostSector, st, bar_update (\<lambda>b. b\<lparr>io_size := w_size w\<rparr>) mm)"
| "post_step K w PostSector (st, mm) = Ret (PostNum, st, bar_update (\<lambda>b. b\<lparr>io_sector_sta := w_num_sector w\<rparr>) mm)"
| "post_step K w PostNum (st, mm) = Ret (PostFreeNew, st, bar_update (\<lambda>b. b\<lparr>io_num := io_num b + 1\<rparr>) mm)"
| "post_step K w PostFreeNew (st, mm) = bind_outcome (free_page (w_page_new w) st) (\<lambda>st. Ret (PostFreeOld, st, mm))"
| "post_step K w PostFreeOld (st, mm) = bind_outcome (free_page (w_page_old w) st) (\<lambda>st. Ret (PostDone, st, mm))"
| "post_step K w PostDone (st, mm) = Ret (PostDone, st, mm)"

text \<open>How far a step is from the end, and all the steps that are left, without interruption.\<close>

fun post_rank :: "post_pc \<Rightarrow> nat" where
  "post_rank PostOld = 9"
| "post_rank PostNew = 8"
| "post_rank PostFailed = 7"
| "post_rank PostOffset = 6"
| "post_rank PostSize = 5"
| "post_rank PostSector = 4"
| "post_rank PostNum = 3"
| "post_rank PostFreeNew = 2"
| "post_rank PostFreeOld = 1"
| "post_rank PostDone = 0"

lemma post_step_rank:
  "post_step K w pc c = Ret (pc', c') \<Longrightarrow> pc \<noteq> PostDone \<Longrightarrow> post_rank pc' < post_rank pc"
  by (cases "(K, w, pc, c)" rule: post_step.cases) (auto simp: bind_outcome_Ret_iff split: if_splits)

fun post_run :: "nat \<Rightarrow> kernel \<Rightarrow> verify_work \<Rightarrow> post_pc \<Rightarrow> drv \<times> mmio \<Rightarrow> (post_pc \<times> drv \<times> mmio) outcome" where
  "post_run 0 K w pc c = Ret (pc, c)"
| "post_run (Suc n) K w pc c = bind_outcome (post_step K w pc c) (\<lambda>(pc, c). post_run n K w pc c)"

definition post_rest :: "kernel \<Rightarrow> verify_work \<Rightarrow> post_pc \<Rightarrow> drv \<times> mmio \<Rightarrow> (drv \<times> mmio) outcome" where
  "post_rest K w pc c = bind_outcome (post_run (post_rank pc) K w pc c) (\<lambda>(_, c). Ret c)"

lemma post_run_done: "post_run n K w PostDone c = Ret (PostDone, c)"
  by (induction n) (cases c; simp)+

lemma post_run_more: "post_rank pc \<le> n \<Longrightarrow> post_run n K w pc c = post_run (post_rank pc) K w pc c"
proof (induction n arbitrary: pc c rule: less_induct)
  case (less n)
  show ?case
  proof (cases "pc = PostDone")
    case True
    then show ?thesis by (simp add: post_run_done)
  next
    case False
    then obtain k where k: "post_rank pc = Suc k" by (cases pc) auto
    with less.prems obtain m where m: "n = Suc m" "k \<le> m" by (cases n) auto
    have "post_run m K w pc' c' = post_run k K w pc' c'" if "post_step K w pc c = Ret (pc', c')" for pc' c'
    proof -
      have r: "post_rank pc' \<le> k" using post_step_rank [OF that False] k by simp
      show ?thesis using less.IH [of m pc' c'] less.IH [of k pc' c'] r m k less.prems by simp
    qed
    then show ?thesis by (cases "post_step K w pc c") (auto simp: k m(1))
  qed
qed

lemma post_rest_step:
  "pc \<noteq> PostDone \<Longrightarrow> post_rest K w pc c = bind_outcome (post_step K w pc c) (\<lambda>(pc, c). post_rest K w pc c)"
proof -
  assume pc: "pc \<noteq> PostDone"
  then obtain k where k: "post_rank pc = Suc k" by (cases pc) auto
  have "post_run k K w pc' c' = post_run (post_rank pc') K w pc' c'" if "post_step K w pc c = Ret (pc', c')" for pc' c'
    using post_step_rank [OF that pc] k by (intro post_run_more) simp
  then show ?thesis by (cases "post_step K w pc c") (auto simp: post_rest_def k)
qed

lemma post_rest_done [simp]: "post_rest K w PostDone c = Ret c"
  by (simp add: post_rest_def)

text \<open>The steps one after the other are the worker's function.\<close>

lemma post_rest_offset:
  "post_rest K w PostOffset (st, mm) = bind_outcome (free_page (w_page_new w) st) (\<lambda>st.
     bind_outcome (free_page (w_page_old w) st) (\<lambda>st. Ret (st, mm\<lparr>mm_bar := (mm_bar mm)\<lparr>io_offset := w_offset w,
       io_size := w_size w, io_sector_sta := w_num_sector w, io_num := io_num (mm_bar mm) + 1\<rparr>\<rparr>)))"
proof -
  have bind: "bind_outcome (bind_outcome m f) g = bind_outcome m (\<lambda>x. bind_outcome (f x) g)"
    for m :: "drv outcome" and f :: "drv \<Rightarrow> (post_pc \<times> drv \<times> mmio) outcome" and g :: "post_pc \<times> drv \<times> mmio \<Rightarrow> (drv \<times> mmio) outcome"
    by (cases m) simp_all
  show ?thesis by (simp add: post_rest_step bind bar_update_def)
qed

lemma post_rest_all: "post_rest K w PostOld (st, mm) = verify_work_post K w (st, mm)"
proof (cases "copy_page_to_buffer K (w_page_old w) (PTR_BAR_TO_CHUNK_O 0) (w_offset w) (w_size w) st (mm_chunks mm)")
  case (Ret r)
  obtain ok st1 m1 where r: "r = (ok, st1, m1)" by (cases r)
  show ?thesis
  proof (cases ok)
    case True
    with Ret r show ?thesis
      by (cases "copy_page_to_buffer K (w_page_new w) (PTR_BAR_TO_CHUNK_N 0) (w_offset w) (w_size w) st1 m1")
        (auto simp: post_rest_step [of PostOld] post_rest_step [of PostNew] post_rest_step [of PostFailed]
          post_rest_offset verify_work_post_def Let_def)
  next
    case False
    with Ret r show ?thesis
      by (simp add: post_rest_step [of PostOld] post_rest_step [of PostFailed] post_rest_offset verify_work_post_def Let_def)
  qed
qed (simp add: post_rest_step [of PostOld] verify_work_post_def)

section \<open>Interleaved with the device\<close>

text \<open>
  One worker behind the semaphore, at its place \<open>pc\<close>, and the device thread, its polling of the
  registers and the interrupt handler, in any order, each store a step of its own.
\<close>

inductive fine_step :: "kernel \<Rightarrow> irq_layer \<Rightarrow> verify_work \<Rightarrow> post_pc \<times> sys \<Rightarrow> post_pc \<times> sys \<Rightarrow> bool"
  for K L w where
  worker: "pc \<noteq> PostDone \<Longrightarrow> post_step K w pc (s_drv s, s_mmio s) = Ret (pc', st, mm) \<Longrightarrow>
     fine_step K L w (pc, s) (pc', s\<lparr>s_drv := st, s_mmio := mm\<rparr>)"
| device: "block_io E \<Longrightarrow> blk_call_succeeds E \<Longrightarrow>
     dev_step L E (s_pc s, s_dev s, s_mmio s, s_parity s) = Some (Ret (dpc, d, mm, disk)) \<Longrightarrow>
     fine_step K L w (pc, s) (pc, s\<lparr>s_pc := dpc, s_dev := d, s_mmio := mm, s_parity := disk\<rparr>)"
| poll: "s_pc s = DevIdle \<Longrightarrow>
     fine_step K L w (pc, s) (pc, s\<lparr>s_mmio := pciev_proc_bars (s_dev s) (s_mmio s)\<rparr>)"
| irq: "d_irqs (s_dev s) = i # is \<Longrightarrow>
     fine_step K L w (pc, s) (pc, s\<lparr>s_dev := (s_dev s)\<lparr>d_irqs := is\<rparr>, s_drv := pcievdrv_interrupt (s_drv s)\<rparr>)"

inductive_cases fine_stepE: "fine_step K L w c c'"

text \<open>Polling changes a register the worker does not use.\<close>

lemma proc_bars_bar_update:
  "(\<And>b n. dev_cnt (f (b\<lparr>dev_cnt := n\<rparr>)) = n) \<Longrightarrow> (\<And>b. dev_cnt (f b) = dev_cnt b) \<Longrightarrow>
   (\<And>b n. f (b\<lparr>dev_cnt := n\<rparr>) = (f b)\<lparr>dev_cnt := n\<rparr>) \<Longrightarrow>
     pciev_proc_bars d (bar_update f mm) = bar_update f (pciev_proc_bars d mm)"
  by (simp add: pciev_proc_bars_def bar_update_def)

lemma post_step_poll:
  "post_step K w pc (st, pciev_proc_bars d mm) =
     bind_outcome (post_step K w pc (st, mm)) (\<lambda>(pc, st, mm). Ret (pc, st, pciev_proc_bars d mm))"
proof -
  have chunks: "mm_chunks (pciev_proc_bars d mm) = mm_chunks mm"
    "(pciev_proc_bars d mm)\<lparr>mm_chunks := m\<rparr> = pciev_proc_bars d (mm\<lparr>mm_chunks := m\<rparr>)" for m
    by (simp_all add: pciev_proc_bars_def)
  show ?thesis
    by (cases pc) (auto simp: chunks proc_bars_bar_update bind_outcome_case split: outcome.splits)
qed

lemma post_rest_poll:
  "post_rest K w pc (st, pciev_proc_bars d mm) =
     bind_outcome (post_rest K w pc (st, mm)) (\<lambda>(st, mm). Ret (st, pciev_proc_bars d mm))"
proof (induction "post_rank pc" arbitrary: pc st mm rule: less_induct)
  case less
  show ?case
  proof (cases "pc = PostDone")
    case False
    show ?thesis
    proof (cases "post_step K w pc (st, mm)")
      case (Ret r)
      obtain pc' st' mm' where r: "r = (pc', st', mm')" by (cases r)
      from Ret r False have "post_rank pc' < post_rank pc" by (simp add: post_step_rank)
      from less [OF this, of st' mm'] Ret r False show ?thesis by (simp add: post_rest_step post_step_poll)
    qed (use False in \<open>simp add: post_rest_step post_step_poll\<close>)
  qed simp
qed

text \<open>Behind the last store only pages are left to free, which the device has no part in.\<close>

definition committed :: "post_pc set" where
  "committed = {PostFreeNew, PostFreeOld, PostDone}"

lemma rest_committed:
  assumes "pc \<in> committed"
  shows "post_rest K w pc (st, mm) = Ret (st', mm') \<longleftrightarrow> mm' = mm \<and> post_rest K w pc (st, mm0) = Ret (st', mm0)"
  using assms by (auto simp: committed_def post_rest_step bind_outcome_Ret_iff)

lemma free_page_up: "free_page p (up st) = bind_outcome (free_page p st) (\<lambda>st. Ret (up st))"
  by (simp add: free_page_def up_def split: option.split)

lemma rest_committed_up:
  assumes "pc \<in> committed"
  shows "post_rest K w pc (up st, mm) = bind_outcome (post_rest K w pc (st, mm)) (\<lambda>(st, mm). Ret (up st, mm))"
  using assms by (auto simp: committed_def post_rest_step free_page_up bind_outcome_case split: outcome.split)

text \<open>
  The invariant of an interleaved run from \<open>t\<close>. Before the last store the state is one of the
  transition system but for what the worker has done so far, and the steps that are left give
  what the whole function gives there; behind it, freeing the pages gives a state of the
  transition system.
\<close>

definition after_post :: "verify_work list \<Rightarrow> sys \<Rightarrow> drv \<Rightarrow> sys" where
  "after_post ws v st = v\<lparr>s_drv := st, s_workers := ws, s_posts := Suc (s_posts v)\<rparr>"

definition pending_inv ::
  "kernel \<Rightarrow> verify_work \<Rightarrow> (sys \<Rightarrow> bool) \<Rightarrow> verify_work list \<Rightarrow> post_pc \<Rightarrow> sys \<Rightarrow> bool" where
  "pending_inv K w R ws pc v \<longleftrightarrow> pc \<notin> committed \<and>
     s_pc v = DevIdle \<and> d_irqs (s_dev v) = [] \<and> io_num (mm_bar (s_mmio v)) = io_done (mm_bar (s_mmio v)) \<and>
     (\<exists>t. R t \<and> s_workers t = ws \<and> v = t\<lparr>s_drv := s_drv v, s_mmio := s_mmio v\<rparr> \<and>
       post_rest K w pc (s_drv v, s_mmio v) = verify_work_post K w (s_drv t, s_mmio t))"

definition committed_inv ::
  "kernel \<Rightarrow> verify_work \<Rightarrow> (sys \<Rightarrow> bool) \<Rightarrow> verify_work list \<Rightarrow> post_pc \<Rightarrow> sys \<Rightarrow> bool" where
  "committed_inv K w R ws pc v \<longleftrightarrow> pc \<in> committed \<and>
     (\<forall>st. post_rest K w pc (s_drv v, s_mmio v) = Ret (st, s_mmio v) \<longrightarrow> R (after_post ws v st))"

definition kept_by ::
  "kernel \<Rightarrow> irq_layer \<Rightarrow> praid_dev \<Rightarrow> (host_bio \<Rightarrow> sys \<Rightarrow> bool) \<Rightarrow> (sys \<Rightarrow> bool) \<Rightarrow> bool" where
  "kept_by K L D G R \<longleftrightarrow> (\<forall>s s'. R s \<longrightarrow> sys_step K L D G s s' \<longrightarrow> R s')"

lemma kept_byD: "kept_by K L D G R \<Longrightarrow> R s \<Longrightarrow> sys_step K L D G s s' \<Longrightarrow> R s'"
  by (auto simp: kept_by_def)

lemma proc_bars_counts:
  "io_num (mm_bar (pciev_proc_bars d mm)) = io_num (mm_bar mm)" "io_done (mm_bar (pciev_proc_bars d mm)) = io_done (mm_bar mm)"
  by (simp_all add: pciev_proc_bars_def)

lemma step_not_committed:
  assumes "pc \<notin> committed" and "post_step K w pc (st, mm) = Ret (pc', st', mm')"
    and "io_num (mm_bar mm) = io_done (mm_bar mm)" and "pc' \<notin> committed"
  shows "io_num (mm_bar mm') = io_done (mm_bar mm')"
  using assms by (cases pc; force simp: committed_def bar_update_def bind_outcome_Ret_iff split: if_splits)+

text \<open>The steps of the worker.\<close>

lemma pending_worker:
  assumes inv: "pending_inv K w R (xs @ w # ys) pc v" and pc: "pc \<noteq> PostDone"
    and step: "post_step K w pc (s_drv v, s_mmio v) = Ret (pc', st, mm)"
    and R: "kept_by K L D G R"
  shows "pending_inv K w R (xs @ w # ys) pc' (v\<lparr>s_drv := st, s_mmio := mm\<rparr>) \<or>
    committed_inv K w R (xs @ ys) pc' (v\<lparr>s_drv := st, s_mmio := mm\<rparr>)"
proof -
  obtain t where t: "R t" "s_workers t = xs @ w # ys" "v = t\<lparr>s_drv := s_drv v, s_mmio := s_mmio v\<rparr>"
    "post_rest K w pc (s_drv v, s_mmio v) = verify_work_post K w (s_drv t, s_mmio t)"
    and v: "pc \<notin> committed" "s_pc v = DevIdle" "d_irqs (s_dev v) = []" "io_num (mm_bar (s_mmio v)) = io_done (mm_bar (s_mmio v))"
    using inv by (auto simp: pending_inv_def)
  have rest: "post_rest K w pc' (st, mm) = verify_work_post K w (s_drv t, s_mmio t)"
    using t(4) step pc by (simp add: post_rest_step [of pc])
  have same: "v\<lparr>s_drv := st, s_mmio := mm\<rparr> = t\<lparr>s_drv := st, s_mmio := mm\<rparr>" by (subst t(3)) simp
  show ?thesis
  proof (cases "pc' \<in> committed")
    case True
    have "R (after_post (xs @ ys) (t\<lparr>s_drv := st, s_mmio := mm\<rparr>) st')" if "post_rest K w pc' (st, mm) = Ret (st', mm)" for st'
    proof -
      have eq: "after_post (xs @ ys) (t\<lparr>s_drv := st, s_mmio := mm\<rparr>) st' =
          t\<lparr>s_drv := st', s_mmio := mm, s_workers := xs @ ys, s_posts := Suc (s_posts t)\<rparr>" by (simp add: after_post_def)
      show ?thesis unfolding eq by (rule kept_byD [OF R t(1) sys_step.work_post [OF t(2) that [unfolded rest]]])
    qed
    then show ?thesis using True unfolding same by (simp add: committed_inv_def)
  next
    case False
    have "s_pc t = s_pc v" "s_dev t = s_dev v" by (subst t(3), simp)+
    with False step_not_committed [OF v(1) step v(4) False] t(1,2) rest v(2,3)
    have "pending_inv K w R (xs @ w # ys) pc' (t\<lparr>s_drv := st, s_mmio := mm\<rparr>)"
      unfolding pending_inv_def by (intro conjI exI [of _ t]) simp_all
    then show ?thesis unfolding same ..
  qed
qed

lemma committed_worker:
  assumes "committed_inv K w R ws pc v" and "pc \<noteq> PostDone"
    and "post_step K w pc (s_drv v, s_mmio v) = Ret (pc', st, mm)"
  shows "committed_inv K w R ws pc' (v\<lparr>s_drv := st, s_mmio := mm\<rparr>)"
proof -
  have "pc' \<in> committed" "mm = s_mmio v"
    using assms by (auto simp: committed_inv_def committed_def bind_outcome_Ret_iff)
  moreover have "post_rest K w pc (s_drv v, s_mmio v) = post_rest K w pc' (st, mm)"
    using assms(2,3) by (simp add: post_rest_step)
  ultimately show ?thesis using assms(1) by (simp add: committed_inv_def after_post_def)
qed

text \<open>
  The steps of the others: an idle device does nothing, polling commutes with the stores, and
  behind the last store nothing that the others do touches the pages to be freed.
\<close>

lemma pending_poll:
  assumes inv: "pending_inv K w R ws pc v" and R: "kept_by K L D G R"
  shows "pending_inv K w R ws pc (v\<lparr>s_mmio := pciev_proc_bars (s_dev v) (s_mmio v)\<rparr>)"
proof -
  obtain t where t: "R t" "s_workers t = ws" "v = t\<lparr>s_drv := s_drv v, s_mmio := s_mmio v\<rparr>"
    "post_rest K w pc (s_drv v, s_mmio v) = verify_work_post K w (s_drv t, s_mmio t)" and idle: "s_pc v = DevIdle"
    using inv by (auto simp: pending_inv_def)
  let ?t = "t\<lparr>s_mmio := pciev_proc_bars (s_dev t) (s_mmio t)\<rparr>"
  have d: "s_dev v = s_dev t" "s_pc v = s_pc t" by (subst t(3), simp)+
  have "R ?t" using kept_byD [OF R t(1) sys_step.poll] d(2) idle by simp
  moreover have "post_rest K w pc (s_drv v, pciev_proc_bars (s_dev v) (s_mmio v)) = verify_work_post K w (s_drv ?t, s_mmio ?t)"
    by (simp add: post_rest_poll post_rest_all [symmetric]) (simp add: t(4) d post_rest_all)
  moreover have "v\<lparr>s_mmio := pciev_proc_bars (s_dev v) (s_mmio v)\<rparr> =
      ?t\<lparr>s_drv := s_drv v, s_mmio := pciev_proc_bars (s_dev v) (s_mmio v)\<rparr>" by (subst t(3)) simp
  moreover have "s_workers ?t = ws" using t(2) by simp
  ultimately have "\<exists>t. R t \<and> s_workers t = ws \<and> v\<lparr>s_mmio := pciev_proc_bars (s_dev v) (s_mmio v)\<rparr> =
        t\<lparr>s_drv := s_drv v, s_mmio := pciev_proc_bars (s_dev v) (s_mmio v)\<rparr> \<and>
      post_rest K w pc (s_drv v, pciev_proc_bars (s_dev v) (s_mmio v)) = verify_work_post K w (s_drv t, s_mmio t)" by blast
  then show ?thesis using inv by (simp add: pending_inv_def proc_bars_counts)
qed

lemma committed_other:
  assumes inv: "committed_inv K w R ws pc v" and drv: "s_drv v' = s_drv v"
    and R: "\<And>st. R (after_post ws v st) \<Longrightarrow> R (after_post ws v' st)"
  shows "committed_inv K w R ws pc v'"
proof -
  have "post_rest K w pc (s_drv v, mm) = Ret (st, mm) \<longleftrightarrow> post_rest K w pc (s_drv v, mm') = Ret (st, mm')" for mm mm' st
    using rest_committed [of pc K w "s_drv v" mm st mm mm'] inv by (simp add: committed_inv_def)
  then show ?thesis using inv R unfolding committed_inv_def drv by blast
qed

lemma committed_irq:
  assumes inv: "committed_inv K w R ws pc v" and drv: "s_drv v' = up (s_drv v)" "s_mmio v' = s_mmio v"
    and R: "\<And>st. R (after_post ws v st) \<Longrightarrow> R (after_post ws v' (up st))"
  shows "committed_inv K w R ws pc v'"
proof -
  have pc: "pc \<in> committed" using inv by (simp add: committed_inv_def)
  have "R (after_post ws v' st)" if "post_rest K w pc (up (s_drv v), s_mmio v) = Ret (st, s_mmio v)" for st
  proof -
    have "bind_outcome (post_rest K w pc (s_drv v, s_mmio v)) (\<lambda>(st, mm). Ret (up st, mm)) = Ret (st, s_mmio v)"
      using that rest_committed_up [OF pc, of K w "s_drv v" "s_mmio v"] by simp
    then obtain st0 where "post_rest K w pc (s_drv v, s_mmio v) = Ret (st0, s_mmio v)" "st = up st0"
      by (cases "post_rest K w pc (s_drv v, s_mmio v)") auto
    then show ?thesis using R inv by (simp add: committed_inv_def)
  qed
  then show ?thesis using pc by (simp add: committed_inv_def drv)
qed

definition post_inv where
  "post_inv K w R xs ys = (\<lambda>(pc, v). pending_inv K w R (xs @ w # ys) pc v \<or> committed_inv K w R (xs @ ys) pc v)"

lemma post_inv_step:
  assumes inv: "post_inv K w R xs ys c" and step: "fine_step K L w c c'"
    and R: "kept_by K L D G R"
  shows "post_inv K w R xs ys c'"
  using step
proof cases
  case (worker pc s pc' st mm)
  have "pending_inv K w R (xs @ w # ys) pc s \<Longrightarrow> pending_inv K w R (xs @ w # ys) pc' (s\<lparr>s_drv := st, s_mmio := mm\<rparr>) \<or>
      committed_inv K w R (xs @ ys) pc' (s\<lparr>s_drv := st, s_mmio := mm\<rparr>)"
    by (rule pending_worker [OF _ worker(3,4) R])
  moreover have "committed_inv K w R (xs @ ys) pc s \<Longrightarrow> committed_inv K w R (xs @ ys) pc' (s\<lparr>s_drv := st, s_mmio := mm\<rparr>)"
    by (rule committed_worker [OF _ worker(3,4)])
  ultimately show ?thesis using inv worker(1,2) by (auto simp: post_inv_def)
next
  case (device E s dpc d mm disk pc)
  let ?s = "s\<lparr>s_pc := dpc, s_dev := d, s_mmio := mm, s_parity := disk\<rparr>"
  have "?s = s" if "pending_inv K w R (xs @ w # ys) pc s"
    using that device(5) by (auto simp: pending_inv_def)
  moreover have "R (after_post (xs @ ys) ?s st)" if r: "R (after_post (xs @ ys) s st)" for st
  proof -
    have eq: "after_post (xs @ ys) ?s st =
        (after_post (xs @ ys) s st)\<lparr>s_pc := dpc, s_dev := d, s_mmio := mm, s_parity := disk\<rparr>" by (simp add: after_post_def)
    show ?thesis unfolding eq
      by (rule kept_byD [OF R r sys_step.dev [OF device(3,4)]]) (simp add: after_post_def device(5))
  qed
  then have "committed_inv K w R (xs @ ys) pc ?s" if "committed_inv K w R (xs @ ys) pc s"
    using that by (intro committed_other [OF that]) simp_all
  ultimately show ?thesis using inv device(1,2) by (auto simp: post_inv_def)
next
  case (poll s pc)
  let ?s = "s\<lparr>s_mmio := pciev_proc_bars (s_dev s) (s_mmio s)\<rparr>"
  have "R (after_post (xs @ ys) ?s st)" if r: "R (after_post (xs @ ys) s st)" for st
  proof -
    have eq: "after_post (xs @ ys) ?s st = (after_post (xs @ ys) s st)\<lparr>s_mmio :=
        pciev_proc_bars (s_dev (after_post (xs @ ys) s st)) (s_mmio (after_post (xs @ ys) s st))\<rparr>" by (simp add: after_post_def)
    show ?thesis unfolding eq by (rule kept_byD [OF R r sys_step.poll]) (simp add: after_post_def poll(3))
  qed
  then have "committed_inv K w R (xs @ ys) pc ?s" if "committed_inv K w R (xs @ ys) pc s"
    using that by (intro committed_other [OF that]) simp_all
  then show ?thesis using inv poll(1,2) pending_poll [OF _ R] by (auto simp: post_inv_def)
next
  case (irq s i "is" pc)
  let ?s = "s\<lparr>s_dev := (s_dev s)\<lparr>d_irqs := is\<rparr>, s_drv := pcievdrv_interrupt (s_drv s)\<rparr>"
  have "R (after_post (xs @ ys) ?s (up st))" if r: "R (after_post (xs @ ys) s st)" for st
  proof -
    have eq: "after_post (xs @ ys) ?s (up st) = (after_post (xs @ ys) s st)\<lparr>s_dev := (s_dev (after_post (xs @ ys) s st))\<lparr>d_irqs := is\<rparr>,
        s_drv := pcievdrv_interrupt (s_drv (after_post (xs @ ys) s st))\<rparr>" by (simp add: after_post_def pcievdrv_interrupt_def)
    show ?thesis unfolding eq by (rule kept_byD [OF R r sys_step.irq]) (simp add: after_post_def irq(3))
  qed
  then have "committed_inv K w R (xs @ ys) pc ?s" if "committed_inv K w R (xs @ ys) pc s"
    using that by (intro committed_irq [OF that]) (simp_all add: pcievdrv_interrupt_def)
  moreover have "\<not> pending_inv K w R (xs @ w # ys) pc s" using irq(3) by (auto simp: pending_inv_def)
  ultimately show ?thesis using inv irq(1,2) by (auto simp: post_inv_def)
qed

text \<open>
  C15: Posting a request is one step. The transition system of the array lets a worker copy both
  pages, fill in the registers, count up \<open>io_num\<close> and free the pages at once. Here every one of
  these is a step of its own, with the device, its polling and the interrupt handler in
  between as they please; whatever they arrive at is a state that the transition system can
  reach as well. It is the order of the stores that makes it so: \<open>io_num\<close> is the last the
  device can see. Nothing is assumed of the kernel, so a \<open>kmap\<close> may fail at either copy and
  the steps of that branch are included; of the state, that the device is idle and owes no
  interrupt, where C7 finds it whenever a worker has the semaphore. One worker is taken apart:
  what a second one does that gets in through the early \<open>up\<close> of a failed \<open>kmap\<close> is not covered.
\<close>

theorem posting_is_atomic:
  assumes "s_workers t = xs @ w # ys" and "s_pc t = DevIdle" and "d_irqs (s_dev t) = []"
    and "io_num (mm_bar (s_mmio t)) = io_done (mm_bar (s_mmio t))"
    and "(fine_step K L w)\<^sup>*\<^sup>* (PostOld, t) (PostDone, u)"
  shows "sys_run K L D G t (u\<lparr>s_workers := xs @ ys, s_posts := Suc (s_posts u)\<rparr>)"
proof -
  let ?R = "sys_run K L D G t"
  have "post_inv K w ?R xs ys (PostOld, t)"
    using assms(1-4) by (auto simp: post_inv_def pending_inv_def committed_def post_rest_all)
  with assms(5) have "post_inv K w ?R xs ys (PostDone, u)"
  proof (induction rule: rtranclp_induct)
    case (step c c')
    have "kept_by K L D G ?R" by (auto simp: kept_by_def intro: rtranclp.rtrancl_into_rtrancl)
    with step show ?case by (blast intro: post_inv_step)
  qed
  then show ?thesis by (simp add: post_inv_def pending_inv_def committed_inv_def committed_def after_post_def)
qed

lemma fine_run_alone:
  "post_rest K w pc (s_drv v, s_mmio v) = Ret (st, mm) \<Longrightarrow>
     (fine_step K L w)\<^sup>*\<^sup>* (pc, v) (PostDone, v\<lparr>s_drv := st, s_mmio := mm\<rparr>)"
proof (induction "post_rank pc" arbitrary: pc v rule: less_induct)
  case less
  show ?case
  proof (cases "pc = PostDone")
    case False
    then obtain pc' st' mm' where s: "post_step K w pc (s_drv v, s_mmio v) = Ret (pc', st', mm')"
      "post_rest K w pc' (st', mm') = Ret (st, mm)"
      using less.prems by (auto simp: post_rest_step bind_outcome_Ret_iff)
    let ?v = "v\<lparr>s_drv := st', s_mmio := mm'\<rparr>"
    have "(fine_step K L w)\<^sup>*\<^sup>* (pc', ?v) (PostDone, ?v\<lparr>s_drv := st, s_mmio := mm\<rparr>)"
      using s(2) by (intro less.hyps post_step_rank [OF s(1) False]) simp
    with fine_step.worker [OF False s(1), of L] show ?thesis by (simp add: converse_rtranclp_into_rtranclp)
  next
    case True
    with less.prems have "v\<lparr>s_drv := st, s_mmio := mm\<rparr> = v" by auto
    with True show ?thesis by simp
  qed
qed

text \<open>A kernel that can map no page, and the example with a worker that has the semaphore.\<close>

definition unmappable_kernel :: kernel where
  "unmappable_kernel = reference_kernel\<lparr>k_kmap := (\<lambda>_ _. False)\<rparr>"

definition example_working :: sys where
  "example_working = example_sys\<lparr>s_drv := example_drv\<lparr>sem := 0\<rparr>, s_workers := [example_work]\<rparr>"

lemma example_unmappable:
  "\<exists>v. (fine_step unmappable_kernel example_irq example_work)\<^sup>*\<^sup>* (PostOld, example_working) (PostDone, v) \<and>
     sem (s_drv v) = 1 \<and> io_num (mm_bar (s_mmio v)) = 1"
proof -
  obtain st mm where "verify_work_post unmappable_kernel example_work (s_drv example_working, s_mmio example_working) = Ret (st, mm)"
    and p: "sem st = 1" "io_num (mm_bar mm) = 1"
    by (simp add: verify_work_post_def copy_page_to_buffer_def unmappable_kernel_def example_working_def example_sys_def
        example_drv_def example_work_def example_mmio_def free_page_def heap_free_def up_def tick_def Let_def)
  then have "post_rest unmappable_kernel example_work PostOld (s_drv example_working, s_mmio example_working) = Ret (st, mm)"
    by (simp add: post_rest_all)
  from fine_run_alone [OF this, of example_irq] p show ?thesis by fastforce
qed

text \<open>
  A worker the array has got to, and one whose pages cannot be mapped: it has given the
  semaphore back when it posts.
\<close>

theorem posting_is_atomic_witness:
  "\<exists>t w u. sys_run reference_kernel example_irq example_dev (careful reference_kernel example_dev) example_sys t \<and> s_workers t = [w] \<and>
     (fine_step reference_kernel example_irq w)\<^sup>*\<^sup>* (PostOld, t) (PostDone, u) \<and>
     sys_run reference_kernel example_irq example_dev (careful reference_kernel example_dev) t (u\<lparr>s_workers := [], s_posts := Suc (s_posts u)\<rparr>) \<and>
   (\<exists>v. (fine_step unmappable_kernel example_irq example_work)\<^sup>*\<^sup>* (PostOld, example_working) (PostDone, v) \<and>
     sem (s_drv v) = 1 \<and> io_num (mm_bar (s_mmio v)) = 1 \<and>
     sys_run unmappable_kernel example_irq example_dev (\<lambda>_ _. False) example_working
       (v\<lparr>s_workers := [], s_posts := Suc (s_posts v)\<rparr>))"
proof -
  let ?K = reference_kernel and ?L = example_irq and ?D = example_dev and ?G = "careful reference_kernel example_dev"
  obtain q w ys where q: "sys_run ?K ?L ?D ?G example_sys q" "system_inv disjoint_bios ?D (mismatch ?D example_sys) q"
    "workqueue (s_drv q) = w # ys" "q = example_sys\<lparr>s_drv := s_drv q\<rparr>" using example_queued by blast
  have rest: "s_workers q = s_workers example_sys" "s_pc q = s_pc example_sys" "s_dev q = s_dev example_sys"
    "s_mmio q = s_mmio example_sys" "s_posts q = s_posts example_sys" by (subst q(4), simp)+
  have "\<exists>t. sys_step ?K ?L ?D ?G q t \<and> s_workers t = [w] \<and> t = q\<lparr>s_drv := s_drv t, s_workers := [w]\<rparr> \<and>
      system_inv disjoint_bios ?D (mismatch ?D example_sys) t"
    by (rule start_worker [OF q(2) _ _ _ q(3)], unfold rest)
       (simp_all add: example_sys_def example_mmio_def busy_def)
  then obtain t where t: "sys_step ?K ?L ?D ?G q t" "s_workers t = [w]" "t = q\<lparr>s_drv := s_drv t, s_workers := [w]\<rparr>"
    "system_inv disjoint_bios ?D (mismatch ?D example_sys) t" by blast
  have run: "sys_run ?K ?L ?D ?G example_sys t" using q(1) t(1) by simp
  have "token_inv t" using t(4) by (simp add: system_inv_def)
  from token_worker [OF this, of "[]" w "[]"] t(2)
  have idle: "s_pc t = DevIdle" "d_irqs (s_dev t) = []" "io_num (mm_bar (s_mmio t)) = io_done (mm_bar (s_mmio t))"
    by (auto simp: busy_def)
  from worker_posts [OF t(4) example_array_ok t(2)] obtain st co cn where
    p: "verify_work_post ?K w (s_drv t, s_mmio t) = Ret (st, posted (s_mmio t) w co cn)" by blast
  let ?u = "t\<lparr>s_drv := st, s_mmio := posted (s_mmio t) w co cn\<rparr>"
  have fine: "(fine_step ?K ?L w)\<^sup>*\<^sup>* (PostOld, t) (PostDone, ?u)"
    using p by (intro fine_run_alone) (simp add: post_rest_all)
  have "sys_run ?K ?L ?D ?G t (?u\<lparr>s_workers := [] @ [], s_posts := Suc (s_posts ?u)\<rparr>)"
    by (rule posting_is_atomic [OF _ idle fine]) (simp add: t(2))
  moreover obtain v where v: "(fine_step unmappable_kernel ?L example_work)\<^sup>*\<^sup>* (PostOld, example_working) (PostDone, v)"
    "sem (s_drv v) = 1" "io_num (mm_bar (s_mmio v)) = 1" using example_unmappable by blast
  have "sys_run unmappable_kernel ?L ?D (\<lambda>_ _. False) example_working (v\<lparr>s_workers := [] @ [], s_posts := Suc (s_posts v)\<rparr>)"
    by (rule posting_is_atomic [OF _ _ _ _ v(1)])
       (simp_all add: example_working_def example_sys_def example_mmio_def)
  ultimately show ?thesis using run t(2) fine v by (intro conjI exI [of _ t] exI [of _ w] exI [of _ ?u] exI [of _ v]) simp_all
qed

end
