(* ===== verification/Praid_Identity.thy ===== *)
theory Praid_Identity
  imports Praid_Config
begin

text \<open>
  The configuration space from outside: the structs laid over it do not disturb each other,
  and the driver, which reads it through the PCI core, finds in it the device its table
  names (the first lines of \<open>pciedrv.c\<close>).
\<close>

section \<open>The structs in the space\<close>

definition config_structs :: "(nat \<times> cmember list) list" where
  "config_structs =
     [(OFFS_PCI_HDR, pci_header), (OFFS_PCI_PM_CAP, pci_pm_cap), (OFFS_PCI_MSIX_CAP, pci_msix_cap),
      (OFFS_PCIE_CAP, pcie_cap)] @ map (\<lambda>(off, _). (OFFS_PCI_EXT_CAP + off, pci_ext_cap)) ext_caps"

lemma config_structs_ok: "(base, ms) \<in> set config_structs \<Longrightarrow> struct_ok ms"
  by (auto simp: config_structs_def struct_ok_def pci_structs ext_caps_def)

lemma config_structs_size: "(base, ms) \<in> set config_structs \<Longrightarrow> struct_end 0 ms \<le> 8 * sizeof ms"
  by (rule struct_end_sizeof) (auto simp: config_structs_def pci_structs ext_caps_def fields_align_def)

lemma config_struct_bytes:
  "map (\<lambda>(base, ms). (base, sizeof ms)) config_structs =
     [(0, 64), (0x40, 8), (0x50, 12), (0x60, 36), (0x100, 4), (0x150, 4), (0x180, 4), (0x190, 4),
      (0x270, 4), (0x2a0, 4)]"
  by (simp add: config_structs_def ext_caps_def pci_const)
    (simp add: pci_structs sizeof_def fields_align_def round_up_def)

lemma config_structs_apart:
  assumes "(base, ms) \<in> set config_structs" and "(base', ms') \<in> set config_structs" and "base \<noteq> base'"
  shows "base + sizeof ms \<le> base' \<or> base' + sizeof ms' \<le> base"
proof -
  let ?rs = "map (\<lambda>(base, ms). (base, sizeof ms)) config_structs"
  have "(base, sizeof ms) \<in> set ?rs" "(base', sizeof ms') \<in> set ?rs" using assms(1,2) by force+
  with assms(3) show ?thesis unfolding config_struct_bytes by auto
qed

lemma config_structs_base: "(base, ms) \<in> set config_structs \<Longrightarrow> (base, ms') \<in> set config_structs \<Longrightarrow> ms = ms'"
  by (auto simp: config_structs_def ext_caps_def pci_const)

text \<open>
  C24: The structs the settings are written through share no bit, and neither do the members of
  one of them: an assignment to a member is read back, truncated to the member's width, and
  changes no other member of any struct; and no member lies behind its struct's end.
\<close>

theorem config_members_independent:
  assumes "(base, ms) \<in> set config_structs" and "(base', ms') \<in> set config_structs"
    and "member_place ms path = Some (p, w)" and "(base, path) \<noteq> (base', path')"
  shows "get_member ms base path (set_member ms base path v m) = Some (take_bit w v) \<and>
    get_member ms' base' path' (set_member ms base path v m) = get_member ms' base' path' m \<and>
    p + w \<le> 8 * sizeof ms"
proof (intro conjI)
  have inside: "q + u \<le> 8 * sizeof sm" if "(b, sm) \<in> set config_structs" "member_place sm pa = Some (q, u)" for b sm pa q u
    using map_of_place_inside [OF struct_in_order [OF config_structs_ok [OF that(1)]] that(2) [unfolded member_place_def]]
      config_structs_size [OF that(1)] by simp
  show "p + w \<le> 8 * sizeof ms" using inside [OF assms(1,3)] .
  show "get_member ms base path (set_member ms base path v m) = Some (take_bit w v)"
    by (rule set_member_get [OF assms(3)])
  show "get_member ms' base' path' (set_member ms base path v m) = get_member ms' base' path' m"
  proof (cases "base = base'")
    case True
    with assms config_structs_base have "ms' = ms" "path \<noteq> path'" by blast+
    with True show ?thesis by (simp add: set_member_other [OF config_structs_ok [OF assms(1)]])
  next
    case False
    show ?thesis
    proof (cases "member_place ms' path'")
      case (Some b)
      then obtain q u where q: "member_place ms' path' = Some (q, u)" by (cases b) simp
      have "apart (8 * base' + q) u (8 * base + p) w"
        using config_structs_apart [OF assms(1,2) False] inside [OF assms(1,3)] inside [OF assms(2) q]
        by (auto simp: apart_def)
      then show ?thesis by (simp add: get_member_def set_member_def q assms(3) get_bits_put_apart)
    qed (simp add: get_member_def)
  qed
qed

lemma config_members_independent_witness:
  "\<forall>m. get_member pcie_cap 0x60 (''pxdc'', ''mrrs'') (set_member pcie_cap 0x60 (''pxdc'', ''mrrs'') 13 m) = Some 5 \<and>
   get_member pcie_cap 0x60 (''pxds'', ''ced'') (set_member pcie_cap 0x60 (''pxdc'', ''mrrs'') 13 m) =
     get_member pcie_cap 0x60 (''pxds'', ''ced'') m"
proof -
  have "(0x60, pcie_cap) \<in> set config_structs" by (simp add: config_structs_def pci_const)
  moreover have "member_place pcie_cap (''pxdc'', ''mrrs'') = Some (77, 3)"
    by (simp add: member_place_def struct_layouts)
  ultimately show ?thesis
    using config_members_independent [of "0x60" pcie_cap "0x60" pcie_cap "(''pxdc'', ''mrrs'')" 77 3 "(''pxds'', ''ced'')" 13]
    by simp
qed

section \<open>What the driver looks at\<close>

text \<open>
  The table of devices the driver is for; \<open>PCI_DEVICE\<close> leaves the subsystem open. The last
  entry, all zero, ends the table.
\<close>

record pci_device_id =
  vendor :: u32
  device :: u32
  subvendor :: u32
  subdevice :: u32

definition PCI_ANY_ID :: u32 where
  "PCI_ANY_ID = - 1"

definition PCI_DEVICE :: "nat \<Rightarrow> nat \<Rightarrow> pci_device_id" where
  "PCI_DEVICE v d = \<lparr>vendor = word_of_nat v, device = word_of_nat d, subvendor = PCI_ANY_ID, subdevice = PCI_ANY_ID\<rparr>"

definition pcievdrv_ids :: "pci_device_id list" where
  "pcievdrv_ids = [PCI_DEVICE PCIEV_VENDOR_ID PCIEV_DEVICE_ID, \<lparr>vendor = 0, device = 0, subvendor = 0, subdevice = 0\<rparr>]"

text \<open>
  \<open>pci_read_config_byte\<close>, \<open>word\<close> and \<open>dword\<close> are the PCI core's: they ask the bus, whose
  read operation is \<open>pciev_pci_read\<close>, for one, two or four bytes of function 0.
\<close>

type_synonym config_reader = "pci_vdev \<Rightarrow> nat \<Rightarrow> nat \<Rightarrow> u32"

definition reads_the_bus :: "config_reader \<Rightarrow> bool" where
  "reads_the_bus rd \<longleftrightarrow> (\<forall>s a n. aligned_access a n \<longrightarrow> rd s a n = snd (pciev_pci_read s 0 a n 0))"

definition PCI_VENDOR_ID :: nat where [pci_const]: "PCI_VENDOR_ID = 0x00"
definition PCI_DEVICE_ID :: nat where [pci_const]: "PCI_DEVICE_ID = 0x02"
definition PCI_CLASS_REVISION :: nat where [pci_const]: "PCI_CLASS_REVISION = 0x08"
definition PCI_REVISION_ID :: nat where [pci_const]: "PCI_REVISION_ID = 0x08"

text \<open>The values it prints, in order.\<close>

record seen_configs =
  vendorID :: u16
  deviceID :: u16
  revisionID :: u8
  pci_class :: u32

definition pcievdrv_get_configs :: "config_reader \<Rightarrow> pci_vdev \<Rightarrow> seen_configs" where
  "pcievdrv_get_configs rd s =
     \<lparr>vendorID = ucast (rd s PCI_VENDOR_ID 2), deviceID = ucast (rd s PCI_DEVICE_ID 2),
      revisionID = ucast (rd s PCI_REVISION_ID 1), pci_class = rd s PCI_CLASS_REVISION 4\<rparr>"

text \<open>The table is searched up to its zero entry for a device with the identifiers read.\<close>

definition known_to_driver :: "seen_configs \<Rightarrow> bool" where
  "known_to_driver c \<longleftrightarrow> (\<exists>e \<in> set (takeWhile (\<lambda>e. vendor e \<noteq> 0) pcievdrv_ids).
     vendor e = ucast (vendorID c) \<and> device e = ucast (deviceID c))"

lemma read_value: "snd (pciev_pci_read s 0 a n 0) = word_of_nat (get_bits (8 * a) (8 * n) (virtDev s))"
  by (simp add: pciev_pci_read_def load_bytes_def)

lemma settings_class: "get_bits 64 32 (pci_settings b m) = 1"
proof -
  have "get_bits 64 8 (pci_settings b m) = 1" "get_bits 72 8 (pci_settings b m) = 0"
    "get_bits 80 8 (pci_settings b m) = 0" "get_bits 88 8 (pci_settings b m) = 0"
    by (simp_all add: settings_eval)
  then show ?thesis
    using get_bits_split [of 64 8 24 "pci_settings b m"] get_bits_split [of 72 8 16 "pci_settings b m"]
      get_bits_split [of 80 8 8 "pci_settings b m"] by simp
qed

lemma settings_revision: "get_bits 64 8 (pci_settings b m) = 1"
  by (simp add: settings_eval)

text \<open>
  C25: Whatever the host has written to the configuration space, the driver reads the identifiers
  of its own table: the device is the one the driver is for. Revision and class are 1 and 0.
\<close>

theorem driver_recognises_device:
  assumes "reads_the_bus rd" and "\<forall>w \<in> set ws. access_ok w"
  shows "pcievdrv_get_configs rd (pci_write_all ws (pci_vdev_start base_pa)) =
      \<lparr>vendorID = 0x0c51, deviceID = 0x0110, revisionID = 1, pci_class = 0x00000001\<rparr> \<and>
    known_to_driver (pcievdrv_get_configs rd (pci_write_all ws (pci_vdev_start base_pa)))"
proof -
  let ?s = "pci_write_all ws (pci_vdev_start base_pa)"
  have rd: "rd ?s a n = word_of_nat (get_bits (8 * a) (8 * n) (pci_settings base_pa (\<lambda>a. 0)))"
    if "aligned_access a n" "\<forall>i < 8 * n. \<not> writable (8 * a + i)" for a n
    using assms(1) that write_all_keeps [OF assms(2) that(2)]
    by (simp add: reads_the_bus_def read_value pci_vdev_start_def)
  have "rd ?s 0 2 = 0x0c51" "rd ?s 2 2 = 0x0110" "rd ?s 8 1 = 1" "rd ?s 8 4 = 1"
    by (simp_all add: rd aligned_access_def writable_def settings_identity settings_class settings_revision)
  then have "pcievdrv_get_configs rd ?s = \<lparr>vendorID = 0x0c51, deviceID = 0x0110, revisionID = 1, pci_class = 1\<rparr>"
    by (simp add: pcievdrv_get_configs_def pci_const)
  then show ?thesis by (simp add: known_to_driver_def pcievdrv_ids_def PCI_DEVICE_def pci_const)
qed

lemma driver_recognises_device_witness:
  "pci_class (pcievdrv_get_configs (\<lambda>s a n. snd (pciev_pci_read s 0 a n 0))
     (pci_write_all [(0, 0, 4, 0xFFFFFFFF), (0, 8, 4, 0xFFFFFFFF)] (pci_vdev_start 0x140000000))) = 1"
proof -
  have "\<forall>w \<in> set [(0, 0, 4, 0xFFFFFFFF), (0, 8, 4, 0xFFFFFFFF)]. access_ok w" by (simp add: aligned_access_def)
  from driver_recognises_device [OF _ this, of "\<lambda>s a n. snd (pciev_pci_read s 0 a n 0)" "0x140000000"]
  show ?thesis by (simp add: reads_the_bus_def)
qed
end
