(* ===== verification/Praid_Volume.thy ===== *)
theory Praid_Volume
  imports Praid_Array
begin

text \<open>
  The array as the one disk it is meant to look like. The volume is the contents of all its
  sectors, read off the data disks; a request asks for some bytes of it to be replaced. The
  driver reads, queues, copies and posts for every request, but seen from the volume nothing
  happens except that requests are accepted and, each once, written. Together with the parity
  of \<open>Praid_Array\<close> this gives what the array is for: what has been written is what is read,
  also after one data disk is gone.
\<close>

section \<open>Segments as partial contents\<close>

text \<open>The byte that a transfer of segments from byte \<open>s\<close> on puts at \<open>a\<close>, if any.\<close>

fun segs_byte :: "heap \<Rightarrow> nat \<Rightarrow> bio_vec list \<Rightarrow> nat \<Rightarrow> u8 option" where
  "segs_byte h s [] a = None"
| "segs_byte h s (e # es) a = (if s \<le> a \<and> a < s + unat (bv_len e)
     then Some (page_of h (bv_page e) (unat (bv_offset e) + (a - s)))
     else segs_byte h (s + unat (bv_len e)) es a)"

definition overlay :: "(nat \<Rightarrow> u8 option) \<Rightarrow> bytes \<Rightarrow> bytes" where
  "overlay w m a = (case w a of None \<Rightarrow> m a | Some v \<Rightarrow> v)"

lemma segs_byte_None_iff: "segs_byte h s es a = None \<longleftrightarrow> a < s \<or> s + vec_bytes es \<le> a"
proof (induction es arbitrary: s)
  case (Cons e es)
  show ?case
  proof (cases "s \<le> a \<and> a < s + unat (bv_len e)")
    case False
    then show ?thesis using Cons.IH [of "s + unat (bv_len e)"] by (simp only: segs_byte.simps if_False vec_bytes_simps) linarith
  qed simp
qed auto

lemma segs_byte_shift: "segs_byte h (d + s) es (d + a) = segs_byte h s es a"
  by (induction es arbitrary: s) (simp_all add: add.assoc)

lemma segs_byte_cong:
  "\<forall>e \<in> set es. page_of h (bv_page e) = page_of h' (bv_page e) \<Longrightarrow> segs_byte h s es a = segs_byte h' s es a"
  by (induction es arbitrary: s) auto

lemma write_segs_overlay: "write_segs h s es disk = overlay (segs_byte h s es) disk"
proof (induction es arbitrary: s disk)
  case (Cons e es)
  show ?case
  proof
    fix a
    show "write_segs h s (e # es) disk a = overlay (segs_byte h s (e # es)) disk a"
    proof (cases "s \<le> a \<and> a < s + unat (bv_len e)")
      case True
      then have "segs_byte h (s + unat (bv_len e)) es a = None" by (simp add: segs_byte_None_iff)
      with True show ?thesis by (simp add: Cons.IH overlay_def copy_bytes_def)
    next
      case False
      then have "copy_bytes disk s c i (unat (bv_len e)) a = disk a" for c i by (auto simp: copy_bytes_def)
      with False show ?thesis by (simp only: write_segs.simps Cons.IH overlay_def segs_byte.simps if_False)
    qed
  qed
qed (simp add: overlay_def fun_eq_iff)

section \<open>The volume\<close>

text \<open>The array as one sequence of bytes, as far as \<open>sector_t\<close> can address them.\<close>

definition volume :: "praid_dev \<Rightarrow> (nat \<Rightarrow> bytes) \<Rightarrow> bytes" where
  "volume D disks a = (if a < 2 ^ 73 then disks (fst (place D a)) (snd (place D a)) else 0)"

text \<open>What a request writes to the volume, and what a bio on a data disk does to it.\<close>

definition request_bytes :: "heap \<Rightarrow> host_bio \<Rightarrow> nat \<Rightarrow> u8 option" where
  "request_bytes h b = segs_byte h (unat (bi_sector (bi_iter b)) * 512) (bi_io_vec b)"

definition placed_bytes :: "praid_dev \<Rightarrow> heap \<Rightarrow> host_bio \<Rightarrow> nat \<Rightarrow> u8 option" where
  "placed_bytes D h p a = (if a < 2 ^ 73 \<and> fst (place D a) = bi_bdev p
     then request_bytes h p (snd (place D a)) else None)"

lemma volume_write:
  "volume D (disks(bi_bdev p := overlay (request_bytes h p) (disks (bi_bdev p)))) =
     overlay (placed_bytes D h p) (volume D disks)"
  by (auto simp: fun_eq_iff volume_def overlay_def placed_bytes_def split: option.split)

lemma word_of_sector: "a < 2 ^ 73 \<Longrightarrow> unat (word_of_nat (a div 512) :: sector) = a div 512"
  by (simp add: unat_of_nat less_mult_imp_div_less)

text \<open>The first chunks of the volume are the first chunks of the data disks, in order.\<close>

lemma first_row:
  assumes "disks_ok D" and "i < unat (disk_cnt D)" and "a < PAGE_SIZE" and "i < 2 ^ 32"
  shows "volume D disks (PAGE_SIZE * i + a) = disks (data_disks D ! i) a"
proof -
  let ?s = "word_of_nat ((4096 * i + a) div 512) :: sector"
  have "4096 * i + a < 2 ^ 73" using assms(3,4) by (simp add: PAGE_SIZE_def)
  then have s: "unat ?s = (4096 * i + a) div 512" by (rule word_of_sector)
  have "(4096 * i + a) div 512 = 8 * i + a div 512" by (simp add: div_add)
  with s assms(3) have q: "unat ?s div 8 = i" "unat ?s mod 8 = a div 512" by (simp_all add: PAGE_SIZE_def)
  have n: "disk_cnt D \<noteq> 0" "unat (disk_cnt D) \<le> length (bdev D)" using assms(1) by (simp_all add: disks_ok_def)
  have "fst (place D (4096 * i + a)) = bdev D ! i"
    using assms(2) q(1) by (simp add: place_def Let_def unat_device_num unat_chunk_num)
  moreover have "(4096 * i + a) mod 512 = a mod 512" using mod_mult_self4 [of 512 "8 * i" a] by simp
  then have "snd (place D (4096 * i + a)) = a"
    using assms(2) q n by (simp add: place_def Let_def unat_sector_whole_to_i)
  moreover have "bdev D ! i = data_disks D ! i" using assms(2) n by (simp add: data_disks_def)
  ultimately show ?thesis using \<open>4096 * i + a < 2 ^ 73\<close> by (simp add: volume_def PAGE_SIZE_def)
qed

lemma data_disk_nth:
  assumes "disks_ok D"
  shows "bdev D ! unat (device_num (chunk_num s) (disk_cnt D)) =
    data_disks D ! unat (device_num (chunk_num s) (disk_cnt D))"
    and "unat (device_num (chunk_num s) (disk_cnt D)) < length (data_disks D)"
  using assms raid4.dev_less [of "disk_cnt D" s] by (auto simp: data_disks_def disks_ok_def)

lemma sector_and_rest:
  fixes x y m n :: nat
  assumes "x * 512 + m = y * 512 + n" and "m < 512" and "n < 512"
  shows "x = y \<and> m = n"
proof -
  have "(x * 512 + m) div 512 = x" "(y * 512 + n) div 512 = y" using assms(2,3) by simp_all
  with assms(1) show ?thesis by simp
qed

text \<open>No two bytes of the volume are in the same place.\<close>

lemma place_inj:
  assumes D: "disks_ok D" "distinct (data_disks D)" and a: "a < 2 ^ 73" "c < 2 ^ 73"
    and eq: "place D a = place D c"
  shows "a = c"
proof -
  let ?s = "word_of_nat (a div 512) :: sector" and ?t = "word_of_nat (c div 512) :: sector"
  have p: "bdev D ! unat (device_num (chunk_num ?s) (disk_cnt D)) = bdev D ! unat (device_num (chunk_num ?t) (disk_cnt D))"
    "unat (sector_whole_to_i ?s (disk_cnt D)) * 512 + a mod 512 = unat (sector_whole_to_i ?t (disk_cnt D)) * 512 + c mod 512"
    using eq by (simp_all add: place_def Let_def)
  have "device_num (chunk_num ?s) (disk_cnt D) = device_num (chunk_num ?t) (disk_cnt D)"
    using p(1) D(2) data_disk_nth [OF D(1), of ?s] data_disk_nth [OF D(1), of ?t]
    by (simp add: nth_eq_iff_index_eq word_unat_eq_iff)
  moreover have m: "a mod 512 < 512" "c mod 512 < 512" by simp_all
  have "unat (sector_whole_to_i ?s (disk_cnt D)) = unat (sector_whole_to_i ?t (disk_cnt D)) \<and> a mod 512 = c mod 512"
    using p(2) m by (rule sector_and_rest)
  ultimately have "?s = ?t" "a mod 512 = c mod 512" using layout_inj [of ?s "disk_cnt D" ?t] by (simp_all add: word_unat_eq_iff)
  then have "a div 512 = c div 512" using a by (metis word_of_sector)
  with \<open>a mod 512 = c mod 512\<close> show ?thesis by (metis mod_div_mult_eq)
qed

lemma placed_bytes_request:
  assumes D: "disks_ok D" "distinct (data_disks D)" and b: "whole_bio b" "request_of b" "in_one_chunk b"
  shows "placed_bytes D h (place_part D (bi_sector (bi_iter b)) b) = request_bytes h b"
proof
  fix a
  let ?s = "bi_sector (bi_iter b)" and ?p = "place_part D (bi_sector (bi_iter b)) b"
  let ?S = "unat ?s * 512" and ?P = "unat (sector_whole_to_i ?s (disk_cnt D)) * 512"
  have len: "vec_bytes (bi_io_vec b) = unat (bi_size (bi_iter b))" using b(1) by (simp add: whole_bio_def)
  have at: "place D (?S + j) = (bi_bdev ?p, ?P + j)" if "j < vec_bytes (bi_io_vec b)" for j
    using that b(3) place_in_chunk [of ?s j D] disks_okD(1) [OF D(1)]
    by (simp add: in_one_chunk_def len place_part_def unat_devi)
  have small: "?S + vec_bytes (bi_io_vec b) < 2 ^ 73"
  proof -
    obtain k where k: "unat (bi_size (bi_iter b)) = 512 * k" using b(2) by (auto simp: request_of_def)
    then have "unat ?s + k + 8 < 2 ^ 64" using b(2) by (simp add: request_of_def)
    then show ?thesis by (simp add: len k)
  qed
  have bytes: "request_bytes h ?p = segs_byte h ?P (bi_io_vec b)"
    by (simp add: request_bytes_def place_part_def)
  show "placed_bytes D h ?p a = request_bytes h b a"
  proof (cases "?S \<le> a \<and> a < ?S + vec_bytes (bi_io_vec b)")
    case True
    then obtain j where j: "a = ?S + j" "j < vec_bytes (bi_io_vec b)" using le_Suc_ex by auto
    then have "placed_bytes D h ?p a = segs_byte h ?P (bi_io_vec b) (?P + j)"
      using at small by (simp add: placed_bytes_def bytes)
    also have "\<dots> = segs_byte h ?S (bi_io_vec b) (?S + j)"
      using segs_byte_shift [of h ?P 0 "bi_io_vec b" j] segs_byte_shift [of h ?S 0 "bi_io_vec b" j] by simp
    finally show ?thesis by (simp add: j(1) request_bytes_def)
  next
    case False
    then have none: "request_bytes h b a = None" by (auto simp: request_bytes_def segs_byte_None_iff)
    have "placed_bytes D h ?p a = None"
    proof (rule ccontr)
      assume "placed_bytes D h ?p a \<noteq> None"
      then have a: "a < 2 ^ 73" "fst (place D a) = bi_bdev ?p"
        "?P \<le> snd (place D a)" "snd (place D a) < ?P + vec_bytes (bi_io_vec b)"
        using segs_byte_None_iff [of h ?P "bi_io_vec b" "snd (place D a)"]
        by (auto simp: placed_bytes_def bytes split: if_splits)
      then obtain j where j: "snd (place D a) = ?P + j" "j < vec_bytes (bi_io_vec b)"
        using le_Suc_ex by auto
      then have "place D a = place D (?S + j)" using a(2) at by (simp add: prod_eq_iff)
      then have "a = ?S + j" using a(1) j(2) small by (intro place_inj [OF D]) simp_all
      with j(2) False show False by simp
    qed
    with none show ?thesis by simp
  qed
qed

section \<open>The disk the array promises to be\<close>

text \<open>A disk with write requests that are accepted and performed one by one, in any order.\<close>

record vol =
  v_bytes :: bytes
  v_pending :: "(nat \<Rightarrow> u8 option) multiset"

inductive vol_step :: "(nat \<Rightarrow> u8 option) set \<Rightarrow> vol \<Rightarrow> vol \<Rightarrow> bool" for A where
  accept: "w \<in> A \<Longrightarrow> vol_step A v (v\<lparr>v_pending := add_mset w (v_pending v)\<rparr>)"
| perform: "v_pending v = add_mset w ws \<Longrightarrow> vol_step A v (v\<lparr>v_bytes := overlay w (v_bytes v), v_pending := ws\<rparr>)"

text \<open>The array as such a disk.\<close>

definition pending_bios :: "sys \<Rightarrow> host_bio list" where
  "pending_bios s = concat (map sub_bios (submitted (s_drv s)))"

definition volume_of :: "praid_dev \<Rightarrow> sys \<Rightarrow> vol" where
  "volume_of D s = \<lparr>v_bytes = volume D (s_disks s),
     v_pending = image_mset (placed_bytes D (heap (s_drv s))) (mset (pending_bios s))\<rparr>"

lemma request_bytes_cong:
  "\<forall>p \<in> set (vec_pages (bi_io_vec b)). map_of h p = map_of h' p \<Longrightarrow> request_bytes h b = request_bytes h' b"
  unfolding request_bytes_def by (intro ext segs_byte_cong) (auto simp: vec_pages_def page_of_def)

lemma placed_bytes_cong:
  "\<forall>p \<in> set (vec_pages (bi_io_vec b)). map_of h p = map_of h' p \<Longrightarrow> placed_bytes D h b = placed_bytes D h' b"
  using request_bytes_cong [of b h h'] by (simp add: placed_bytes_def fun_eq_iff)

lemma pending_pages: "caller_pages (submitted (s_drv s)) = (\<Union>b \<in> set (pending_bios s). set (vec_pages (bi_io_vec b)))"
  by (simp add: caller_pages_def pending_bios_def)

lemma volume_of_same:
  assumes "mset (pending_bios t) = mset (pending_bios s)" and "s_disks t = s_disks s"
    and "\<forall>p \<in> caller_pages (submitted (s_drv s)). map_of (heap (s_drv t)) p = map_of (heap (s_drv s)) p"
  shows "volume_of D t = volume_of D s"
proof -
  have "image_mset (placed_bytes D (heap (s_drv t))) (mset (pending_bios s)) =
      image_mset (placed_bytes D (heap (s_drv s))) (mset (pending_bios s))"
    using assms(3) by (intro image_mset_cong placed_bytes_cong) (auto simp: pending_pages)
  then show ?thesis by (simp add: volume_of_def assms(1,2))
qed

section \<open>The shape of the system, whatever overlaps\<close>

definition sound :: "praid_dev \<Rightarrow> sys \<Rightarrow> bool" where
  "sound D s \<longleftrightarrow> (\<exists>m. system_inv (\<lambda>_ _. True) D m s)"

lemma sound_parts: "sound D s \<longleftrightarrow> token_inv s \<and> device_inv s \<and> shape_inv (\<lambda>_ _. True) D s \<and> page_inv s"
proof
  assume p: "token_inv s \<and> device_inv s \<and> shape_inv (\<lambda>_ _. True) D s \<and> page_inv s"
  have "parity_inv D (\<lambda>a. to_come s a XOR mismatch D s a) s"
    by (simp add: parity_inv_def xor.assoc [symmetric])
  with p show "sound D s" by (auto simp: sound_def system_inv_def)
qed (auto simp: sound_def system_inv_def)

lemma sound_inv: "system_inv R D m s \<Longrightarrow> sound D s"
  by (auto simp: sound_parts system_inv_def shape_inv_def sorted_wrt_iff_nth_less)

lemma written_sound:
  assumes "sound D s" and sub: "submitted (s_drv s) = xs @ SubmitHost b # ys"
  shows "sound D (s\<lparr>s_drv := (s_drv s)\<lparr>submitted := xs @ ys\<rparr>, s_disks := disks\<rparr>)"
proof -
  let ?t = "s\<lparr>s_drv := (s_drv s)\<lparr>submitted := xs @ ys\<rparr>, s_disks := disks\<rparr>"
  note s = assms(1) [unfolded sound_parts]
  have "token_inv ?t" "device_inv ?t" using s by (simp_all add: token_inv_def device_inv_def outstanding_def)
  moreover have "shape_inv (\<lambda>_ _. True) D ?t"
    using s by (auto simp: shape_inv_def sub tasks_def sorted_wrt_append)
  moreover have "page_inv ?t"
    using s by (auto simp: page_inv_def used_pages_def owned_pages_def sub tasks_def)
  ultimately show ?thesis by (simp add: sound_parts)
qed

lemma sound_step:
  assumes A: "array_ok K L D" and G: "\<And>b s. G b s \<Longrightarrow> write_request K b s"
    and step: "sys_step K L D G s t" and s: "sound D s" and width: "s_posts t < 2 ^ 32"
  shows "sound D t"
proof -
  obtain m where inv: "system_inv (\<lambda>_ _. True) D m s" using s by (auto simp: sound_def)
  have R: "symp (\<lambda>_ _. True)" by (simp add: symp_def)
  from step show ?thesis
  proof (cases rule: sys_step.cases)
    case (submit b st)
    show ?thesis unfolding submit(1)
      by (rule sound_inv [OF inv_submit [OF inv array_okD(1,2,4) [OF A] G [OF submit(2)] R _ submit(3)]]) simp
  next
    case (read_done xs n ys it h st)
    show ?thesis unfolding read_done(1)
      by (rule sound_inv [OF inv_read_done [OF inv array_okD(1,2) [OF A] R read_done(2-5)]])
  next
    case (write_done xs b ys disk)
    show ?thesis unfolding write_done(1) by (rule written_sound [OF s write_done(2)])
  next
    case (work_down xs w ys st)
    show ?thesis unfolding work_down(1) by (rule sound_inv [OF inv_work_down [OF inv work_down(2,3)]])
  next
    case (work_post xs w ys st mm)
    show ?thesis unfolding work_post(1)
      by (rule sound_inv [OF inv_work_post [OF inv array_okD(6) [OF A] work_post(2,3)]])
         (use width in \<open>simp add: work_post(1)\<close>)
  next
    case (dev E pc d mm disk)
    show ?thesis unfolding dev(1) by (rule sound_inv [OF inv_dev [OF inv dev(2,3) array_okD(3) [OF A] dev(4)]])
  next
    case poll
    show ?thesis unfolding poll(1) by (rule sound_inv [OF inv_poll [OF inv poll(2)]])
  next
    case (irq i rest)
    show ?thesis unfolding irq(1) by (rule sound_inv [OF inv_irq [OF inv irq(2)]])
  next
    case (env h)
    show ?thesis unfolding env(1) by (rule sound_inv [OF inv_env [OF inv env(2)]])
  qed
qed

section \<open>Simulation\<close>

lemma volume_submit:
  assumes A: "array_ok K L D" and s: "sound D s" and req: "write_request K b s"
    and sub: "vpciedisk_submit_bio K D b (s_drv s) = Some (Ret st)"
  shows "volume_of D (s\<lparr>s_drv := st\<rparr>) =
    (volume_of D s)\<lparr>v_pending := add_mset (request_bytes (heap (s_drv s)) b) (v_pending (volume_of D s))\<rparr>"
proof -
  let ?p = "place_part D (bi_sector (bi_iter b)) b"
  have r: "whole_bio b" "unat (bi_vcnt b) \<le> 256" "request_of b" "in_one_chunk b" "bi_opf b = REQ_OP_WRITE"
    "pages_apart K \<or> seam_free (bi_io_vec b)"
    using req by (simp_all add: write_request_def)
  from submit_write_live [OF array_okD(1,2,4) [OF A] r, of "s_drv s"] sub obtain n where
    n: "submitted st = submitted (s_drv s) @ [SubmitVerify n]" "read_for n ?p"
    and heap: "map_of (heap (s_drv s)) \<subseteq>\<^sub>m map_of (heap st)" by auto
  have priv: "bi_private n = Some ?p" using n(2) by (simp add: read_for_def)
  have pages: "caller_pages (submitted (s_drv s)) \<subseteq> dom (map_of (heap (s_drv s)))"
    "set (vec_pages (bi_io_vec b)) \<subseteq> dom (map_of (heap (s_drv s)))"
    using s req by (simp_all add: sound_parts page_inv_def used_pages_def write_request_def)
  have "pending_bios (s\<lparr>s_drv := st\<rparr>) = pending_bios s @ [?p]"
    by (simp add: pending_bios_def n(1) priv)
  moreover have same: "placed_bytes D (heap st) c = placed_bytes D (heap (s_drv s)) c" if "c \<in> set (pending_bios s)" for c
    using that map_le_used [OF heap pages(1)] by (intro placed_bytes_cong) (auto simp: pending_pages)
  moreover have "placed_bytes D (heap st) ?p = request_bytes (heap (s_drv s)) b"
    unfolding placed_bytes_request [OF array_okD(4,5) [OF A] r(1,3,4)]
    by (rule request_bytes_cong [OF map_le_used [OF heap pages(2)]])
  moreover from same have "image_mset (placed_bytes D (heap st)) (mset (pending_bios s)) =
      image_mset (placed_bytes D (heap (s_drv s))) (mset (pending_bios s))"
    by (intro image_mset_cong) simp
  ultimately show ?thesis by (simp add: volume_of_def)
qed

lemma volume_read_done:
  assumes A: "array_ok K L D" and s: "sound D s"
    and sub: "submitted (s_drv s) = xs @ SubmitVerify n # ys" and it: "bi_size it = 0"
    and h: "h = fill_segs (s_disks s (bi_bdev n)) (unat (bi_sector (bi_iter n)) * 512) (bi_io_vec n) (heap (s_drv s))"
    and endio: "pciev_read_bio_endio K (n\<lparr>bi_iter := it\<rparr>) ((s_drv s)\<lparr>submitted := xs @ ys, heap := h\<rparr>) = Some (Ret st)"
  shows "volume_of D (s\<lparr>s_drv := st\<rparr>) = volume_of D s"
proof (rule volume_of_same)
  obtain m where inv: "system_inv (\<lambda>_ _. True) D m s" using s by (auto simp: sound_def)
  from read_done_effect [OF inv array_okD(1,2) [OF A] sub it h endio] obtain b where
    b: "read_for n b" "submitted st = xs @ ys @ [SubmitHost b]"
    and kept: "\<And>p. p \<in> dom (map_of h) \<Longrightarrow> p \<notin> set (vec_pages (bi_io_vec n)) \<Longrightarrow>
      map_of (heap st) p = map_of (heap (s_drv s)) p" by metis
  have priv: "bi_private n = Some b" using b(1) by (simp add: read_for_def)
  show "mset (pending_bios (s\<lparr>s_drv := st\<rparr>)) = mset (pending_bios s)"
    by (simp add: pending_bios_def b(2) sub priv)
  show "\<forall>p \<in> caller_pages (submitted (s_drv s)).
      map_of (heap (s_drv (s\<lparr>s_drv := st\<rparr>))) p = map_of (heap (s_drv s)) p"
  proof
    fix p assume p: "p \<in> caller_pages (submitted (s_drv s))"
    have "page_inv s" using s by (simp add: sound_parts)
    then have "p \<in> dom (map_of (heap (s_drv s)))" "p \<notin> set (owned_pages (submitted (s_drv s)) (tasks s))"
      using p by (auto simp: page_inv_def used_pages_def)
    then show "map_of (heap (s_drv (s\<lparr>s_drv := st\<rparr>))) p = map_of (heap (s_drv s)) p"
      using kept [of p] by (simp add: h owned_pages_def sub)
  qed
qed simp

lemma volume_write_done:
  assumes sub: "submitted (s_drv s) = xs @ SubmitHost b # ys"
    and disk: "disk = write_segs (heap (s_drv s)) (unat (bi_sector (bi_iter b)) * 512) (bi_io_vec b) (s_disks s (bi_bdev b))"
  shows "vol_step W (volume_of D s) (volume_of D (s\<lparr>s_drv := (s_drv s)\<lparr>submitted := xs @ ys\<rparr>,
       s_disks := (s_disks s)(bi_bdev b := disk)\<rparr>))"
proof -
  let ?t = "s\<lparr>s_drv := (s_drv s)\<lparr>submitted := xs @ ys\<rparr>, s_disks := (s_disks s)(bi_bdev b := disk)\<rparr>"
  let ?w = "placed_bytes D (heap (s_drv s)) b"
  have "v_pending (volume_of D s) = add_mset ?w (v_pending (volume_of D ?t))"
    by (simp add: volume_of_def pending_bios_def sub)
  moreover have "disk = overlay (request_bytes (heap (s_drv s)) b) (s_disks s (bi_bdev b))"
    unfolding disk write_segs_overlay request_bytes_def ..
  then have "v_bytes (volume_of D ?t) = overlay ?w (v_bytes (volume_of D s))"
    by (simp add: volume_of_def volume_write)
  then have "volume_of D ?t =
      (volume_of D s)\<lparr>v_bytes := overlay ?w (v_bytes (volume_of D s)), v_pending := v_pending (volume_of D ?t)\<rparr>"
    by simp
  ultimately show ?thesis by (metis vol_step.perform)
qed

lemma volume_work_post:
  assumes K: "kmap_total K" and s: "sound D s" and w: "s_workers s = xs @ w # ys"
    and post: "verify_work_post K w (s_drv s, s_mmio s) = Ret (st, mm)"
  shows "volume_of D (s\<lparr>s_drv := st, s_mmio := mm, s_workers := xs @ ys, s_posts := Suc (s_posts s)\<rparr>) = volume_of D s"
proof (rule volume_of_same)
  let ?t = "s\<lparr>s_drv := st, s_mmio := mm, s_workers := xs @ ys, s_posts := Suc (s_posts s)\<rparr>"
  have "page_inv s" using s by (simp add: sound_parts)
  then have own: "w_page_new w \<in> dom (map_of (heap (s_drv s)))" "w_page_old w \<in> dom (map_of (heap (s_drv s)))"
    "w_page_new w \<noteq> w_page_old w" "w_page_new w \<notin> caller_pages (submitted (s_drv s))"
    "w_page_old w \<notin> caller_pages (submitted (s_drv s))"
    by (auto simp: page_inv_def used_pages_def owned_pages_def tasks_def w)
  then obtain cn co where c: "map_of (heap (s_drv s)) (w_page_new w) = Some cn"
    "map_of (heap (s_drv s)) (w_page_old w) = Some co" by blast
  obtain st' where st': "verify_work_post K w (s_drv s, s_mmio s) = Ret (st', posted (s_mmio s) w co cn)"
    "map_of (heap st') = (map_of (heap (s_drv s)))(w_page_new w := None, w_page_old w := None)"
    "same_rest (s_drv s) st'" using verify_work_post_ok [OF K c own(3)] by blast
  then have st: "map_of (heap st) = (map_of (heap (s_drv s)))(w_page_new w := None, w_page_old w := None)"
    "submitted st = submitted (s_drv s)" using post by (simp_all add: same_rest_def same_io_def)
  show "mset (pending_bios ?t) = mset (pending_bios s)" by (simp add: pending_bios_def st(2))
  show "\<forall>p \<in> caller_pages (submitted (s_drv s)). map_of (heap (s_drv ?t)) p = map_of (heap (s_drv s)) p"
    using own(4,5) by (auto simp: st(1))
qed simp

lemma volume_step:
  assumes A: "array_ok K L D" and G: "\<And>b s. G b s \<Longrightarrow> write_request K b s"
    and step: "sys_step K L D G s t" and s: "sound D s"
  shows "volume_of D t = volume_of D s \<or>
    vol_step {request_bytes (heap (s_drv s)) b | b. G b s} (volume_of D s) (volume_of D t)"
  using step
proof (cases rule: sys_step.cases)
  case (submit b st)
  have "request_bytes (heap (s_drv s)) b \<in> {request_bytes (heap (s_drv s)) b | b. G b s}"
    using submit(2) by blast
  then show ?thesis unfolding submit(1) volume_submit [OF A s G [OF submit(2)] submit(3)]
    by (intro disjI2 vol_step.accept)
next
  case (read_done xs n ys it h st)
  show ?thesis unfolding read_done(1) by (rule disjI1, rule volume_read_done [OF A s read_done(2-5)])
next
  case (write_done xs b ys disk)
  show ?thesis unfolding write_done(1) by (rule disjI2, rule volume_write_done [OF write_done(2,3)])
next
  case (work_post xs w ys st mm)
  show ?thesis unfolding work_post(1)
    by (rule disjI1, rule volume_work_post [OF array_okD(6) [OF A] s work_post(2,3)])
next
  case (env h)
  then show ?thesis by (intro disjI1 volume_of_same) (auto simp: pending_bios_def used_pages_def)
next
  case (work_down xs w ys st)
  have "volume_of D t = volume_of D s"
    using work_down(3) by (intro volume_of_same)
      (auto simp: work_down(1) pending_bios_def down_interruptible_def split: if_splits)
  then show ?thesis ..
next
  case (dev E pc d mm disk)
  have "volume_of D t = volume_of D s" by (rule volume_of_same) (simp_all add: dev(1) pending_bios_def)
  then show ?thesis ..
next
  case poll
  have "volume_of D t = volume_of D s" by (rule volume_of_same) (simp_all add: poll(1) pending_bios_def)
  then show ?thesis ..
next
  case (irq i rest)
  have "volume_of D t = volume_of D s"
    by (rule volume_of_same) (simp_all add: irq(1) pending_bios_def pcievdrv_interrupt_def up_def)
  then show ?thesis ..
qed

section \<open>Runs and what was asked for in them\<close>

inductive sys_log :: "kernel \<Rightarrow> irq_layer \<Rightarrow> praid_dev \<Rightarrow> (host_bio \<Rightarrow> sys \<Rightarrow> bool) \<Rightarrow> sys \<Rightarrow>
    (nat \<Rightarrow> u8 option) list \<Rightarrow> sys \<Rightarrow> bool" for K L D G s where
  nothing: "sys_log K L D G s [] s"
| request: "sys_log K L D G s ws u \<Longrightarrow> G b u \<Longrightarrow> vpciedisk_submit_bio K D b (s_drv u) = Some (Ret st) \<Longrightarrow>
     sys_log K L D G s (ws @ [request_bytes (heap (s_drv u)) b]) (u\<lparr>s_drv := st\<rparr>)"
| inside: "sys_log K L D G s ws u \<Longrightarrow> sys_step K L D (\<lambda>_ _. False) u t \<Longrightarrow> sys_log K L D G s ws t"

lemma sys_log_run: "sys_log K L D G s ws t \<Longrightarrow> sys_run K L D G s t"
proof (induction rule: sys_log.induct)
  case (request ws u b st)
  from sys_step.submit [of G b u, OF request.hyps(2,3)] request.IH show ?case by (rule rtranclp.rtrancl_into_rtrancl [rotated])
next
  case (inside ws u t)
  have "sys_step K L D G u t" using inside.hyps(2) by (rule sys_step_mono) simp
  with inside.IH show ?case by (rule rtranclp.rtrancl_into_rtrancl)
qed simp

lemma sys_run_log: "sys_run K L D G s t \<Longrightarrow> \<exists>ws. sys_log K L D G s ws t"
proof (induction rule: rtranclp_induct)
  case base
  show ?case using sys_log.nothing ..
next
  case (step t u)
  then obtain ws where ws: "sys_log K L D G s ws t" by blast
  from step.hyps(2) have "sys_step K L D (\<lambda>_ _. False) t u \<or>
      (\<exists>b st. G b t \<and> vpciedisk_submit_bio K D b (s_drv t) = Some (Ret st) \<and> u = t\<lparr>s_drv := st\<rparr>)"
    by cases (blast intro: sys_step.intros)+
  then show ?case using ws by (blast intro: sys_log.intros)
qed

text \<open>The contents of the requests under way, and the volume once they are written in that order.\<close>

definition pending_writes :: "praid_dev \<Rightarrow> sys \<Rightarrow> (nat \<Rightarrow> u8 option) list" where
  "pending_writes D s = map (placed_bytes D (heap (s_drv s))) (pending_bios s)"

definition settled :: "praid_dev \<Rightarrow> sys \<Rightarrow> bytes" where
  "settled D s = fold overlay (pending_writes D s) (volume D (s_disks s))"

lemma volume_of_pending: "volume_of D s = \<lparr>v_bytes = volume D (s_disks s), v_pending = mset (pending_writes D s)\<rparr>"
  by (simp add: volume_of_def pending_writes_def)

lemma settled_quiet: "quiet s \<Longrightarrow> settled D s = volume D (s_disks s)"
  by (simp add: settled_def pending_writes_def pending_bios_def quiet_def)

lemma overlay_commute: "dom w \<inter> dom w' = {} \<Longrightarrow> overlay w \<circ> overlay w' = overlay w' \<circ> overlay w"
  by (fastforce simp: fun_eq_iff overlay_def split: option.split)

lemma placed_bytes_range:
  assumes "bio_shape D c" and "placed_bytes D h c a \<noteq> None"
  shows "fst (place D a) = bi_bdev c \<and> snd (place D a) \<in> bio_range c"
  using assms(2) segs_byte_None_iff [of h "unat (bi_sector (bi_iter c)) * 512" "bi_io_vec c" "snd (place D a)"]
  by (auto simp: bio_range_shape [OF assms(1)] placed_bytes_def request_bytes_def split: if_splits)

text \<open>Requests under way that do not overlap can be written in any order.\<close>

lemma disjoint_pending:
  assumes "shape_inv disjoint_bios D s" and "w \<in> set (pending_writes D s)" and "w' \<in> set (pending_writes D s)"
  shows "w = w' \<or> dom w \<inter> dom w' = {}"
proof -
  let ?h = "heap (s_drv s)"
  obtain i j where i: "i < length (pending_bios s)" "w = placed_bytes D ?h (pending_bios s ! i)"
    and j: "j < length (pending_bios s)" "w' = placed_bytes D ?h (pending_bios s ! j)"
    using assms(2,3) by (auto simp: pending_writes_def in_set_conv_nth)
  have sorted: "sorted_wrt disjoint_bios (pending_bios s)" and
    shape: "\<And>c. c \<in> set (pending_bios s) \<Longrightarrow> bio_shape D c"
    using assms(1) shape_inv_bios [OF assms(1)] by (simp_all add: shape_inv_def pending_bios_def)
  show ?thesis
  proof (cases "i = j")
    case False
    then have "disjoint_bios (pending_bios s ! i) (pending_bios s ! j)"
      using sorted i(1) j(1) disjoint_bios_sym by (metis linorder_neqE_nat sorted_wrt_iff_nth_less)
    moreover have b: "bio_shape D (pending_bios s ! i)" "bio_shape D (pending_bios s ! j)"
      using i(1) j(1) shape by simp_all
    note placed_bytes_range [OF b(1), of ?h] placed_bytes_range [OF b(2), of ?h]
    ultimately have "\<not> (w a \<noteq> None \<and> w' a \<noteq> None)" for a
      unfolding i(2) j(2) disjoint_bios_def by (metis disjoint_iff)
    then have "dom w \<inter> dom w' = {}" by (simp add: dom_def set_eq_iff)
    then show ?thesis ..
  qed (simp add: i(2) j(2))
qed

lemma settled_any_order:
  assumes "shape_inv disjoint_bios D s" and "mset ws = mset (pending_writes D s)"
  shows "fold overlay ws v = fold overlay (pending_writes D s) v"
proof -
  have "overlay x \<circ> overlay y = overlay y \<circ> overlay x" if "x \<in> set ws" "y \<in> set ws" for x y
  proof -
    have "x \<in> set (pending_writes D s)" "y \<in> set (pending_writes D s)"
      using that assms(2) by (metis set_mset_mset)+
    from disjoint_pending [OF assms(1) this] show ?thesis
    proof
      assume "dom x \<inter> dom y = {}"
      then show ?thesis by (rule overlay_commute)
    qed simp
  qed
  then show ?thesis using fold_multiset_equiv [of ws overlay "pending_writes D s"] assms(2) by metis
qed

lemma settled_step:
  assumes A: "array_ok K L D" and inv: "system_inv disjoint_bios D m s" "system_inv disjoint_bios D m t"
    and step: "sys_step K L D (\<lambda>_ _. False) s t"
  shows "settled D t = settled D s"
proof -
  have shape: "shape_inv disjoint_bios D s" "shape_inv disjoint_bios D t"
    using inv by (simp_all add: system_inv_def)
  from volume_step [OF A _ step sound_inv [OF inv(1)]]
  consider "volume_of D t = volume_of D s" | "vol_step {} (volume_of D s) (volume_of D t)" by auto
  then show ?thesis
  proof cases
    case 1
    then show ?thesis using settled_any_order [OF shape(1), of "pending_writes D t"]
      by (simp add: settled_def volume_of_pending)
  next
    case 2
    then obtain w where "mset (pending_writes D s) = mset (w # pending_writes D t)"
      "volume D (s_disks t) = overlay w (volume D (s_disks s))"
      by (cases rule: vol_step.cases) (auto simp: volume_of_pending)
    then show ?thesis using settled_any_order [OF shape(1), of "w # pending_writes D t"]
      by (simp add: settled_def)
  qed
qed

lemma settled_submit:
  assumes A: "array_ok K L D" and inv: "system_inv disjoint_bios D m s" "system_inv disjoint_bios D m (s\<lparr>s_drv := st\<rparr>)"
    and req: "write_request K b s" and sub: "vpciedisk_submit_bio K D b (s_drv s) = Some (Ret st)"
  shows "settled D (s\<lparr>s_drv := st\<rparr>) = overlay (request_bytes (heap (s_drv s)) b) (settled D s)"
proof -
  let ?t = "s\<lparr>s_drv := st\<rparr>"
  have shape: "shape_inv disjoint_bios D ?t" using inv by (simp add: system_inv_def)
  have "mset (pending_writes D s @ [request_bytes (heap (s_drv s)) b]) = mset (pending_writes D ?t)"
    "volume D (s_disks ?t) = volume D (s_disks s)"
    using volume_submit [OF A sound_inv [OF inv(1)] req sub] by (simp_all add: volume_of_pending)
  from settled_any_order [OF shape this(1)] this(2) show ?thesis
    by (simp only: settled_def fold_append o_apply fold_simps)
qed

lemma sys_log_settled:
  assumes A: "array_ok K L D" and log: "sys_log K L D (careful K D) s ws t"
    and inv: "system_inv disjoint_bios D m s"
  shows "s_posts t < 2 ^ 32 \<Longrightarrow> settled D t = fold overlay ws (settled D s)"
  using log
proof (induction rule: sys_log.induct)
  case (request ws u b st)
  let ?t = "u\<lparr>s_drv := st\<rparr>"
  have p: "s_posts u < 2 ^ 32" using request.prems by simp
  have u: "system_inv disjoint_bios D m u"
    by (rule sys_run_inv [OF A _ sys_log_run [OF request.hyps(1)] inv p])
  have step: "sys_step K L D (careful K D) u ?t" by (rule sys_step.submit [of "careful K D" b u, OF request.hyps(2,3)])
  have t: "system_inv disjoint_bios D m ?t" using sys_step_inv [OF A _ step u request.prems] by simp
  have "write_request K b u" using request.hyps(2) by (simp add: careful_def)
  from settled_submit [OF A u t this request.hyps(3)] request.IH [OF p] show ?case by simp
next
  case (inside ws u t)
  have p: "s_posts u < 2 ^ 32" using inside.prems sys_step_posts [OF inside.hyps(2)] by simp
  have u: "system_inv disjoint_bios D m u"
    by (rule sys_run_inv [OF A _ sys_log_run [OF inside.hyps(1)] inv p])
  have t: "system_inv disjoint_bios D m t" using sys_step_inv [OF A _ inside.hyps(2) u inside.prems] by simp
  from settled_step [OF A u t inside.hyps(2)] inside.IH [OF p] show ?case by simp
qed simp

lemma sys_run_sound:
  assumes A: "array_ok K L D" and G: "\<And>b s. G b s \<Longrightarrow> write_request K b s"
  shows "sys_run K L D G s t \<Longrightarrow> sound D s \<Longrightarrow> s_posts t < 2 ^ 32 \<Longrightarrow> sound D t"
proof (induction rule: rtranclp_induct)
  case (step t u)
  have "s_posts t \<le> s_posts u" using step.hyps(2) by (rule sys_step_posts)
  then show ?case using step sound_step [OF A G step.hyps(2)] by simp
qed simp

lemma vol_step_mono: "vol_step A v v' \<Longrightarrow> A \<subseteq> B \<Longrightarrow> vol_step B v v'"
  by (erule vol_step.cases) (auto intro: vol_step.intros)

lemma sys_log_once:
  assumes A: "array_ok K L D" and G: "\<And>b s. G b s \<Longrightarrow> write_request K b s"
    and log: "sys_log K L D G s ws t" and s: "sound D s"
  shows "s_posts t < 2 ^ 32 \<Longrightarrow> \<exists>vs. mset (vs @ pending_writes D t) = mset (ws @ pending_writes D s) \<and>
    volume D (s_disks t) = fold overlay vs (volume D (s_disks s))"
  using log
proof (induction rule: sys_log.induct)
  case nothing
  show ?case by (intro exI [of _ "[]"]) simp
next
  case (request ws u b st)
  have p: "s_posts u < 2 ^ 32" using request.prems by simp
  have u: "sound D u" by (rule sys_run_sound [OF A G sys_log_run [OF request.hyps(1)] s p])
  from request.IH [OF p] volume_submit [OF A u G [OF request.hyps(2)] request.hyps(3)]
  show ?case by (auto simp: volume_of_pending)
next
  case (inside ws u t)
  have p: "s_posts u < 2 ^ 32" using inside.prems sys_step_posts [OF inside.hyps(2)] by simp
  have u: "sound D u" by (rule sys_run_sound [OF A G sys_log_run [OF inside.hyps(1)] s p])
  from inside.IH [OF p] obtain vs where vs: "mset (vs @ pending_writes D u) = mset (ws @ pending_writes D s)"
    "volume D (s_disks u) = fold overlay vs (volume D (s_disks s))" by blast
  from volume_step [OF A _ inside.hyps(2) u]
  consider "volume_of D t = volume_of D u" | "vol_step {} (volume_of D u) (volume_of D t)" by auto
  then show ?case
  proof cases
    case 1
    with vs show ?thesis by (intro exI [of _ vs]) (simp add: volume_of_pending)
  next
    case 2
    then obtain w where "mset (pending_writes D u) = add_mset w (mset (pending_writes D t))"
      "volume D (s_disks t) = overlay w (volume D (s_disks u))"
      by (cases rule: vol_step.cases) (auto simp: volume_of_pending)
    with vs show ?thesis by (intro exI [of _ "vs @ [w]"]) simp
  qed
qed

lemma sys_log_inside:
  "sys_run K L D (\<lambda>_ _. False) u t \<Longrightarrow> sys_log K L D G s ws u \<Longrightarrow> sys_log K L D G s ws t"
  by (induction rule: rtranclp_induct) (auto intro: sys_log.inside)

text \<open>At start-up nothing is pending.\<close>

lemma start_settled: "sys_start s \<Longrightarrow> settled D s = volume D (s_disks s)"
  by (simp add: sys_start_def settled_def pending_writes_def pending_bios_def)

lemma log_from_start:
  assumes A: "array_ok K L D" and start: "sys_start s" and log: "sys_log K L D (careful K D) s ws t"
    and width: "s_posts t < 2 ^ 32"
  shows "settled D t = fold overlay ws (volume D (s_disks s))"
  using sys_log_settled [OF A log sys_start_inv [OF start] width] by (simp add: start_settled [OF start])

text \<open>A request sent to the array at start-up can be served.\<close>

lemma request_served:
  assumes A: "array_ok K L D" and start: "sys_start s" and req: "write_request K b s"
  shows "\<exists>t. sys_log K L D (careful K D) s [request_bytes (heap (s_drv s)) b] t \<and> quiet t \<and> s_posts t < 2 ^ 32"
proof -
  note inv = sys_start_inv [OF start, of D]
  have s: "submitted (s_drv s) = []" "workqueue (s_drv s) = []" "s_workers s = []" "s_posts s = 0"
    using start by (simp_all add: sys_start_def)
  have G: "careful K D b s" by (simp add: careful_def req s)
  have r: "whole_bio b" "unat (bi_vcnt b) \<le> 256" "request_of b" "in_one_chunk b" "bi_opf b = REQ_OP_WRITE"
    "pages_apart K \<or> seam_free (bi_io_vec b)"
    using req by (simp_all add: write_request_def)
  obtain st n where st: "vpciedisk_submit_bio K D b (s_drv s) = Some (Ret st)"
    "submitted st = [SubmitVerify n]" "workqueue st = []" "read_for n (place_part D (bi_sector (bi_iter b)) b)"
    using submit_write_live [OF array_okD(1,2,4) [OF A] r, of "s_drv s"] by (auto simp: s)
  let ?u = "s\<lparr>s_drv := st\<rparr>"
  have log: "sys_log K L D (careful K D) s ([] @ [request_bytes (heap (s_drv s)) b]) ?u"
    by (rule sys_log.request [of K L D "careful K D" s "[]" s b, OF sys_log.nothing G st(1)])
  have inv_u: "system_inv disjoint_bios D (mismatch D s) ?u"
    by (rule inv_submit [OF inv array_okD(1,2,4) [OF A] req symp_disjoint_bios _ st(1)]) (simp add: s)
  have "length (bi_io_vec n) \<le> 256"
    using read_for_length [OF st(4)] r(1,2) by (simp add: place_part_def whole_bio_def)
  then have "posts_due ?u < 2 ^ 32" by (simp add: posts_due_def tasks_def st(2,3) s)
  from run_to_quiet [OF A inv_u this] obtain t where
    t: "sys_run K L D (\<lambda>_ _. False) ?u t" "quiet t" "system_inv disjoint_bios D (mismatch D s) t" by blast
  have "s_posts t < 2 ^ 32"
    using t(3) unat_less [of "io_num (mm_bar (s_mmio t))"] by (simp add: system_inv_def device_inv_def)
  then show ?thesis using t(2) sys_log_inside [OF t(1) log] by auto
qed

section \<open>The example again\<close>

lemma example_log:
  "\<exists>t. sys_log reference_kernel example_irq example_dev (careful reference_kernel example_dev) example_sys
     [request_bytes (heap (s_drv example_sys)) example_write] t \<and> quiet t \<and> s_posts t < 2 ^ 32"
  by (rule request_served [OF example_array_ok example_start example_write_request])

text \<open>The request of the example writes fives to the first bytes from sector 40 on.\<close>

lemma example_request_bytes:
  "request_bytes (heap (s_drv example_sys)) example_write =
     (\<lambda>a. if 20480 \<le> a \<and> a < 22016 then Some 5 else None)"
  by (simp add: fun_eq_iff request_bytes_def example_write_def)
     (simp add: example_sys_def example_drv_def page_of_def)

section \<open>One disk\<close>

text \<open>
  C1: Under careful use an array of one or more data disks, all different devices and none of them
  the parity disk, is one disk. The use is careful if the requests are writes of
  whole sectors, each inside one chunk, of at most 256 vectors, in allocated pages that the
  caller leaves alone until they are written, overlapping no request still under way, and with
  no two vectors that meet at a page boundary unless the page allocator keeps its pages apart.
  Let further memory be available, pages be mappable, work be queued, interrupts be delivered, no signal arrive and no
  access to a disk fail. Then at every moment before \<open>2\<^sup>32\<close> tasks have been posted, in whatever order the driver,
  the device and the block layer took their steps, the volume, once the requests still under
  way are written, is what a plain disk would hold that had been given the same requests one
  after the other. (What requests outside of this do: C37, C39, C40.)
\<close>

theorem array_is_one_disk:
  assumes "array_ok K L D" and "sys_start s" and "sys_log K L D (careful K D) s ws t" and "s_posts t < 2 ^ 32"
  shows "fold overlay (pending_writes D t) (volume D (s_disks t)) = fold overlay ws (volume D (s_disks s))"
  using log_from_start [OF assms] by (simp add: settled_def)

theorem array_is_one_disk_witness:
  "\<exists>t. sys_log reference_kernel example_irq example_dev (careful reference_kernel example_dev) example_sys
     [request_bytes (heap (s_drv example_sys)) example_write] t \<and> quiet t \<and>
     volume example_dev (s_disks t) 20480 = 5"
proof -
  obtain t where t: "sys_log reference_kernel example_irq example_dev (careful reference_kernel example_dev) example_sys
     [request_bytes (heap (s_drv example_sys)) example_write] t" "quiet t" "s_posts t < 2 ^ 32"
    using example_log by blast
  from array_is_one_disk [OF example_array_ok example_start t(1,3)]
  have "volume example_dev (s_disks t) = overlay (request_bytes (heap (s_drv example_sys)) example_write)
      (volume example_dev (s_disks example_sys))"
    using settled_quiet [OF t(2), of example_dev] by (simp add: settled_def)
  then have "volume example_dev (s_disks t) 20480 = 5" by (simp add: overlay_def example_request_bytes)
  with t(1,2) show ?thesis by blast
qed

text \<open>
  C11: Also when requests overlap, and the parity may go wrong, no data is made up or lost: every
  request is either still under way or has been written exactly once, and the volume is the
  result of those that have, in some order. The requests are careful as in C1 but for the
  overlap (whole sectors inside one chunk, at most 256 vectors, no two of which meet at a page
  boundary unless the allocator keeps its pages apart), and as there nothing fails and fewer
  than \<open>2\<^sup>32\<close> tasks have been posted. (C39 and C40 show that other requests can be lost.)
\<close>

theorem requests_written_once:
  assumes "array_ok K L D" and "sys_start s" and "sys_log K L D (write_request K) s ws t" and "s_posts t < 2 ^ 32"
  shows "\<exists>vs. mset (vs @ pending_writes D t) = mset ws \<and>
    volume D (s_disks t) = fold overlay vs (volume D (s_disks s))"
proof -
  have "sound D s" using sys_start_inv [OF assms(2)] by (rule sound_inv)
  moreover have "pending_writes D s = []"
    using assms(2) by (simp add: sys_start_def pending_writes_def pending_bios_def)
  ultimately show ?thesis using sys_log_once [OF assms(1) _ assms(3) _ assms(4)] by simp
qed

lemma sys_log_mono:
  "sys_log K L D G s ws t \<Longrightarrow> (\<And>b s. G b s \<Longrightarrow> G' b s) \<Longrightarrow> sys_log K L D G' s ws t"
  by (induction rule: sys_log.induct) (blast intro: sys_log.intros)+

text \<open>On a kernel that hands out neighbouring pages.\<close>

theorem requests_written_once_witness:
  "\<exists>t vs. \<not> pages_apart dense_kernel \<and> sys_log dense_kernel example_irq example_dev (write_request dense_kernel) example_sys
     [request_bytes (heap (s_drv example_sys)) example_write] t \<and> quiet t \<and>
     mset (vs @ pending_writes example_dev t) = {#request_bytes (heap (s_drv example_sys)) example_write#} \<and>
     volume example_dev (s_disks t) = fold overlay vs (volume example_dev (s_disks example_sys))"
proof -
  obtain t where t: "sys_log dense_kernel example_irq example_dev (careful dense_kernel example_dev) example_sys
     [request_bytes (heap (s_drv example_sys)) example_write] t" "quiet t" "s_posts t < 2 ^ 32"
    using request_served [OF dense_kernel_array(1) example_start dense_write_request] by blast
  have log: "sys_log dense_kernel example_irq example_dev (write_request dense_kernel) example_sys
     [request_bytes (heap (s_drv example_sys)) example_write] t"
    by (rule sys_log_mono [OF t(1)]) (simp add: careful_def)
  from requests_written_once [OF dense_kernel_array(1) example_start this t(3)] log t(2) dense_kernel_array(2)
  show ?thesis by auto
qed

section \<open>After the loss of a disk\<close>

text \<open>The contents of disk \<open>d\<close> as the parity disk and the other data disks give them.\<close>

definition rebuilt :: "praid_dev \<Rightarrow> sys \<Rightarrow> nat \<Rightarrow> bytes" where
  "rebuilt D s d = (\<lambda>a. s_parity s a XOR xor_list (\<lambda>e. s_disks s e a) (remove1 d (data_disks D)))"

text \<open>
  C3: What was written survives the loss of a disk. Start from an array in sync, send any careful
  requests (whole sectors inside one chunk, at most 256 vectors, over no request still under
  way, no two vectors meeting at a page boundary unless the allocator keeps its pages apart),
  let memory be available, pages be mappable, no signal arrive and no disk fail meanwhile, wait
  until nothing is under way, before \<open>2\<^sup>32\<close> tasks have been posted, and take any one data disk
  out: with that disk rebuilt from the parity disk and the others, the volume is what a plain
  disk would hold that had been given the same requests. (Overlapping requests break exactly
  this: C37.)
\<close>

theorem data_survives_disk_loss:
  assumes "array_ok K L D" and "sys_start s" and "\<forall>a. mismatch D s a = 0"
    and "sys_log K L D (careful K D) s ws t" and "s_posts t < 2 ^ 32" and "quiet t" and "d \<in> set (data_disks D)"
  shows "volume D ((s_disks t)(d := rebuilt D t d)) = fold overlay ws (volume D (s_disks s))"
proof -
  have "rebuilt D t d = s_disks t d"
    using disk_from_rest [OF assms(1-3) sys_log_run [OF assms(4)] assms(5-7)] by (simp add: rebuilt_def fun_eq_iff)
  then show ?thesis
    using log_from_start [OF assms(1,2,4,5)] by (simp add: settled_quiet [OF assms(6)])
qed

theorem data_survives_disk_loss_witness:
  "\<exists>t. sys_log reference_kernel example_irq example_dev (careful reference_kernel example_dev) example_sys
     [request_bytes (heap (s_drv example_sys)) example_write] t \<and>
     volume example_dev ((s_disks t)(102 := rebuilt example_dev t 102)) 20480 = 5"
proof -
  obtain t where t: "sys_log reference_kernel example_irq example_dev (careful reference_kernel example_dev) example_sys
     [request_bytes (heap (s_drv example_sys)) example_write] t" "quiet t" "s_posts t < 2 ^ 32"
    using example_log by blast
  from data_survives_disk_loss [OF example_array_ok example_start _ t(1,3,2), of 102]
  have "volume example_dev ((s_disks t)(102 := rebuilt example_dev t 102)) =
      fold overlay [request_bytes (heap (s_drv example_sys)) example_write] (volume example_dev (s_disks example_sys))"
    by (simp add: example_in_sync example_data_disks)
  then have "volume example_dev ((s_disks t)(102 := rebuilt example_dev t 102)) 20480 = 5"
    by (simp add: overlay_def example_request_bytes)
  with t(1) show ?thesis by blast
qed

section \<open>Reading back\<close>

text \<open>What the block layer delivers for a read bio: each byte of its memory with the byte of the disk that goes there.\<close>

definition delivered :: "(nat \<Rightarrow> bytes) \<Rightarrow> host_bio \<Rightarrow> ((nat \<times> nat) \<times> u8) list" where
  "delivered disks c = map (\<lambda>(cell, d, a). (cell, disks d a)) (bio_transfer c)"

lemma delivered_request:
  assumes "bio_ok b" and "unat (bi_sector (bi_iter b)) * 512 + unat (bi_size (bi_iter b)) \<le> 2 ^ 73"
  shows "map (\<lambda>(cell, d, a). (cell, disks d a)) (request_transfer D b) = zip (bio_cells b)
    (map (volume D disks) [unat (bi_sector (bi_iter b)) * 512 ..<
       unat (bi_sector (bi_iter b)) * 512 + unat (bi_size (bi_iter b))])"
proof (rule nth_equalityI)
  show "length (map (\<lambda>(cell, d, a). (cell, disks d a)) (request_transfer D b)) = length (zip (bio_cells b)
      (map (volume D disks) [unat (bi_sector (bi_iter b)) * 512 ..<
         unat (bi_sector (bi_iter b)) * 512 + unat (bi_size (bi_iter b))]))"
    by (simp add: request_transfer_def)
next
  fix i assume "i < length (map (\<lambda>(cell, d, a). (cell, disks d a)) (request_transfer D b))"
  then have i: "i < length (bio_cells b)" "i < unat (bi_size (bi_iter b))" by (simp_all add: request_transfer_def)
  then have "unat (bi_sector (bi_iter b)) * 512 + i < 2 ^ 73" using assms(2) by simp
  then show "map (\<lambda>(cell, d, a). (cell, disks d a)) (request_transfer D b) ! i = zip (bio_cells b)
      (map (volume D disks) [unat (bi_sector (bi_iter b)) * 512 ..<
         unat (bi_sector (bi_iter b)) * 512 + unat (bi_size (bi_iter b))]) ! i"
    using i by (simp add: request_transfer_def volume_def split_beta del: place_def)
qed

text \<open>
  C10: What was written is what is read. After any careful writes (whole sectors inside one chunk,
  at most 256 vectors, over no request still under way, no two vectors meeting at a page
  boundary unless the allocator keeps its pages apart) in which nothing failed, when nothing is
  under way and fewer than \<open>2\<^sup>32\<close> tasks have been posted, a read of any range of sectors, across
  as many chunks as it likes, is cut into bios that together deliver to the caller's memory
  exactly the bytes that a plain disk would hold there.
\<close>

theorem reads_return_writes:
  assumes "array_ok K L D" and "split_total K" and "sys_start s" and "sys_log K L D (careful K D) s ws t"
    and "s_posts t < 2 ^ 32" and "quiet t" and "request_of b" and "bi_opf b = REQ_OP_READ"
  shows "\<exists>cs st. vpciedisk_submit_bio K D b (s_drv t) = Some (Ret st) \<and> submitted st = map SubmitHost cs \<and>
    concat (map (delivered (s_disks t)) cs) = zip (bio_cells b)
      (map (fold overlay ws (volume D (s_disks s))) [unat (bi_sector (bi_iter b)) * 512 ..<
         unat (bi_sector (bi_iter b)) * 512 + unat (bi_size (bi_iter b))])"
proof -
  from read_request_parts [OF array_okD(1) [OF assms(1)] assms(2) array_okD(4) [OF assms(1)] assms(7,8), of "s_drv t"]
  obtain cs r where r: "vpciedisk_submit_bio K D b (s_drv t) = Some (Ret ((s_drv t)\<lparr>
      submitted := submitted (s_drv t) @ map SubmitHost (cs @ [r]),
      bio_chains := bio_chains (s_drv t) @ map (\<lambda>c. (bi_addr c, bi_addr b)) cs\<rparr>))"
    "concat (map bio_transfer (cs @ [r])) = request_transfer D b" by blast
  have "unat (bi_sector (bi_iter b)) * 512 + unat (bi_size (bi_iter b)) \<le> 2 ^ 73"
  proof -
    obtain k where k: "unat (bi_size (bi_iter b)) = 512 * k" using assms(7) by (auto simp: request_of_def)
    then have "unat (bi_sector (bi_iter b)) + k + 8 < 2 ^ 64" using assms(7) by (simp add: request_of_def)
    then show ?thesis by (simp add: k)
  qed
  moreover have "bio_ok b" using assms(7) by (simp add: request_of_def)
  moreover have "concat (map (delivered (s_disks t)) (cs @ [r])) =
      map (\<lambda>(cell, d, a). (cell, s_disks t d a)) (request_transfer D b)"
    unfolding r(2) [symmetric] by (simp add: delivered_def [abs_def] map_concat o_def)
  ultimately have "concat (map (delivered (s_disks t)) (cs @ [r])) = zip (bio_cells b)
      (map (volume D (s_disks t)) [unat (bi_sector (bi_iter b)) * 512 ..<
         unat (bi_sector (bi_iter b)) * 512 + unat (bi_size (bi_iter b))])"
    by (simp only: delivered_request)
  moreover have "volume D (s_disks t) = fold overlay ws (volume D (s_disks s))"
    using log_from_start [OF assms(1,3-5)] by (simp add: settled_quiet [OF assms(6)])
  moreover have "submitted (s_drv t) = []" using assms(6) by (simp add: quiet_def)
  ultimately show ?thesis using r(1) by (intro exI [of _ "cs @ [r]"]) simp
qed

lemma map_upt_const: "(\<And>i. m \<le> i \<Longrightarrow> i < n \<Longrightarrow> f i = c) \<Longrightarrow> map f [m..<n] = replicate (n - m) c"
  by (intro nth_equalityI) simp_all

text \<open>The bytes the write of the example has put there, read back.\<close>

definition example_readback :: host_bio where
  "example_readback = example_write\<lparr>bi_opf := REQ_OP_READ\<rparr>"

theorem reads_return_writes_witness:
  "\<exists>t cs st. quiet t \<and> vpciedisk_submit_bio reference_kernel example_dev example_readback (s_drv t) = Some (Ret st) \<and>
     submitted st = map SubmitHost cs \<and>
     concat (map (delivered (s_disks t)) cs) = zip (bio_cells example_readback) (replicate 1536 5)"
proof -
  obtain t where t: "sys_log reference_kernel example_irq example_dev (careful reference_kernel example_dev) example_sys
     [request_bytes (heap (s_drv example_sys)) example_write] t" "quiet t" "s_posts t < 2 ^ 32"
    using example_log by blast
  have "request_of example_write" using example_write_request by (simp add: write_request_def)
  then have "request_of example_readback" "bi_opf example_readback = REQ_OP_READ"
    by (simp_all add: request_of_def example_readback_def bio_ok_def)
  from reads_return_writes [OF example_array_ok reference_split_total example_start t(1,3,2) this]
  obtain cs st where r: "vpciedisk_submit_bio reference_kernel example_dev example_readback (s_drv t) = Some (Ret st)"
    "submitted st = map SubmitHost cs"
    "concat (map (delivered (s_disks t)) cs) = zip (bio_cells example_readback)
      (map (overlay (request_bytes (heap (s_drv example_sys)) example_write) (volume example_dev (s_disks example_sys)))
        [unat (bi_sector (bi_iter example_readback)) * 512 ..<
         unat (bi_sector (bi_iter example_readback)) * 512 + unat (bi_size (bi_iter example_readback))])"
    by auto
  have "unat (bi_sector (bi_iter example_readback)) * 512 = 20480"
    "20480 + unat (bi_size (bi_iter example_readback)) = 22016"
    by (simp_all add: example_readback_def example_write_def)
  moreover have "map (overlay (request_bytes (heap (s_drv example_sys)) example_write)
      (volume example_dev (s_disks example_sys))) [20480 ..< 22016] = replicate (22016 - 20480) 5"
    by (rule map_upt_const) (simp add: overlay_def example_request_bytes)
  ultimately have "concat (map (delivered (s_disks t)) cs) = zip (bio_cells example_readback) (replicate (22016 - 20480) 5)"
    using r(3) by (simp only:)
  moreover have "22016 - 20480 = (1536 :: nat)" by simp
  ultimately show ?thesis using r(1,2) t(2) by metis
qed

end
