(* ===== verification/Praid_Service.thy ===== *)
theory Praid_Service
  imports Praid_Module Praid_Volume
begin

text \<open>
  From \<open>insmod\<close> to \<open>rmmod\<close>: the module is loaded (\<open>Praid_Module\<close>), the parts it leaves behind
  run (\<open>Praid_System\<close>) and look like one disk (\<open>Praid_Volume\<close>), and the module is unloaded in
  the state they are in then. The assumptions left are about the kernel, the disks, the
  requests, and the parameters: device and driver must map the same calculation area.
\<close>

section \<open>From loading to service\<close>

text \<open>The disks the parameters name are different devices.\<close>

definition different_disks :: "boot_env \<Rightarrow> params \<Rightarrow> bool" where
  "different_disks E p \<longleftrightarrow> distinct (map (e_open E) (data_devices (loaded_config p)))"

lemma loaded_array_ok:
  assumes "boot_ok E s" and "held s = {#}" and "vpcie_module_init E e820 p s = Some (Ret (None, t))" and "b_bound t"
    and "2 \<le> length (minor_numbers p)" and "different_disks E p"
    and "kernel_contract K" and "kernel_live K" and "irq_layer_ok L"
  shows "array_ok K L (b_praid t)"
proof -
  note l = loaded_array [OF assms(1-4)]
  have "inj_on the (e_open E ` set (data_devices (loaded_config p)))"
  proof (rule inj_onI)
    fix x y assume "x \<in> e_open E ` set (data_devices (loaded_config p))"
      and "y \<in> e_open E ` set (data_devices (loaded_config p))" and "the x = the y"
    then show "x = y" using l(6) by (metis imageE option.expand)
  qed
  then have "distinct (map the (map (e_open E) (data_devices (loaded_config p))))"
    using assms(6) by (subst distinct_map) (simp add: different_disks_def)
  then have "distinct (data_disks (b_praid t))" by (simp add: l(5))
  then show ?thesis using assms(5,7-9) l(4) by (simp add: array_ok_def)
qed

lemma system_of_start [simp]:
  "s_disks (system_of t h chunks parity disks) = disks"
  "mismatch D (system_of t h chunks parity disks) a = parity a XOR xor_list (\<lambda>d. disks d a) (data_disks D)"
  by (simp_all add: system_of_def mismatch_def parity_of_def)

section \<open>The parameters of setup.sh\<close>

definition setup_params :: params where
  "setup_params = \<lparr>memmap_start = 0x140000000, memmap_size = 0x40000000, cpu = 3, major = 259,
     per_size = 0x20000000, minors = Some ''0,1,2,3''\<rparr>"

lemma setup_numbers: "minor_numbers setup_params = [0, 1, 2, 3]"
proof -
  have "tokens ''0,1,2,3'' = [''0'', ''1'', ''2'', ''3'']"
    by (simp add: tokens_eq(2) [of "''0,1,2,3''" "''0''" "''1,2,3''"] tokens_eq(2) [of "''1,2,3''" "''1''" "''2,3''"]
        tokens_eq(2) [of "''2,3''" "''2''" "''3''"] tokens_eq(1) [of "''3''" "''3''"])
  then show ?thesis by (simp add: minor_numbers_def setup_params_def token_number_def is_digit_def)
qed

lemma setup_devices:
  "data_devices (loaded_config setup_params) = [MKDEV 259 1, MKDEV 259 2, MKDEV 259 3]"
  "parity_device (loaded_config setup_params) = MKDEV 259 0"
  by (simp_all add: data_devices_def parity_device_def loaded_config_def setup_numbers)
     (simp_all add: setup_params_def)

lemma setup_config:
  "load_configs reserved_map setup_params zero_config = Ret (Some (loaded_config setup_params))"
proof -
  have "validate_configs reserved_map setup_params = None"
    by (simp add: validate_configs_def validate_configs_arch_def setup_params_def reserved_map_def MB_def Let_def)
  then show ?thesis by (simp add: load_configs_eq setup_numbers)
qed

lemma setup_disks:
  "nr_nvme_disks (loaded_config setup_params) = 3" "nvme_major (loaded_config setup_params) = 259"
  "nvme_minor_verify (loaded_config setup_params) = 0"
  "nvme_minor (loaded_config setup_params) = 1 # 2 # 3 # replicate 29 0"
  "size_nvme_disk (loaded_config setup_params) = 0x20000000"
  by (simp_all add: loaded_config_def setup_numbers zero_config_def) (simp_all add: setup_params_def)

lemma MKDEV_setup: "MKDEV 259 0 = 0x10300000" "MKDEV 259 1 = 0x10300001" "MKDEV 259 2 = 0x10300002" "MKDEV 259 3 = 0x10300003"
  by (simp_all add: MKDEV_def)

lemma setup_loaded:
  "\<exists>t. vpcie_module_init good_env reserved_map setup_params unloaded = Some (Ret (None, t)) \<and> b_bound t"
  by (simp add: run_module good_env_def unloaded_def setup_config setup_disks MKDEV_setup boot_exec zero_praid_config Let_def)

section \<open>One calculation area\<close>

text \<open>
  The device maps the calculation area at \<open>memmap_start\<close> plus a mebibyte (\<open>PCIEV_STORAGE_INIT\<close>,
  which goes on if the mapping fails), the driver at the base address of the device plus a
  mebibyte (\<open>pcievdrv_probe\<close>). The parts share one area if the device's mapping succeeds, both
  addresses are the same, and the three chunks lie in the memory that was reserved. Only then
  is the loaded module one system with one \<open>mm_chunks\<close>, whose bytes are those of the physical
  memory there.
\<close>

definition one_calculation_area :: "boot_env \<Rightarrow> params \<Rightarrow> bool" where
  "one_calculation_area E p \<longleftrightarrow> (let c = device_load_configs p zero_pciev_config in
     e_storage E \<and> chunk_sta (bar_base (virtDev (pci_vdev_start (memmap_start p)))) = storage_start c \<and>
     chunk_range \<le> unat (storage_size c))"

definition started :: "boot_env \<Rightarrow> params \<Rightarrow> boot \<Rightarrow> heap \<Rightarrow> bytes \<Rightarrow> bytes \<Rightarrow> (nat \<Rightarrow> bytes) \<Rightarrow> sys option" where
  "started E p t h memory parity disks = (if one_calculation_area E p
     then Some (system_of t h (\<lambda>a. memory (unat (storage_start (device_load_configs p zero_pciev_config)) + a)) parity disks)
     else None)"

text \<open>For accepted parameters: an aligned start, and 12 KiB more than the mebibyte asked for.\<close>

lemma one_calculation_area_iff:
  assumes "validate_configs e820 p = None"
  shows "one_calculation_area E p \<longleftrightarrow>
    e_storage E \<and> 2 ^ 14 dvd unat (memmap_start p) \<and> 2 ^ 20 + 12288 \<le> unat (memmap_size p)"
proof -
  have "MB 1 < memmap_size p" using assms by (auto simp: validate_configs_def split: if_splits)
  then have "2 ^ 20 < unat (memmap_size p)" by (simp add: word_less_nat_alt MB_def)
  then have "chunk_range \<le> unat (memmap_size p) - 2 ^ 20 \<longleftrightarrow> 2 ^ 20 + 12288 \<le> unat (memmap_size p)"
    by (auto simp: chunk_range_def praid_const)
  then show ?thesis unfolding one_calculation_area_def Let_def storage_size_value [OF assms]
    by (simp add: chunk_sta_def device_load_configs_def bar_base_iff_aligned)
qed

lemma startedD:
  "started E p t h memory parity disks = Some s \<Longrightarrow> \<exists>chunks. s = system_of t h chunks parity disks"
  by (auto simp: started_def split: if_splits)

lemma setup_one_area: "one_calculation_area good_env setup_params"
proof -
  have v: "validate_configs reserved_map setup_params = None"
    by (simp add: validate_configs_def validate_configs_arch_def setup_params_def reserved_map_def MB_def Let_def)
  show ?thesis unfolding one_calculation_area_iff [OF v]
    by (simp add: good_env_def setup_params_def dvd_def)
qed

lemma setup_started:
  "started good_env setup_params t h (\<lambda>_. 0) parity disks = Some (system_of t h (\<lambda>_. 0) parity disks)"
  by (simp add: started_def setup_one_area)

lemma setup_different: "different_disks good_env setup_params"
  by (simp add: different_disks_def setup_devices MKDEV_setup good_env_def)

section \<open>One disk\<close>

text \<open>
  C6: The loaded module is a disk. Load the module with at least two minor numbers for different
  devices and let its driver be bound, with parameters for which device and driver share one
  calculation area (C35 and C36 say when). Send write requests, each of whole sectors inside
  one chunk, of at most 256 vectors, from allocated pages of the caller, over no request still
  under way, and without two vectors that meet at a page boundary unless the page allocator
  keeps its pages apart; let memory be available, pages be mappable, no signal arrive and no
  disk fail; and wait until nothing is under way, before \<open>2\<^sup>32\<close> tasks have been posted. Then the
  volume is what a plain disk would hold that had been given the requests one after the other;
  and if the parity disk had been in sync when the module was loaded, it still is when any one
  data disk is replaced by what the others and the parity disk say it held.
\<close>

theorem loaded_module_serves_disk:
  assumes "boot_ok E s" and "held s = {#}" and "vpcie_module_init E e820 p s = Some (Ret (None, t))" and "b_bound t"
    and "2 \<le> length (minor_numbers p)" and "different_disks E p"
    and "kernel_contract K" and "kernel_live K" and "irq_layer_ok L"
    and "started E p t h memory parity disks = Some r" and "sys_log K L (b_praid t) (careful K (b_praid t)) r ws u"
    and "s_posts u < 2 ^ 32" and "quiet u"
  shows "volume (b_praid t) (s_disks u) = fold overlay ws (volume (b_praid t) disks) \<and>
    ((\<forall>a. parity a = xor_list (\<lambda>d. disks d a) (data_disks (b_praid t))) \<longrightarrow>
      (\<forall>d \<in> set (data_disks (b_praid t)). volume (b_praid t) ((s_disks u)(d := rebuilt (b_praid t) u d)) =
         fold overlay ws (volume (b_praid t) disks)))"
proof -
  obtain chunks where r: "r = system_of t h chunks parity disks" using startedD [OF assms(10)] by blast
  have A: "array_ok K L (b_praid t)" using assms(1-9) by (rule loaded_array_ok)
  have start: "sys_start (system_of t h chunks parity disks)" using assms(1-4) by (rule loaded_array(1))
  note log = assms(11) [unfolded r]
  have v: "volume (b_praid t) (s_disks u) = fold overlay ws (volume (b_praid t) disks)"
    using log_from_start [OF A start log assms(12)] by (simp add: settled_quiet [OF assms(13)])
  have "rebuilt (b_praid t) u d = s_disks u d"
    if "\<forall>a. parity a = xor_list (\<lambda>d. disks d a) (data_disks (b_praid t))" "d \<in> set (data_disks (b_praid t))" for d
    using disk_from_rest [OF A start _ sys_log_run [OF log] assms(12,13) that(2)] that(1)
    by (simp add: rebuilt_def fun_eq_iff)
  with v show ?thesis by simp
qed

text \<open>The module of \<open>setup.sh\<close>, and the write of the example sent to it.\<close>

lemma example_request_loaded:
  "write_request reference_kernel example_write (system_of t (heap example_drv) (\<lambda>_. 0) (\<lambda>_. 0) (\<lambda>_ _. 0))"
  using example_write_request
  by (simp add: write_request_def) (simp add: system_of_def example_sys_def owned_pages_def tasks_def)

theorem loaded_module_serves_disk_witness:
  "\<exists>t r u. vpcie_module_init good_env reserved_map setup_params unloaded = Some (Ret (None, t)) \<and> b_bound t \<and>
     started good_env setup_params t (heap example_drv) (\<lambda>_. 0) (\<lambda>_. 0) (\<lambda>_ _. 0) = Some r \<and>
     sys_log reference_kernel example_irq (b_praid t) (careful reference_kernel (b_praid t)) r
       [request_bytes (heap example_drv) example_write] u \<and>
     (\<forall>d \<in> set (data_disks (b_praid t)).
        volume (b_praid t) ((s_disks u)(d := rebuilt (b_praid t) u d)) 20480 = 5)"
proof -
  obtain t where t: "vpcie_module_init good_env reserved_map setup_params unloaded = Some (Ret (None, t))" "b_bound t"
    using setup_loaded by blast
  have two: "2 \<le> length (minor_numbers setup_params)" by (simp add: setup_numbers)
  have K: "kernel_contract reference_kernel" "kernel_live reference_kernel" "irq_layer_ok example_irq"
    using array_okD [OF example_array_ok] by simp_all
  note load = good_boot(2,3) t two setup_different K
  have A: "array_ok reference_kernel example_irq (b_praid t)" using load by (rule loaded_array_ok)
  let ?s = "system_of t (heap example_drv) (\<lambda>_. 0) (\<lambda>_. 0) (\<lambda>_ _. 0)"
  have start: "sys_start ?s" using load(1-4) by (rule loaded_array(1))
  have "heap (s_drv ?s) = heap example_drv" by (simp add: system_of_def)
  then obtain u where u: "sys_log reference_kernel example_irq (b_praid t) (careful reference_kernel (b_praid t)) ?s
       [request_bytes (heap example_drv) example_write] u" "s_posts u < 2 ^ 32" "quiet u"
    using request_served [OF A start example_request_loaded] by fastforce
  have sync: "\<forall>a. 0 = xor_list (\<lambda>d. (0 :: u8)) (data_disks (b_praid t))" by (simp add: xor_list_zero)
  have "heap example_drv = heap (s_drv example_sys)" by (simp add: example_sys_def)
  then have "fold overlay [request_bytes (heap example_drv) example_write] v 20480 = 5" for v
    by (simp add: overlay_def example_request_bytes)
  with loaded_module_serves_disk [OF load setup_started u] sync t u(1) show ?thesis
    by (intro exI [of _ t] exI [of _ ?s] exI [of _ u]) (simp add: setup_started)
qed

section \<open>From service to unloading\<close>

text \<open>What the parts at work leave for the functions that unload the module.\<close>

definition after_run :: "boot \<Rightarrow> sys \<Rightarrow> boot" where
  "after_run t u = t\<lparr>b_sem := sem (s_drv u), b_tasks := length (workqueue (s_drv u)),
     b_bar := mm_bar (s_mmio u), b_old_bar := d_old_bar (s_dev u)\<rparr>"

lemma after_run_simps [simp]:
  "held (after_run t u) = held t" "b_praid (after_run t u) = b_praid t" "b_bound (after_run t u) = b_bound t"
  "b_sem (after_run t u) = sem (s_drv u)" "b_tasks (after_run t u) = length (workqueue (s_drv u))"
  "own P (after_run t u) = own P t" "others P (after_run t u) = others P t"
  by (simp_all add: after_run_def own_def others_def)








end
