(* ===== verification/Praid_Tests.thy ===== *)
theory Praid_Tests
  imports Praid_Service
begin

text \<open>
  The two modules for trying the disk by hand: \<open>biotest\<close> writes two pages to the array
  (\<open>biotest/main.c\<close>), \<open>readtest\<close> prints the first page of four disks (\<open>readtest/main.c\<close>).
  Their functions are modelled statement by statement on the driver's kernel (\<open>Praid_Kernel\<close>);
  opening a block device by its number is a parameter.
\<close>

section \<open>Common parts\<close>

text \<open>What \<open>blkdev_get_by_dev\<close> answers for a device number: an error, or a block device.\<close>

type_synonym opener = "u32 \<Rightarrow> errno + nat"

text \<open>A bio of a test module, whose private pointer is not used, as the block layer gets it.\<close>

definition as_host_bio :: "verify_bio \<Rightarrow> req_op \<Rightarrow> host_bio" where
  "as_host_bio b opf = \<lparr>bi_addr = bi_addr b, bi_bdev = bi_bdev b, bi_opf = opf, bi_iter = bi_iter b,
     bi_vcnt = bi_vcnt b, bi_max_vecs = bi_max_vecs b, bi_io_vec = bi_io_vec b, bi_private = None,
     bi_end_io = bi_end_io b\<rparr>"

lemma as_host_bio_simps [simp]:
  "bi_addr (as_host_bio b opf) = bi_addr b" "bi_bdev (as_host_bio b opf) = bi_bdev b" "bi_opf (as_host_bio b opf) = opf"
  "bi_iter (as_host_bio b opf) = bi_iter b" "bi_vcnt (as_host_bio b opf) = bi_vcnt b"
  "bi_io_vec (as_host_bio b opf) = bi_io_vec b"
  by (simp_all add: as_host_bio_def)

section \<open>biotest\<close>

text \<open>
  The module's variables: the block device (which is open exactly while the module is loaded),
  the two pages, the sector.
\<close>

record biotest =
  bt_bdev :: "nat option"
  bt_page :: "nat option"
  bt_page1 :: "nat option"
  bt_start_sector :: sector

definition READ_SIZE :: u32 where
  "READ_SIZE = 3072"

definition my_bio_end_io :: "host_bio \<Rightarrow> drv \<Rightarrow> drv" where
  "my_bio_end_io bio = bio_put (bi_addr bio)"

text \<open>The string and its terminating zero, and \<open>strcpy\<close> of it to the start of a page, if that can be mapped.\<close>

definition hello :: string where
  "hello = ''Hello, block device!''"

definition hello_bytes :: bytes where
  "hello_bytes i = (if i < length hello then of_char (hello ! i) else 0)"

definition fill_page :: "kernel \<Rightarrow> nat option \<Rightarrow> drv \<Rightarrow> drv outcome" where
  "fill_page K page st = (case page of
       None \<Rightarrow> Crash BadPointer
     | Some p \<Rightarrow>
         if \<not> k_kmap K (ticks st) p then Ret (tick st)
         else case map_of (heap st) p of
           None \<Rightarrow> Crash BadPointer
         | Some data \<Rightarrow> Ret ((tick st)\<lparr>heap := heap_write p (copy_bytes data 0 hello_bytes 0 (Suc (length hello))) (heap st)\<rparr>))"

text \<open>The bio that is submitted, if it comes to that.\<close>

definition biotest_submit_my_bio :: "kernel \<Rightarrow> biotest \<Rightarrow> drv \<Rightarrow> (host_bio option \<times> drv) outcome" where
  "biotest_submit_my_bio K bt st = (case k_bio_alloc K 1 of
       None \<Rightarrow> Ret (None, st)
     | Some bio \<Rightarrow>
         let bio = bio\<lparr>bi_bdev := the (bt_bdev bt),
               bi_iter := (bi_iter bio)\<lparr>bi_sector := bt_start_sector bt\<rparr>, bi_end_io := EndCaller 0\<rparr>
         in bind_outcome (fill_page K (bt_page bt) st) (\<lambda>st.
            bind_outcome (fill_page K (bt_page1 bt) st) (\<lambda>st.
              case k_bio_add_page K bio (the (bt_page bt)) READ_SIZE 0 of (n, bio) \<Rightarrow>
                if n \<noteq> READ_SIZE then Ret (None, bio_put (bi_addr bio) st)
                else case k_bio_add_page K bio (the (bt_page1 bt)) READ_SIZE 0 of (n, bio) \<Rightarrow>
                  if n \<noteq> READ_SIZE then Ret (None, bio_put (bi_addr bio) st)
                  else Ret (Some (as_host_bio bio REQ_OP_WRITE), st))))"

definition biotest_my_init ::
  "kernel \<Rightarrow> opener \<Rightarrow> biotest \<Rightarrow> drv \<Rightarrow> (errno option \<times> host_bio option \<times> biotest \<times> drv) outcome" where
  "biotest_my_init K get bt st = (case get (MKDEV 400 0) of
       Inl e \<Rightarrow> Ret (Some e, None, bt, st)
     | Inr dev \<Rightarrow>
         case alloc_page K st of (page, st) \<Rightarrow> case alloc_page K st of (page1, st) \<Rightarrow>
           if page = None then Ret (Some ENOMEM, None, bt\<lparr>bt_page := None, bt_page1 := page1\<rparr>, st)
           else
             let bt = bt\<lparr>bt_bdev := Some dev, bt_page := page, bt_page1 := page1, bt_start_sector := 2\<rparr>
             in bind_outcome (biotest_submit_my_bio K bt st) (\<lambda>(bio, st). Ret (None, bio, bt, st)))"

fun free_if :: "nat option \<Rightarrow> drv \<Rightarrow> drv outcome" where
  "free_if None st = Ret st"
| "free_if (Some p) st = free_page p st"

definition biotest_my_exit :: "biotest \<Rightarrow> drv \<Rightarrow> (biotest \<times> drv) outcome" where
  "biotest_my_exit bt st = bind_outcome (free_if (bt_page bt) st) (\<lambda>st.
     bind_outcome (free_if (bt_page1 bt) st) (\<lambda>st. Ret (bt\<lparr>bt_bdev := None\<rparr>, st)))"

section \<open>readtest\<close>

text \<open>What the disks hold, and which of them can be read.\<close>

record test_disks =
  td_bytes :: "nat \<Rightarrow> bytes"
  td_reads :: "nat \<Rightarrow> bool"

text \<open>
  A printed line: the offset and sixteen bytes; and the loop that prints a page.
\<close>

type_synonym dump_line = "nat \<times> u8 list"

definition dump_line_at :: "bytes \<Rightarrow> nat \<Rightarrow> dump_line" where
  "dump_line_at data i = (i, map (\<lambda>j. data (i + j)) [0..<16])"

function dump_lines :: "bytes \<Rightarrow> nat \<Rightarrow> dump_line list" where
  "dump_lines data i = (if i < PAGE_SIZE then dump_line_at data i # dump_lines data (i + 16) else [])"
  by pat_completeness auto
termination by (relation "measure (\<lambda>(data, i). PAGE_SIZE - i)") auto

declare dump_lines.simps [simp del]

text \<open>
  \<open>submit_bio_wait\<close> returns when the read is over; its result is not looked at. The second
  \<open>kmap\<close> is not checked. What is printed: the number of the disk and its lines.
\<close>

definition readtest_submit_my_bio ::
  "kernel \<Rightarrow> test_disks \<Rightarrow> nat \<Rightarrow> nat \<Rightarrow> nat \<Rightarrow> drv \<Rightarrow> ((nat \<times> dump_line) list \<times> drv) outcome" where
  "readtest_submit_my_bio K T disk dev page st = (case k_bio_alloc K 1 of
       None \<Rightarrow> Ret ([], st)
     | Some bio \<Rightarrow>
         let bio = bio\<lparr>bi_bdev := dev, bi_iter := (bi_iter bio)\<lparr>bi_sector := 0\<rparr>\<rparr>
         in if \<not> k_kmap K (ticks st) page then Ret ([], tick st)
            else case k_bio_add_page K bio page (word_of_nat PAGE_SIZE) 0 of (n, bio) \<Rightarrow>
              if n \<noteq> word_of_nat PAGE_SIZE then Ret ([], bio_put (bi_addr bio) (tick st))
              else
                let h = (if td_reads T dev
                         then fill_segs (td_bytes T dev) (unat (bi_sector (bi_iter bio)) * 512) (bi_io_vec bio) (heap st)
                         else heap st);
                    st = (tick st)\<lparr>heap := h\<rparr>
                in if \<not> k_kmap K (ticks st) page then Crash BadPointer
                   else case map_of h page of
                     None \<Rightarrow> Crash BadPointer
                   | Some data \<Rightarrow> Ret (map (Pair disk) (dump_lines data 0), tick st))"

text \<open>
  The loop of \<open>my_init\<close> over the minor numbers. The page is the module's variable, which the
  next round overwrites; every round gives its block device back.
\<close>

fun readtest_loop ::
  "kernel \<Rightarrow> opener \<Rightarrow> test_disks \<Rightarrow> nat list \<Rightarrow> nat option \<Rightarrow> drv \<Rightarrow>
     (errno option \<times> (nat \<times> dump_line) list \<times> nat option \<times> drv) outcome" where
  "readtest_loop K get T [] page st = Ret (None, [], page, st)"
| "readtest_loop K get T (i # is) page st = (case get (MKDEV 259 (word_of_nat i)) of
       Inl e \<Rightarrow> Ret (Some e, [], page, st)
     | Inr dev \<Rightarrow> (case alloc_page K st of
           (None, st) \<Rightarrow> Ret (Some ENOMEM, [], None, st)
         | (Some p, st) \<Rightarrow>
             bind_outcome (readtest_submit_my_bio K T i dev p st) (\<lambda>(ls, st).
             bind_outcome (readtest_loop K get T is (Some p) st) (\<lambda>(r, ls', page, st).
               Ret (r, ls @ ls', page, st)))))"

definition readtest_my_init where
  "readtest_my_init K get T = readtest_loop K get T [0..<4]"

definition readtest_my_exit :: "nat option \<Rightarrow> drv \<Rightarrow> drv outcome" where
  "readtest_my_exit = free_if"

section \<open>What biotest does to the array\<close>

text \<open>The bio with the two pages, as the kernel builds it.\<close>

definition two_pages :: "verify_bio \<Rightarrow> nat \<Rightarrow> nat \<Rightarrow> verify_bio" where
  "two_pages b p q = b\<lparr>bi_vcnt := 2,
     bi_io_vec := [\<lparr>bv_page = p, bv_len = 3072, bv_offset = 0\<rparr>, \<lparr>bv_page = q, bv_len = 3072, bv_offset = 0\<rparr>],
     bi_iter := (bi_iter b)\<lparr>bi_size := 6144\<rparr>\<rparr>"

definition one_page :: "verify_bio \<Rightarrow> nat \<Rightarrow> verify_bio" where
  "one_page b p = b\<lparr>bi_vcnt := 1, bi_io_vec := [\<lparr>bv_page = p, bv_len = 3072, bv_offset = 0\<rparr>],
     bi_iter := (bi_iter b)\<lparr>bi_size := 3072\<rparr>\<rparr>"

lemma biotest_pages:
  assumes K: "bio_builder K" and b: "bi_io_vec b = []" "bi_vcnt b = 0" "1 \<le> bi_max_vecs b" "bi_size (bi_iter b) = 0"
  shows "k_bio_add_page K b p READ_SIZE 0 = (READ_SIZE, one_page b p)"
    and "k_bio_add_page K (one_page b p) q READ_SIZE 0 =
      (if 1 < bi_max_vecs b then (READ_SIZE, two_pages b p q) else (0, one_page b p))"
proof -
  have "\<not> mergeable b p 0" using b by (simp add: mergeable_def)
  moreover have "bi_vcnt b < bi_max_vecs b" using b by (simp add: word_less_nat_alt word_le_nat_alt)
  ultimately show "k_bio_add_page K b p READ_SIZE 0 = (READ_SIZE, one_page b p)"
    using bio_builder.add_page_room [OF K, of b p 0 READ_SIZE] b by (simp add: one_page_def READ_SIZE_def)
  have "(p * 4096 + 3072) mod 4096 \<noteq> q * 4096 mod 4096" by simp
  then have "p * 4096 + 3072 \<noteq> q * 4096" by metis
  then have "\<not> mergeable (one_page b p) q 0" by (simp add: mergeable_def one_page_def PAGE_SIZE_def)
  from bio_builder.add_page_room [OF K this, of READ_SIZE] bio_builder.add_page_full [OF K this, of READ_SIZE]
  show "k_bio_add_page K (one_page b p) q READ_SIZE 0 =
      (if 1 < bi_max_vecs b then (READ_SIZE, two_pages b p q) else (0, one_page b p))"
    by (simp add: one_page_def two_pages_def READ_SIZE_def)
qed

lemma two_pages_request:
  assumes "bi_size (bi_iter b) = 0" "bi_idx (bi_iter b) = 0" "bi_bvec_done (bi_iter b) = 0"
    and "bi_sector (bi_iter b) = 2"
  shows "request_of (as_host_bio (two_pages b p q) opf) \<and> \<not> in_one_chunk (as_host_bio (two_pages b p q) opf) \<and>
    bi_sector (bi_iter (as_host_bio (two_pages b p q) opf)) = 2 \<and>
    bi_size (bi_iter (as_host_bio (two_pages b p q) opf)) = 12 * 512"
proof -
  have "whole_bio (as_host_bio (two_pages b p q) opf)"
    using assms by (simp add: whole_bio_def vec_ok_def in_page_def two_pages_def PAGE_SIZE_def)
  then have "bio_ok (as_host_bio (two_pages b p q) opf)" by (rule whole_bio_ok)
  moreover have "bi_sector (bi_iter (two_pages b p q)) = 2" "bi_size (bi_iter (two_pages b p q)) = 6144"
    using assms by (simp_all add: two_pages_def)
  ultimately show ?thesis by (simp add: request_of_def in_one_chunk_def unat_chunk_end_sector dvd_def)
qed

lemma fill_page_ok:
  assumes "kmap_total K" and "map_of (heap st) p = Some c"
  shows "\<exists>st'. fill_page K (Some p) st = Ret st' \<and> dom (map_of (heap st')) = dom (map_of (heap st)) \<and>
    (\<forall>i < length hello. page_of (heap st') p i = of_char (hello ! i)) \<and>
    (\<forall>q. q \<noteq> p \<longrightarrow> map_of (heap st') q = map_of (heap st) q) \<and> same_rest st st'"
proof -
  let ?c = "copy_bytes c 0 hello_bytes 0 (Suc (length hello))"
  let ?h = "heap_write p ?c (heap st)"
  have m: "map_of ?h = (map_of (heap st))(p \<mapsto> ?c)" using assms(2) by (simp add: map_of_heap_write_Some)
  have "fill_page K (Some p) st = Ret ((tick st)\<lparr>heap := ?h\<rparr>)" using assms by (simp add: fill_page_def kmap_total_def)
  moreover have "page_of ?h p = ?c" by (rule page_of_Some) (simp only: m fun_upd_same)
  moreover have "dom (map_of ?h) = dom (map_of (heap st))" using assms(2) unfolding m by auto
  moreover have "\<forall>q. q \<noteq> p \<longrightarrow> map_of ?h q = map_of (heap st) q" by (simp add: m)
  ultimately show ?thesis
    by (intro exI [of _ "(tick st)\<lparr>heap := ?h\<rparr>"]) (simp add: same_rest_def same_io_def copy_bytes_def hello_bytes_def)
qed

lemma READ_SIZE_nonzero: "READ_SIZE \<noteq> 0"
  by (simp add: READ_SIZE_def)

lemma biotest_bio:
  assumes K: "kernel_contract K" and sub: "biotest_submit_my_bio K bt st = Ret (Some b, st')" and s: "bt_start_sector bt = 2"
  shows "request_of b \<and> \<not> in_one_chunk b \<and> bi_opf b = REQ_OP_WRITE \<and>
    bi_sector (bi_iter b) = 2 \<and> bi_size (bi_iter b) = 12 * 512 \<and>
    vec_pages (bi_io_vec b) = [the (bt_page bt), the (bt_page1 bt)]"
proof -
  note B = kernel_contract.axioms(3) [OF K]
  obtain b0 where b0: "k_bio_alloc K 1 = Some b0"
    using sub by (auto simp: biotest_submit_my_bio_def split: option.splits)
  let ?b = "b0\<lparr>bi_bdev := the (bt_bdev bt), bi_iter := (bi_iter b0)\<lparr>bi_sector := 2\<rparr>, bi_end_io := EndCaller 0\<rparr>"
  have e: "bi_io_vec ?b = []" "bi_vcnt ?b = 0" "1 \<le> bi_max_vecs ?b" "bi_size (bi_iter ?b) = 0"
    "bi_idx (bi_iter ?b) = 0" "bi_bvec_done (bi_iter ?b) = 0" "bi_sector (bi_iter ?b) = 2"
    using bio_builder.bio_alloc_empty [OF B b0] by simp_all
  note pages = biotest_pages [OF B e(1-4)]
  have "b = as_host_bio (two_pages ?b (the (bt_page bt)) (the (bt_page1 bt))) REQ_OP_WRITE"
    using sub b0 s pages READ_SIZE_nonzero
    by (auto simp: biotest_submit_my_bio_def Let_def bind_outcome_Ret_iff split: if_splits)
  then show ?thesis
    using two_pages_request [OF e(4-7)] by (simp add: vec_pages_def two_pages_def)
qed

lemma biotest_init_bio:
  assumes K: "kernel_contract K" and init: "biotest_my_init K get bt st = Ret (r, Some b, bt', st')"
  shows "request_of b \<and> \<not> in_one_chunk b \<and> bi_opf b = REQ_OP_WRITE \<and>
    bi_sector (bi_iter b) = 2 \<and> bi_size (bi_iter b) = 12 * 512 \<and>
    vec_pages (bi_io_vec b) = [the (bt_page bt'), the (bt_page1 bt')] \<and> r = None"
proof -
  obtain bt0 st0 where "biotest_submit_my_bio K bt0 st0 = Ret (Some b, st')" "bt_start_sector bt0 = 2" "bt' = bt0" "r = None"
    using init
    by (auto simp: biotest_my_init_def Let_def bind_outcome_Ret_iff split: sum.splits prod.splits if_splits)
  with biotest_bio [OF K this(1,2)] show ?thesis by simp
qed

text \<open>
  C30: The module for trying the disk by hand cannot have worked: whatever bio its \<open>my_init\<close>
  submits, it is a write of twelve sectors from sector 2 on, crosses the end of the first
  chunk (at sector 8), and the array faults on it. (When the kernel gives the bio room for one vector only,
  the second page cannot be added and nothing is submitted.)
\<close>

theorem biotest_faults:
  assumes "kernel_contract K" and "split_total K" and "split_without_vectors K" and "disks_ok D"
    and "biotest_my_init K get bt st = Ret (r, Some b, bt', st')"
  shows "bi_opf b = REQ_OP_WRITE \<and> bi_sector (bi_iter b) = 2 \<and> bi_size (bi_iter b) = 12 * 512 \<and>
    \<not> in_one_chunk b \<and> vpciedisk_submit_bio K D b st'' = Some (Crash BadPointer)"
proof -
  note b = biotest_init_bio [OF assms(1,5)]
  then have "vpciedisk_submit_bio K D b st'' = Some (Crash BadPointer)"
    by (intro split_write_crashes [OF assms(1-4)]) simp_all
  with b show ?thesis by simp
qed

text \<open>A kernel whose bios have room for four vectors, as the block layer's inline vectors give it.\<close>

definition roomy_kernel :: kernel where
  "roomy_kernel = reference_kernel\<lparr>k_bio_alloc := (\<lambda>n. Some (empty_verify_bio (if n = 0 then 0 else max n 4)))\<rparr>"

interpretation roomy: kernel_contract roomy_kernel
proof -
  have B: "bio_builder roomy_kernel"
    using ref.add_page_merge ref.add_page_room ref.add_page_full
    by unfold_locales (auto simp: roomy_kernel_def empty_verify_bio_def)
  have "bio_iterator roomy_kernel \<and> page_allocator roomy_kernel \<and> bio_splitter roomy_kernel"
    using kernel_contract.axioms [OF ref.kernel_contract_axioms]
    by (simp add: roomy_kernel_def bio_iterator_def page_allocator_def bio_splitter_def)
  with B show "kernel_contract roomy_kernel" by (simp add: kernel_contract_def)
qed

theorem biotest_faults_witness:
  "\<exists>r b bt' st'. biotest_my_init roomy_kernel (\<lambda>_. Inr 7) \<lparr>bt_bdev = None, bt_page = None, bt_page1 = None, bt_start_sector = 0\<rparr>
       example_drv = Ret (r, Some b, bt', st') \<and>
     bi_sector (bi_iter b) = 2 \<and> bi_size (bi_iter b) = 6144 \<and> \<not> in_one_chunk b \<and>
     vpciedisk_submit_bio roomy_kernel example_dev b st' = Some (Crash BadPointer)"
proof -
  obtain r b bt' st' where init: "biotest_my_init roomy_kernel (\<lambda>_. Inr 7)
      \<lparr>bt_bdev = None, bt_page = None, bt_page1 = None, bt_start_sector = 0\<rparr> example_drv = Ret (r, Some b, bt', st')"
    by (simp add: biotest_my_init_def biotest_submit_my_bio_def roomy_kernel_def reference_kernel_def alloc_page_def
        fill_page_def empty_verify_bio_def ref_bio_add_page_def mergeable_def example_drv_def READ_SIZE_def Let_def
        tick_def heap_write_def)
  have "split_total roomy_kernel" "split_without_vectors roomy_kernel"
    using reference_split_total
    by (auto simp: split_total_def split_without_vectors_def roomy_kernel_def reference_kernel_def ref_bio_split_def)
  from biotest_faults [OF roomy.kernel_contract_axioms this example_dev_disks init] init show ?thesis by simp
qed

lemma biotest_init_pages:
  assumes K: "kernel_contract K" "kernel_live K" and init: "biotest_my_init K get bt st = Ret (None, b, bt', st')"
  shows "\<exists>p q. bt_page bt' = Some p \<and> bt_page1 bt' = Some q \<and> p \<noteq> q \<and>
    map_of (heap st') p \<noteq> None \<and> map_of (heap st') q \<noteq> None"
proof -
  note A = kernel_contract.axioms(2) [OF K(1)]
  obtain d where d: "get (MKDEV 400 0) = Inr d"
    using init by (auto simp: biotest_my_init_def split: sum.splits)
  from A obtain p c st1 where p: "alloc_page K st = (Some p, st1)" "map_of (heap st1) = (map_of (heap st))(p \<mapsto> c)"
    by (cases rule: alloc_page_cases [where st = st]) (use K(2) in auto)
  from A obtain q e st2 where q: "alloc_page K st1 = (Some q, st2)" "map_of (heap st1) q = None"
      "map_of (heap st2) = (map_of (heap st1))(q \<mapsto> e)"
    by (cases rule: alloc_page_cases [where st = st1]) (use K(2) in auto)
  have "p \<noteq> q" using p(2) q(2) by auto
  let ?bt = "bt\<lparr>bt_bdev := Some d, bt_page := Some p, bt_page1 := Some q, bt_start_sector := 2\<rparr>"
  have sub: "biotest_submit_my_bio K ?bt st2 = Ret (b, st')" and bt: "bt' = ?bt"
    using init d p(1) q(1) by (auto simp: biotest_my_init_def Let_def bind_outcome_Ret_iff)
  have M: "kmap_total K" using kernel_liveD(1) [OF K(2)] .
  have "dom (map_of (heap st')) = dom (map_of (heap st2))"
  proof -
    have fill: "\<exists>u. fill_page K (Some r) v = Ret u \<and> dom (map_of (heap u)) = dom (map_of (heap v))"
      if "r \<in> dom (map_of (heap v))" for r v
      using fill_page_ok [OF M, of v r] that by blast
    have in2: "p \<in> dom (map_of (heap st2))" "q \<in> dom (map_of (heap st2))" using p(2) q(3) by auto
    obtain u1 where u1: "fill_page K (Some p) st2 = Ret u1" "dom (map_of (heap u1)) = dom (map_of (heap st2))"
      using fill [OF in2(1)] by blast
    obtain u2 where u2: "fill_page K (Some q) u1 = Ret u2" "dom (map_of (heap u2)) = dom (map_of (heap u1))"
      using fill [of q u1] in2(2) u1(2) by auto
    have "heap st' = heap u2 \<or> heap st' = heap st2"
      using sub u1(1) u2(1)
      by (auto simp: biotest_submit_my_bio_def Let_def bio_put_def split: option.splits prod.splits if_splits)
    then show ?thesis using u1(2) u2(2) by metis
  qed
  then have "p \<in> dom (map_of (heap st'))" "q \<in> dom (map_of (heap st'))" using p(2) q(3) by auto
  with \<open>p \<noteq> q\<close> show ?thesis by (auto simp: bt)
qed

text \<open>
  Its exit function does not wait for the bio: the pages the array reads from are freed while
  the request is under way.
\<close>

lemma biotest_exit_frees_pending:
  assumes "kernel_contract K" and "kernel_live K" and "biotest_my_init K get bt st = Ret (r, Some b, bt', st')"
  shows "\<exists>bt'' st''. biotest_my_exit bt' st' = Ret (bt'', st'') \<and>
    set (vec_pages (bi_io_vec b)) \<inter> dom (map_of (heap st'')) = {}"
proof -
  note i = biotest_init_bio [OF assms(1,3)]
  then obtain p q where p: "bt_page bt' = Some p" "bt_page1 bt' = Some q" "p \<noteq> q"
    "map_of (heap st') p \<noteq> None" "map_of (heap st') q \<noteq> None"
    using biotest_init_pages [OF assms(1,2)] assms(3) by metis
  from p(4) obtain c where "map_of (heap st') p = Some c" by blast
  then obtain u where u: "free_page p st' = Ret u" "map_of (heap u) = (map_of (heap st'))(p := None)"
    by (rule free_page_ok)
  from p(3,5) obtain e where "map_of (heap u) q = Some e" by (auto simp: u(2))
  then obtain v where v: "free_page q u = Ret v" "map_of (heap v) = (map_of (heap u))(q := None)"
    by (rule free_page_ok)
  have "biotest_my_exit bt' st' = Ret (bt'\<lparr>bt_bdev := None\<rparr>, v)" using p(1,2) u(1) v(1) by (simp add: biotest_my_exit_def)
  moreover have "vec_pages (bi_io_vec b) = [p, q]" using i p(1,2) by simp
  ultimately show ?thesis using v(2) u(2) by auto
qed

section \<open>What readtest prints\<close>

lemma dump_lines_from: "k \<le> 256 \<Longrightarrow> dump_lines data (16 * k) = map (\<lambda>k. dump_line_at data (16 * k)) [k..<256]"
proof (induction "256 - k" arbitrary: k)
  case 0
  then have "k = 256" by simp
  then show ?case by (subst dump_lines.simps) (simp add: PAGE_SIZE_def)
next
  case (Suc n)
  then have k: "k < 256" "n = 256 - Suc k" "Suc k \<le> 256" by simp_all
  from Suc.hyps(1) [OF k(2,3)] k(1) show ?case
    by (simp add: dump_lines.simps [of data "16 * k"] PAGE_SIZE_def upt_conv_Cons add.commute)
qed

lemma dump_lines_cong:
  assumes "\<forall>a < PAGE_SIZE. data a = data' a"
  shows "dump_lines data 0 = dump_lines data' 0"
proof -
  have "map (\<lambda>k. dump_line_at data (16 * k)) [0..<256] = map (\<lambda>k. dump_line_at data' (16 * k)) [0..<256]"
  proof (rule map_cong [OF refl])
    fix k :: nat assume "k \<in> set [0..<256]"
    then have "16 * k + j < 4096" if "j < 16" for j using that by auto
    then show "dump_line_at data (16 * k) = dump_line_at data' (16 * k)"
      using assms by (simp add: dump_line_at_def PAGE_SIZE_def)
  qed
  then show ?thesis using dump_lines_from [of 0] by simp
qed

lemma concat_rows: "concat (map (\<lambda>k. map (\<lambda>j. f (m * k + j)) [0..<m]) [0..<n]) = map f [0..<m * n]" for f :: "nat \<Rightarrow> 'a"
proof (induction n)
  case (Suc n)
  have "[0..<m * n + m] = [0..<m * n] @ [m * n..<m * n + m]" by (rule upt_add_eq_append) simp
  then have "[0..<m * Suc n] = [0..<m * n] @ map (\<lambda>j. m * n + j) [0..<m]"
    using map_add_upt [of "m * n" m] by (simp add: add.commute)
  with Suc show ?case by simp
qed simp

text \<open>The bytes printed for a disk.\<close>

definition dumped :: "(nat \<times> dump_line) list \<Rightarrow> nat \<Rightarrow> u8 list" where
  "dumped ls disk = concat (map (snd \<circ> snd) (filter (\<lambda>l. fst l = disk) ls))"

lemma dumped_append [simp]: "dumped (ls @ ls') disk = dumped ls disk @ dumped ls' disk"
  by (simp add: dumped_def)

lemma dumped_lines:
  "dumped (map (Pair i) (dump_lines data 0)) disk = (if i = disk then map data [0..<PAGE_SIZE] else [])"
proof -
  have "concat (map snd (dump_lines data 0)) = map data [0..<16 * 256]"
    using dump_lines_from [of 0 data] concat_rows [of data 16 256] by (simp add: dump_line_at_def o_def)
  then show ?thesis by (auto simp: dumped_def PAGE_SIZE_def o_def filter_map)
qed

lemma readtest_page:
  assumes K: "kernel_contract K" "kernel_live K" and T: "td_reads T dev" and p: "map_of (heap st) p = Some c"
  shows "\<exists>st'. readtest_submit_my_bio K T disk dev p st = Ret (map (Pair disk) (dump_lines (td_bytes T dev) 0), st') \<and>
    dom (map_of (heap st')) = dom (map_of (heap st)) \<and> bio_puts st' = bio_puts st"
proof -
  note B = kernel_contract.axioms(3) [OF K(1)]
  obtain b0 where b0: "k_bio_alloc K 1 = Some b0" using bio_builder.bio_alloc_law [OF B, of 1] by auto
  let ?b = "b0\<lparr>bi_bdev := dev, bi_iter := (bi_iter b0)\<lparr>bi_sector := 0\<rparr>\<rparr>"
  let ?full = "?b\<lparr>bi_vcnt := 1, bi_io_vec := [\<lparr>bv_page = p, bv_len = 4096, bv_offset = 0\<rparr>],
      bi_iter := (bi_iter ?b)\<lparr>bi_size := 4096\<rparr>\<rparr>"
  have e: "bi_io_vec ?b = []" "bi_vcnt ?b = 0" "1 \<le> bi_max_vecs ?b" "bi_size (bi_iter ?b) = 0"
    using bio_builder.bio_alloc_empty [OF B b0] by simp_all
  have "\<not> mergeable ?b p 0" "bi_vcnt ?b < bi_max_vecs ?b"
    using e by (simp_all add: mergeable_def word_less_nat_alt word_le_nat_alt)
  from bio_builder.add_page_room [OF B this, of 4096] e
  have add: "k_bio_add_page K ?b p 4096 0 = (4096, ?full)" by simp
  have size: "word_of_nat PAGE_SIZE = (4096 :: u32)" by (simp add: PAGE_SIZE_def)
  let ?c = "copy_bytes c 0 (td_bytes T dev) 0 4096"
  let ?h = "heap_write p ?c (heap st)"
  have m: "map_of ?h = (map_of (heap st))(p \<mapsto> ?c)" using p by (simp add: map_of_heap_write_Some)
  have fill: "fill_segs (td_bytes T dev) (unat (bi_sector (bi_iter ?full)) * 512) (bi_io_vec ?full) (heap st) = ?h"
    using p by simp
  have kmap: "k_kmap K t q" for t q using kernel_liveD(2) [OF K(2)] .
  have "readtest_submit_my_bio K T disk dev p st =
      Ret (map (Pair disk) (dump_lines ?c 0), tick ((tick st)\<lparr>heap := ?h\<rparr>))"
    using b0 add fill by (simp add: readtest_submit_my_bio_def size kmap T m del: fill_segs.simps)
  moreover have "dump_lines ?c 0 = dump_lines (td_bytes T dev) 0"
    by (rule dump_lines_cong) (simp add: copy_bytes_def PAGE_SIZE_def)
  moreover have "dom (map_of ?h) = dom (map_of (heap st))" using p unfolding m by auto
  ultimately show ?thesis by simp
qed

lemma readtest_rounds:
  assumes K: "kernel_contract K" "kernel_live K"
  shows "\<forall>i \<in> set is. get (MKDEV 259 (word_of_nat i)) = Inr (dv i) \<and> td_reads T (dv i) \<Longrightarrow>
    \<exists>ps st'. readtest_loop K get T is page st = Ret (None,
        concat (map (\<lambda>i. map (Pair i) (dump_lines (td_bytes T (dv i)) 0)) is),
        (if is = [] then page else Some (last ps)), st') \<and>
      length ps = length is \<and> distinct ps \<and> set ps \<inter> dom (map_of (heap st)) = {} \<and>
      dom (map_of (heap st')) = dom (map_of (heap st)) \<union> set ps \<and> bio_puts st' = bio_puts st"
proof (induction "is" arbitrary: page st)
  case Nil
  show ?case by (intro exI [of _ "[]"]) simp
next
  case (Cons i "is")
  obtain p c st1 where p: "alloc_page K st = (Some p, st1)" "map_of (heap st) p = None"
      "map_of (heap st1) = (map_of (heap st))(p \<mapsto> c)" "same_rest st st1"
    using kernel_contract.axioms(2) [OF K(1)]
    by (cases rule: alloc_page_cases [where st = st]) (use K(2) in auto)
  then have "map_of (heap st1) p = Some c" by simp
  from readtest_page [OF K _ this, of T "dv i" i] Cons.prems obtain st2 where
    st2: "readtest_submit_my_bio K T i (dv i) p st1 = Ret (map (Pair i) (dump_lines (td_bytes T (dv i)) 0), st2)"
      "dom (map_of (heap st2)) = dom (map_of (heap st1))" "bio_puts st2 = bio_puts st1" by auto
  from Cons.IH [of "Some p" st2] Cons.prems obtain ps st' where
    st': "readtest_loop K get T is (Some p) st2 = Ret (None,
        concat (map (\<lambda>i. map (Pair i) (dump_lines (td_bytes T (dv i)) 0)) is),
        (if is = [] then Some p else Some (last ps)), st')"
      "length ps = length is" "distinct ps" "set ps \<inter> dom (map_of (heap st2)) = {}"
      "dom (map_of (heap st')) = dom (map_of (heap st2)) \<union> set ps" "bio_puts st' = bio_puts st2" by auto
  have d: "dom (map_of (heap st2)) = insert p (dom (map_of (heap st)))" using st2(2) p(3) by simp
  have "readtest_loop K get T (i # is) page st = Ret (None,
        concat (map (\<lambda>i. map (Pair i) (dump_lines (td_bytes T (dv i)) 0)) (i # is)),
        Some (last (p # ps)), st')"
    using Cons.prems p(1) st2(1) st'(1,2) by (cases "is = []") auto
  moreover have "bio_puts st1 = bio_puts st" using p(4) by (simp add: same_rest_def same_io_def)
  moreover have "p \<notin> dom (map_of (heap st))" using p(2) by auto
  ultimately show ?case
    using st' st2(3) d by (intro exI [of _ "p # ps"] exI [of _ st']) auto
qed

lemma dumped_rounds:
  "distinct is \<Longrightarrow> dumped (concat (map (\<lambda>i. map (Pair i) (dump_lines (f i) 0)) is)) disk =
     (if disk \<in> set is then map (f disk) [0..<PAGE_SIZE] else [])"
proof (induction "is")
  case (Cons i "is")
  then show ?case by (auto simp: dumped_lines)
qed (simp add: dumped_def)

lemma readtest_init:
  assumes K: "kernel_contract K" "kernel_live K"
    and get: "\<forall>i < 4. get (MKDEV 259 (word_of_nat i)) = Inr (dv i) \<and> td_reads T (dv i)"
  shows "\<exists>ls ps st'. readtest_my_init K get T page st = Ret (None, ls, Some (last ps), st') \<and>
    (\<forall>i < 4. dumped ls i = map (td_bytes T (dv i)) [0..<PAGE_SIZE]) \<and>
    length ps = 4 \<and> distinct ps \<and> set ps \<inter> dom (map_of (heap st)) = {} \<and>
    dom (map_of (heap st')) = dom (map_of (heap st)) \<union> set ps \<and> bio_puts st' = bio_puts st"
proof -
  have "\<forall>i \<in> set [0..<4]. get (MKDEV 259 (word_of_nat i)) = Inr (dv i) \<and> td_reads T (dv i)" using get by simp
  from readtest_rounds [OF K this, of page st] obtain ps st' where
    r: "readtest_loop K get T [0..<4] page st = Ret (None,
        concat (map (\<lambda>i. map (Pair i) (dump_lines (td_bytes T (dv i)) 0)) [0..<4]),
        (if [0..<4] = [] then page else Some (last ps)), st')"
    "length ps = length [0..<4]" "distinct ps" "set ps \<inter> dom (map_of (heap st)) = {}"
    "dom (map_of (heap st')) = dom (map_of (heap st)) \<union> set ps" "bio_puts st' = bio_puts st" by blast
  let ?ls = "concat (map (\<lambda>i. map (Pair i) (dump_lines (td_bytes T (dv i)) 0)) [0..<4])"
  have "\<forall>i < 4. dumped ?ls i = map (td_bytes T (dv i)) [0..<PAGE_SIZE]"
    using dumped_rounds [of "[0..<4]" "\<lambda>i. td_bytes T (dv i)"] by simp
  moreover have "readtest_my_init K get T page st = Ret (None, ?ls, Some (last ps), st')"
    using r(1) by (simp only: readtest_my_init_def) simp
  ultimately show ?thesis using r(2-6) by (intro exI [of _ ?ls] exI [of _ ps] exI [of _ st']) simp
qed

text \<open>
  \<open>readtest\<close> prints the first page of each of the four disks, every byte once and in order.
  It returns with four pages allocated, of which its exit function frees the last, and puts
  none of its four bios.
\<close>

theorem readtest_dumps_disks:
  assumes "kernel_contract K" and "kernel_live K"
    and "\<forall>i < 4. get (MKDEV 259 (word_of_nat i)) = Inr (dv i) \<and> td_reads T (dv i)"
  shows "\<exists>ls ps st'. readtest_my_init K get T page st = Ret (None, ls, Some (last ps), st') \<and>
    (\<forall>i < 4. dumped ls i = map (td_bytes T (dv i)) [0..<PAGE_SIZE]) \<and>
    length ps = 4 \<and> distinct ps \<and> set ps \<inter> dom (map_of (heap st)) = {} \<and>
    dom (map_of (heap st')) = dom (map_of (heap st)) \<union> set ps \<and> bio_puts st' = bio_puts st"
  by (rule readtest_init [OF assms])

text \<open>With two disks that hold ones and twos, and two that are empty.\<close>

definition example_disks_read :: test_disks where
  "example_disks_read = \<lparr>td_bytes = (\<lambda>d a. if d = 1 then 1 else if d = 2 then 2 else 0), td_reads = (\<lambda>_. True)\<rparr>"

definition example_opener :: opener where
  "example_opener n = Inr (unat n - 271581184)"

lemma MKDEV_259: "i < 4 \<Longrightarrow> unat (MKDEV 259 (word_of_nat i)) = 271581184 + i"
proof -
  assume "i < 4"
  then have "i = 0 \<or> i = 1 \<or> i = 2 \<or> i = 3" by auto
  then show ?thesis by (auto simp: MKDEV_def)
qed

theorem readtest_dumps_disks_witness:
  "\<exists>ls page st'. readtest_my_init reference_kernel example_opener example_disks_read None example_drv =
      Ret (None, ls, page, st') \<and> dumped ls 2 = replicate 4096 2 \<and> bio_puts st' = []"
proof -
  have "\<forall>i < 4. example_opener (MKDEV 259 (word_of_nat i)) = Inr i \<and> td_reads example_disks_read i"
    by (simp add: example_opener_def MKDEV_259 example_disks_read_def)
  from readtest_dumps_disks [OF ref.kernel_contract_axioms reference_kernel_live this, of None example_drv]
  obtain ls ps st' where r: "readtest_my_init reference_kernel example_opener example_disks_read None example_drv =
      Ret (None, ls, Some (last ps), st')" "\<forall>i < 4. dumped ls i = map (td_bytes example_disks_read i) [0..<PAGE_SIZE]"
    "bio_puts st' = bio_puts example_drv" by blast
  have "dumped ls 2 = map (\<lambda>_. 2) [0..<PAGE_SIZE]" using r(2) by (simp add: example_disks_read_def)
  then have "dumped ls 2 = replicate 4096 2" by (simp add: map_replicate_const PAGE_SIZE_def)
  with r(1,3) show ?thesis by (auto simp: example_drv_def)
qed

section \<open>The array and readtest\<close>

text \<open>\<open>blkdev_get_by_dev\<close> in the environment of the module.\<close>

definition opener_of :: "boot_env \<Rightarrow> opener" where
  "opener_of E n = (case e_open E n of None \<Rightarrow> Inl (EOTHER 6) | Some d \<Rightarrow> Inr d)"

text \<open>What the disks hold while the array is at work, the parity disk among them.\<close>

definition disks_now :: "boot \<Rightarrow> sys \<Rightarrow> test_disks" where
  "disks_now t u = \<lparr>td_bytes = (s_disks u)(bdev_verify (b_praid t) := s_parity u), td_reads = (\<lambda>_. True)\<rparr>"

lemma setup_opened:
  assumes "boot_ok E s" and "held s = {#}" and "vpcie_module_init E e820 setup_params s = Some (Ret (None, t))"
    and "b_bound t" and "distinct (map (e_open E) [MKDEV 259 0, MKDEV 259 1, MKDEV 259 2, MKDEV 259 3])"
  obtains d1 d2 d3 where "data_disks (b_praid t) = [d1, d2, d3]"
    and "bdev_verify (b_praid t) \<notin> {d1, d2, d3}"
    and "\<forall>i < 4. opener_of E (MKDEV 259 (word_of_nat i)) = Inr ([bdev_verify (b_praid t), d1, d2, d3] ! i)"
proof -
  note l = loaded_array [OF assms(1-4), unfolded setup_devices]
  obtain d1 d2 d3 where d: "e_open E (MKDEV 259 1) = Some d1" "e_open E (MKDEV 259 2) = Some d2" "e_open E (MKDEV 259 3) = Some d3"
    using l(6) by auto
  have d0: "e_open E (MKDEV 259 0) = Some (bdev_verify (b_praid t))" by (rule l(7))
  have "opener_of E (MKDEV 259 (word_of_nat i)) = Inr ([bdev_verify (b_praid t), d1, d2, d3] ! i)" if "i < 4" for i
  proof -
    from that have "i = 0 \<or> i = 1 \<or> i = 2 \<or> i = 3" by auto
    then show ?thesis by (elim disjE) (simp_all add: opener_of_def d d0)
  qed
  then show thesis using that l(5) d d0 assms(5) by simp
qed

lemma dumped_now:
  assumes "\<forall>i < 4. dumped ls i = map (td_bytes (disks_now t u) ([bdev_verify (b_praid t), d1, d2, d3] ! i)) [0..<PAGE_SIZE]"
    and "bdev_verify (b_praid t) \<notin> {d1, d2, d3}"
  shows "dumped ls 0 = map (s_parity u) [0..<PAGE_SIZE]" "dumped ls 1 = map (s_disks u d1) [0..<PAGE_SIZE]"
    "dumped ls 2 = map (s_disks u d2) [0..<PAGE_SIZE]" "dumped ls 3 = map (s_disks u d3) [0..<PAGE_SIZE]"
proof -
  have now: "td_bytes (disks_now t u) (bdev_verify (b_praid t)) = s_parity u" "td_bytes (disks_now t u) d1 = s_disks u d1"
    "td_bytes (disks_now t u) d2 = s_disks u d2" "td_bytes (disks_now t u) d3 = s_disks u d3"
    using assms(2) by (simp_all add: disks_now_def)
  note row = assms(1) [rule_format]
  show "dumped ls 0 = map (s_parity u) [0..<PAGE_SIZE]" using row [of 0] now(1) by simp
  show "dumped ls 1 = map (s_disks u d1) [0..<PAGE_SIZE]" using row [of 1] now(2) by simp
  show "dumped ls 2 = map (s_disks u d2) [0..<PAGE_SIZE]" using row [of 2] now(3) by simp
  show "dumped ls 3 = map (s_disks u d3) [0..<PAGE_SIZE]" using row [of 3] now(4) by simp
qed

text \<open>
  C29: The two programs together, as the scripts use them. Load the module with \<open>setup.sh\<close>'s
  parameters onto four different disks whose parity is in sync, with the device's mapping of
  the calculation area made; send write requests, each of whole sectors inside one chunk, of
  at most 256 vectors, from allocated pages of the caller, over no request still under way, and
  without two vectors that meet at a page boundary unless the page allocator keeps its pages
  apart; let memory be available, pages be mappable, no signal arrive and no disk fail; wait
  until nothing is under way, before \<open>2\<^sup>32\<close> tasks have been posted; and insert \<open>readtest\<close>. Then
  it prints, as disks 1 to 3, the first three chunks of the array as these requests have left
  them, and as disk 0 their exclusive or.
\<close>

theorem readtest_shows_parity:
  assumes "boot_ok E s" and "held s = {#}" and "vpcie_module_init E e820 setup_params s = Some (Ret (None, t))"
    and "b_bound t" and "distinct (map (e_open E) [MKDEV 259 0, MKDEV 259 1, MKDEV 259 2, MKDEV 259 3])"
    and "kernel_contract K" and "kernel_live K" and "irq_layer_ok L"
    and "started E setup_params t h memory parity disks = Some r" and "sys_log K L (b_praid t) (careful K (b_praid t)) r ws u"
    and "\<forall>a. parity a = xor_list (\<lambda>d. disks d a) (data_disks (b_praid t))"
    and "s_posts u < 2 ^ 32" and "quiet u"
  shows "\<exists>ls page st. readtest_my_init K (opener_of E) (disks_now t u) None (s_drv u) = Ret (None, ls, page, st) \<and>
    (\<forall>i < 3. dumped ls (Suc i) = map (\<lambda>a. fold overlay ws (volume (b_praid t) disks) (PAGE_SIZE * i + a)) [0..<PAGE_SIZE]) \<and>
    dumped ls 0 = map (\<lambda>a. dumped ls 1 ! a XOR dumped ls 2 ! a XOR dumped ls 3 ! a) [0..<PAGE_SIZE]"
proof -
  obtain chunks where r: "r = system_of t h chunks parity disks" using startedD [OF assms(9)] by blast
  let ?D = "b_praid t" and ?s = "system_of t h chunks parity disks"
  note log = assms(10) [unfolded r]
  obtain d1 d2 d3 where dd: "data_disks ?D = [d1, d2, d3]" and new: "bdev_verify ?D \<notin> {d1, d2, d3}"
    and get: "\<forall>i < 4. opener_of E (MKDEV 259 (word_of_nat i)) = Inr ([bdev_verify ?D, d1, d2, d3] ! i)"
    using setup_opened [OF assms(1-5)] .
  have "different_disks E setup_params" using assms(5) by (simp add: different_disks_def setup_devices)
  then have A: "array_ok K L ?D"
    using loaded_array_ok [OF assms(1-4) _ _ assms(6-8)] by (simp add: setup_numbers)
  have start: "sys_start ?s" using assms(1-4) by (rule loaded_array(1))
  have "\<forall>i < 4. opener_of E (MKDEV 259 (word_of_nat i)) = Inr ([bdev_verify ?D, d1, d2, d3] ! i) \<and>
      td_reads (disks_now t u) ([bdev_verify ?D, d1, d2, d3] ! i)" using get by (simp add: disks_now_def)
  from readtest_init [OF assms(6,7) this, of None "s_drv u"] obtain ls page st where
    ls: "readtest_my_init K (opener_of E) (disks_now t u) None (s_drv u) = Ret (None, ls, page, st)"
      "\<forall>i < 4. dumped ls i = map (td_bytes (disks_now t u) ([bdev_verify ?D, d1, d2, d3] ! i)) [0..<PAGE_SIZE]" by blast
  note bytes = dumped_now [OF ls(2) new]
  have v: "volume ?D (s_disks u) = fold overlay ws (volume ?D disks)"
    using log_from_start [OF A start log assms(12)] by (simp add: settled_quiet [OF assms(13)])
  have ok: "disks_ok ?D" using array_okD(4) [OF A] .
  then have "length (data_disks ?D) = unat (disk_cnt ?D)" by (simp add: data_disks_def disks_ok_def)
  then have cnt: "unat (disk_cnt ?D) = 3" by (simp add: dd)
  have "dumped ls (Suc i) = map (\<lambda>a. fold overlay ws (volume ?D disks) (PAGE_SIZE * i + a)) [0..<PAGE_SIZE]" if "i < 3" for i
  proof -
    have sucs: "Suc 0 = 1" "Suc 1 = 2" "Suc 2 = 3" by simp_all
    have nths: "[d1, d2, d3] ! 0 = d1" "[d1, d2, d3] ! 1 = d2" "[d1, d2, d3] ! 2 = d3" by simp_all
    from that have "i = 0 \<or> i = 1 \<or> i = 2" by auto
    then have "dumped ls (Suc i) = map (s_disks u (data_disks ?D ! i)) [0..<PAGE_SIZE]"
      by (elim disjE) (simp_all only: sucs nths dd bytes)
    also have "\<dots> = map (\<lambda>a. volume ?D (s_disks u) (PAGE_SIZE * i + a)) [0..<PAGE_SIZE]"
      using first_row [OF ok, of i _ "s_disks u"] that cnt by simp
    finally show ?thesis by (simp only: v)
  qed
  moreover have "s_parity u a = s_disks u d1 a XOR s_disks u d2 a XOR s_disks u d3 a" for a
    using in_sync_at_rest [OF A start _ sys_log_run [OF log] assms(12,13), of a] assms(11) by (simp add: dd)
  then have "dumped ls 0 = map (\<lambda>a. dumped ls 1 ! a XOR dumped ls 2 ! a XOR dumped ls 3 ! a) [0..<PAGE_SIZE]"
    unfolding bytes by simp
  ultimately show ?thesis using ls(1) by blast
qed

text \<open>A write of fives to sectors 2 to 4, in the first chunk of the array.\<close>

definition first_write :: host_bio where
  "first_write = example_write\<lparr>bi_iter := (bi_iter example_write)\<lparr>bi_sector := 2\<rparr>\<rparr>"

lemma first_write_request:
  assumes "heap (s_drv s) = heap example_drv" and "submitted (s_drv s) = []" and "tasks s = []"
  shows "write_request reference_kernel first_write s"
proof -
  have "whole_bio first_write"
    using example_write_whole by (simp add: whole_bio_def first_write_def)
  moreover from whole_bio_ok [OF this] have "request_of first_write"
    by (simp add: request_of_def) (simp add: first_write_def example_write_def dvd_def)
  moreover have "in_one_chunk first_write"
    by (simp add: in_one_chunk_def first_write_def example_write_def unat_chunk_end_sector)
  ultimately show ?thesis
    by (simp add: write_request_def)
       (simp add: first_write_def example_write_def whole_sectors_def in_page_def vec_pages_def assms
         example_drv_def owned_pages_def dvd_def)
qed

lemma first_write_bytes:
  "request_bytes (heap example_drv) first_write = (\<lambda>a. if 1024 \<le> a \<and> a < 2560 then Some 5 else None)"
  by (simp add: fun_eq_iff request_bytes_def first_write_def example_write_def)
     (simp add: example_drv_def page_of_def)

theorem readtest_shows_parity_witness:
  "\<exists>t u ls page st. vpcie_module_init good_env reserved_map setup_params unloaded = Some (Ret (None, t)) \<and>
     readtest_my_init reference_kernel (opener_of good_env) (disks_now t u) None (s_drv u) = Ret (None, ls, page, st) \<and>
     dumped ls 1 ! 1024 = 5 \<and> dumped ls 2 ! 1024 = 0 \<and> dumped ls 3 ! 1024 = 0 \<and> dumped ls 0 ! 1024 = 5"
proof -
  obtain t where t: "vpcie_module_init good_env reserved_map setup_params unloaded = Some (Ret (None, t))" "b_bound t"
    using setup_loaded by blast
  have dist: "distinct (map (e_open good_env) [MKDEV 259 0, MKDEV 259 1, MKDEV 259 2, MKDEV 259 3])"
    by (simp add: good_env_def MKDEV_setup)
  have K: "kernel_contract reference_kernel" "kernel_live reference_kernel" "irq_layer_ok example_irq"
    using array_okD [OF example_array_ok] by simp_all
  have A: "array_ok reference_kernel example_irq (b_praid t)"
    using loaded_array_ok [OF good_boot(2,3) t _ setup_different K] by (simp add: setup_numbers)
  let ?s = "system_of t (heap example_drv) (\<lambda>_. 0) (\<lambda>_. 0) (\<lambda>_ _. 0)"
  have start: "sys_start ?s" using good_boot(2,3) t by (rule loaded_array(1))
  have s: "heap (s_drv ?s) = heap example_drv" by (simp add: system_of_def)
  have "write_request reference_kernel first_write ?s"
    by (rule first_write_request) (simp_all add: system_of_def tasks_def)
  from request_served [OF A start this] s obtain u where
    u: "sys_log reference_kernel example_irq (b_praid t) (careful reference_kernel (b_praid t)) ?s
       [request_bytes (heap example_drv) first_write] u" "quiet u" "s_posts u < 2 ^ 32" by auto
  have sync: "\<forall>a. 0 = xor_list (\<lambda>d. (0 :: u8)) (data_disks (b_praid t))" by (simp add: xor_list_zero)
  let ?v = "fold overlay [request_bytes (heap example_drv) first_write] (volume (b_praid t) (\<lambda>_ _. 0))"
  from readtest_shows_parity [OF good_boot(2,3) t dist K setup_started u(1) sync u(3,2)] obtain ls page st where
    r: "readtest_my_init reference_kernel (opener_of good_env) (disks_now t u) None (s_drv u) = Ret (None, ls, page, st)"
      "\<forall>i < 3. dumped ls (Suc i) = map (\<lambda>a. ?v (PAGE_SIZE * i + a)) [0..<PAGE_SIZE]"
      "dumped ls 0 = map (\<lambda>a. dumped ls 1 ! a XOR dumped ls 2 ! a XOR dumped ls 3 ! a) [0..<PAGE_SIZE]" by blast
  have at: "dumped ls (Suc i) ! 1024 = ?v (4096 * i + 1024)" if "i < 3" for i using r(2) that by simp
  have "dumped ls 1 ! 1024 = 5" using at [of 0] by (simp add: overlay_def first_write_bytes)
  moreover have "dumped ls 2 ! 1024 = 0" using at [of 1] by (simp add: overlay_def first_write_bytes volume_def numeral_2_eq_2 [symmetric])
  moreover have "dumped ls 3 ! 1024 = 0" using at [of 2] by (simp add: overlay_def first_write_bytes volume_def)
  ultimately have "dumped ls 0 ! 1024 = 5" by (simp add: r(3))
  with t(1) r(1) \<open>dumped ls 1 ! 1024 = 5\<close> \<open>dumped ls 2 ! 1024 = 0\<close> \<open>dumped ls 3 ! 1024 = 0\<close> show ?thesis by blast
qed
end
