(* ===== verification/Spec2Isabelle.thy ===== *)
theory Spec2Isabelle
  imports Praid_Prelude Praid_Layout Praid_Kernel Praid_Bar Praid_Device Praid_Driver Praid_Block
    Praid_System Praid_Array Praid_Bits Praid_Pci Praid_Config Praid_Params Praid_Startup
    Praid_Lifecycle Praid_Components Praid_Module Praid_Posting Praid_Identity Praid_Volume Praid_Service Praid_Tests
begin

text \<open>
  PRAID is a Linux kernel module that makes a RAID-4 array out of several disks and leaves the
  parity to a PCIe device, which the module itself emulates. This library models the module and
  proves what makes it correct, and what goes wrong where it does.

  \<^bold>\<open>The program.\<close> A request to the array enters \<open>vpciedisk_submit_bio\<close> (\<open>block.c\<close>), is cut at
  chunks of 4 KiB and sent to the data disk of each chunk. A write goes through the driver
  (\<open>pciedrv.c\<close>): \<open>pcievdrv_submit_verify\<close> first reads the old data; when the read completes,
  \<open>pciev_read_bio_endio\<close> queues a task with the old and the new bytes of each segment and lets
  the write go. A worker, \<open>do_verify_work\<close>, takes a semaphore, copies both into the calculation
  area and counts up \<open>io_num\<close> in the register block (\<open>pciev.h\<close>). The device's thread
  (\<open>pciev_dispatcher\<close>, \<open>device.c\<close> and \<open>pci.c\<close>) reads the parity sectors, combines the three,
  writes them back, counts up \<open>io_done\<close> and raises an interrupt, whose handler releases the
  semaphore. The device has a PCI configuration space (\<open>pci.h\<close>, \<open>pci.c\<close>); \<open>main.c\<close> reads the
  parameters, opens the disks and starts and stops the parts.

  \<^bold>\<open>Theories.\<close>
  \<^item> \<open>Praid_Prelude\<close>: integer types, the outcome of code that may fault (\<open>Ret\<close>, \<open>Crash\<close>), and the
    lemmas on words, byte memories and runs that all theories share.
  \<^item> \<open>Praid_Layout\<close> (\<open>block.h\<close>, \<open>praid.h\<close>): the macros of the stripe arithmetic on 64-bit words;
    the locale \<open>stripe_layout\<close> has the contract (round trip, onto, one chunk on one disk).
  \<^item> \<open>Praid_Kernel\<close>: bios, segments, iterators as records. The kernel's functions are the fields of
    the record \<open>kernel\<close>, a parameter of every definition that calls them; the locales
    \<open>bio_iterator\<close>, \<open>page_allocator\<close>, \<open>bio_builder\<close>, \<open>bio_splitter\<close> state what is documented of
    them, and \<open>reference_kernel\<close> is an instance that satisfies all of it.
  \<^item> \<open>Praid_Bar\<close> (\<open>pciev.h\<close>): the register block and the three chunks of the calculation area.
  \<^item> \<open>Praid_Device\<close> (\<open>pci.c\<close>, \<open>device.c\<close>): the parity computation with every error path, in one
    piece (\<open>pciev_dispatcher_clac_xor_single\<close>) and in steps (\<open>dev_step\<close>), proved to agree.
  \<^item> \<open>Praid_Driver\<close> (\<open>pciedrv.c\<close>, \<open>pciedrv.h\<close>) and \<open>Praid_Block\<close> (\<open>block.c\<close>): the write path and the
    request path as written, every allocation failure and early return included.
  \<^item> \<open>Praid_System\<close>: all parts as the steps of one transition system (\<open>sys_step\<close>) and its
    invariant; \<open>Praid_Array\<close>: what follows for the array; \<open>Praid_Posting\<close>: the worker store by store,
    and why one step of \<open>sys_step\<close> stands for all of them.
  \<^item> \<open>Praid_Volume\<close>: the specification the array refines, a single disk (\<open>vol\<close>) that takes whole
    requests; the simulation of it by \<open>sys_step\<close>, and runs with the log of their requests
    (\<open>sys_log\<close>).
  \<^item> \<open>Praid_Bits\<close>: bit-fields in byte memory and the layout the x86-64 ABI gives a struct with
    bit-fields; the locale \<open>bit_memory\<close> has the laws of reading and writing at places.
  \<^item> \<open>Praid_Pci\<close> (\<open>pci.h\<close>, \<open>pci.c\<close>): the structs of the configuration space, the settings, and the
    accessors \<open>pciev_pci_read\<close> and \<open>pciev_pci_write\<close>; \<open>Praid_Config\<close>: what they guarantee;
    \<open>Praid_Identity\<close> (\<open>pciedrv.c\<close>): that the structs do not disturb each other, the driver's table
    of devices and \<open>pcievdrv_get_configs\<close>.
  \<^item> \<open>Praid_Params\<close> (\<open>main.c\<close>, \<open>device.c\<close>): validation of the parameters, the list of minor numbers,
    derived addresses and sizes.
  \<^item> \<open>Praid_Startup\<close> (\<open>main.c\<close>, \<open>device.c\<close>, \<open>pci.c\<close>, \<open>pciedrv.c\<close>, \<open>block.c\<close>): loading and unloading as
    actions on a multiset of resources, where returning what is not held is a fault;
    \<open>Praid_Lifecycle\<close>: the contract of a part that is started and stopped (\<open>lifecycle\<close>) and of one
    part started inside another (\<open>ladder\<close>); \<open>Praid_Components\<close>: the five parts satisfy it;
    \<open>Praid_Module\<close>: the module as the ladder of the five; \<open>Praid_Service\<close>: the loaded module at
    work, and unloading it afterwards.
  \<^item> \<open>Praid_Tests\<close> (\<open>biotest/main.c\<close>, \<open>readtest/main.c\<close>): the two modules for trying the disk, run
    against the array.

  \<^bold>\<open>What is shown.\<close> Of the array: it is one disk, which holds what a plain disk would hold that
  had been given the same requests, also after the loss of a data disk, and a read of it gives
  back what was written; the parity differs from the data by exactly what is still under
  way, hence a lost disk can be recovered when nothing is; one request at a time is with the
  device; what is under way can be finished; every page has one owner. Of the
  configuration space: writes change the bits of the mask and no others, the device's identity
  is fixed and is the one in the driver's table, the flags kept outside agree with the registers,
  the members of the structs are independent, the capability lists are well formed, the base
  address can be sized. Of start-up: which parameters are accepted and with what
  result; what a failed load and an unload leave behind; that a loaded module
  with a bound driver is in a start state of the array; that opening the disks is all
  or nothing; that a failed probe goes unnoticed; that removal with tasks queued faults or
  hangs, and so does unloading the module after use at such a moment. Of the test modules:
  \<open>readtest\<close>, inserted after the array has been used, prints the first chunks of its volume and
  their exclusive or; \<open>biotest\<close> makes the array fault. Each property is stated next to the component it is about.

  \<^bold>\<open>Scope of the properties of the array.\<close> They hold for runs of careful requests in which nothing
  fails. A careful request (\<open>careful\<close>, \<open>write_request\<close>) is a write of whole sectors inside one
  chunk, of at most 256 vectors, in allocated pages which the caller leaves alone until they are
  written, that overlaps no request still under way, and in which no vector up to the end of its
  page is followed by one from the start of a page (\<open>seam_free\<close>), unless the page allocator never
  hands out the page after a page in use (\<open>pages_apart\<close>). Nothing fails: memory is available,
  pages can be mapped, work can be queued, no signal arrives (\<open>kernel_live\<close>), and the disks,
  the parity disk among them, answer (\<open>sys_step\<close>). There is at least one data disk, and all
  disks are different devices; the interrupt layer is in order (\<open>array_ok\<close>). For most of this there are theorems that say
  what happens without it: overlapping writes leave the parity wrong
  (\<open>overlapping_writes_break_parity\<close>), a write over two chunks faults (\<open>split_write_faults\<close>),
  neighbouring pages lose a write with a seam (\<open>adjacent_pages_lose_write\<close>), a failed access to
  the parity disk stops all workers (\<open>parity_error_stops_workers\<close>), a failed allocation drops
  the parity of a write (\<open>read_bio_endio_ignores_failure\<close>), a failed mapping releases the
  semaphore too early (\<open>do_verify_work_kmap_failure\<close>). The components themselves (\<open>Praid_Driver\<close>,
  \<open>Praid_Block\<close>, \<open>Praid_Device\<close>, \<open>Praid_Posting\<close>) are modelled and proved about with every failure.
  The properties of the loaded module ask in addition that device and driver map the same
  calculation area (\<open>one_calculation_area\<close>: the device's mapping succeeds, \<open>memmap_start\<close> is a
  multiple of 16 KiB and \<open>memmap_size\<close> leaves 12 KiB behind the first mebibyte).

  \<^bold>\<open>Conventions.\<close> Integers have the width of the source (\<open>u8\<close> to \<open>u64\<close>); addresses of objects are
  natural numbers. Loops that the source bounds only by its data are
  \<open>partial_function (option)\<close>, so \<open>None\<close> is a call that does not return, and the properties say
  that it returns; there is no fuel, but for the worker's single stores in \<open>Praid_Posting\<close>, of
  which nine are enough (\<open>post_rank\<close>, \<open>post_run_more\<close>). Waiting for the semaphore is \<open>None\<close>, too. The count of
  requests posted is bounded by \<open>2\<^sup>32\<close> in the properties of the array, because \<open>io_num\<close> has 32
  bits and is compared, not subtracted (\<open>Praid_Device.io_num_wrap_lost\<close>). The start-up theorems
  assume what \<open>boot_ok\<close> says: at most one device on the virtual bus, a page for the dispatcher, a
  work queue, and a driver not bound yet; without the page or the work queue the code faults in
  its exit path.

  \<^bold>\<open>Not modelled.\<close> Printing (the \<open>printk\<close> wrappers, \<open>vpciedisk_open\<close>, \<open>vpciedisk_release\<close>,
  \<open>__dump_pci_dev\<close>, \<open>__print_praid_info\<close>), except what \<open>readtest\<close> and \<open>pcievdrv_get_configs\<close> print;
  the branch for processors other than x86, which refuses every configuration; the
  registration tables handed to the kernel; the empty \<open>struct pci_msi_cap\<close>; the declarations
  in \<open>block.h\<close> that nothing uses; \<open>nraid.h\<close> (an unused copy of \<open>praid.h\<close>), scripts and build
  files. Requests other than reads and writes (flushes, discards) are not modelled. The start-up model has the registers, the semaphore and
  the capacity, but no other contents of memory: when the calculation area the driver maps is
  the one the device uses is the subject of \<open>Praid_Params.chunk_areas_agree_iff\<close> and
  \<open>Praid_Service.one_calculation_area_iff\<close>, and a module whose parts use two areas is not run.
\<close>

end
